(* ===== verification/Prelude.thy ===== *)
theory Prelude
  imports Main "HOL-Library.Word" "HOL-Library.AList" "HOL-Library.Multiset"
begin

text \<open>
  Shared vocabulary of the development.

  \<^item> bytes are 8-bit words, a Go \<open>string\<close> or \<open>[]byte\<close> that carries binary data is a list of
    them; a Go \<open>string\<close> that carries text is an Isabelle \<open>string\<close>;
  \<^item> a Go \<open>error\<close> is a value of \<open>go_error\<close>: \<open>Errorf\<close> for \<open>fmt.Errorf\<close> without a wrapped
    error and \<open>Wrapf\<close> for one that wraps another with \<open>%w\<close>;
  \<^item> a Go \<open>map\<close> (and \<open>syncro.Map\<close>, the same map behind a mutex) is an association list with
    distinct keys. Its list order is the order in which one \<open>range\<close> loop visits it; Go leaves
    that order open, so theorems hold for every order;
  \<^item> big-endian 16-bit encoding, as \<open>encoding/binary\<close> does it;
  \<^item> \<open>copy\<close>, slicing and in-place byte updates.
\<close>

named_theorems gomap_simps \<open>laws of Go maps\<close>
named_theorems byte_simps \<open>laws of byte strings\<close>

type_synonym byte = "8 word"
type_synonym bytes = "byte list"
type_synonym time = int   \<comment> \<open>nanoseconds; 0 is the zero \<open>time.Time\<close>\<close>

datatype go_error = Errorf string | Wrapf string go_error

type_synonym 'a result = "go_error + 'a"

abbreviation second :: time where "second \<equiv> 1000000000"
abbreviation millisecond :: time where "millisecond \<equiv> 1000000"

section \<open>Go maps\<close>

type_synonym ('k, 'v) gomap = "('k \<times> 'v) list"

abbreviation go_get :: "('k, 'v) gomap \<Rightarrow> 'k \<Rightarrow> 'v option" where
  "go_get \<equiv> map_of"

abbreviation go_set :: "('k, 'v) gomap \<Rightarrow> 'k \<Rightarrow> 'v \<Rightarrow> ('k, 'v) gomap" where
  "go_set m k v \<equiv> AList.update k v m"

abbreviation go_del :: "('k, 'v) gomap \<Rightarrow> 'k \<Rightarrow> ('k, 'v) gomap" where
  "go_del m k \<equiv> AList.delete k m"

abbreviation go_keys :: "('k, 'v) gomap \<Rightarrow> 'k list" where
  "go_keys m \<equiv> map fst m"

definition go_wf :: "('k, 'v) gomap \<Rightarrow> bool" where
  "go_wf m \<longleftrightarrow> distinct (go_keys m)"

text \<open>Reading a missing key yields the zero value of the element type.\<close>

definition go_get_or :: "'v \<Rightarrow> ('k, 'v) gomap \<Rightarrow> 'k \<Rightarrow> 'v" where
  "go_get_or z m k = (case go_get m k of None \<Rightarrow> z | Some v \<Rightarrow> v)"

text \<open>
  The interface every map-valued field of the program is used through. The laws are the ones
  the clients rely on; association lists provide them.
\<close>

locale kv_store =
  fixes get :: "'m \<Rightarrow> 'k \<Rightarrow> 'v option"
    and put :: "'m \<Rightarrow> 'k \<Rightarrow> 'v \<Rightarrow> 'm"
    and del :: "'m \<Rightarrow> 'k \<Rightarrow> 'm"
    and inv :: "'m \<Rightarrow> bool"
  assumes get_put: "get (put m k v) k' = (if k' = k then Some v else get m k')"
    and get_del: "get (del m k) k' = (if k' = k then None else get m k')"
    and inv_put: "inv m \<Longrightarrow> inv (put m k v)"
    and inv_del: "inv m \<Longrightarrow> inv (del m k)"
begin

lemma get_put_same: "get (put m k v) k = Some v"
  by (simp add: get_put)

lemma get_put_other: "k' \<noteq> k \<Longrightarrow> get (put m k v) k' = get m k'"
  by (simp add: get_put)

lemma put_del_put: "get (put (del m k) k v) = get (put m k v)"
  by (rule ext) (simp add: get_put get_del)

text \<open>Deleting a list of keys removes exactly those keys.\<close>

lemma get_fold_del: "get (fold (\<lambda>k m. del m k) ks m) k' = (if k' \<in> set ks then None else get m k')"
  by (induction ks arbitrary: m) (simp_all add: get_del)

lemma inv_fold_del: "inv m \<Longrightarrow> inv (fold (\<lambda>k m. del m k) ks m)"
  by (induction ks arbitrary: m) (simp_all add: inv_del)

lemma inv_fold_put: "inv m \<Longrightarrow> inv (fold (\<lambda>(k, v) m. put m k v) kvs m)"
  by (induction kvs arbitrary: m) (auto simp: inv_put)

lemma get_fold_put_fun:
  "get (fold (\<lambda>k m. put m k (f k)) ks m) k' = (if k' \<in> set ks then Some (f k') else get m k')"
  by (induction ks arbitrary: m) (simp_all add: get_put)

lemma inv_fold_put_fun: "inv m \<Longrightarrow> inv (fold (\<lambda>k m. put m k (f k)) ks m)"
  by (induction ks arbitrary: m) (simp_all add: inv_put)

lemma get_fold_put:
  "get (fold (\<lambda>(k, v) m. put m k v) kvs m) k'
     = (case map_of (rev kvs) k' of Some v \<Rightarrow> Some v | None \<Rightarrow> get m k')"
  by (induction kvs arbitrary: m) (auto simp: get_put map_add_def split: option.split)

end

interpretation gm: kv_store go_get "\<lambda>m k v. go_set m k v" "\<lambda>m k. go_del m k" go_wf
  by unfold_locales
    (auto simp: update_conv' delete_conv' go_wf_def distinct_update distinct_delete)

lemmas [gomap_simps] = gm.get_put gm.get_del gm.inv_put gm.inv_del

lemma go_wf_Nil [simp, intro!]: "go_wf []"
  by (simp add: go_wf_def)

lemma go_get_or_set [gomap_simps]:
  "go_get_or z (go_set m k v) k' = (if k' = k then v else go_get_or z m k')"
  by (simp add: go_get_or_def update_conv')

lemma go_get_Some_iff: "go_wf m \<Longrightarrow> go_get m k = Some v \<longleftrightarrow> (k, v) \<in> set m"
  by (simp add: go_wf_def)

lemma go_get_in_keys: "go_get m k = Some v \<Longrightarrow> k \<in> set (go_keys m)"
  by (force dest: map_of_SomeD)

lemma go_get_None_iff: "go_get m k = None \<longleftrightarrow> k \<notin> set (go_keys m)"
  by (simp add: map_of_eq_None_iff)

text \<open>
  \<open>for k, v := range m\<close>: the entries of \<open>m\<close> in the order a particular execution of the loop visits
  them, \<open>ord\<close> being that execution's choice among the orders Go allows.
\<close>

definition range_by :: "('k list \<Rightarrow> 'k list) \<Rightarrow> ('k, 'v) gomap \<Rightarrow> ('k \<times> 'v) list" where
  "range_by ord m = map (\<lambda>k. (k, the (go_get m k))) (ord (go_keys m))"

definition is_order :: "('k list \<Rightarrow> 'k list) \<Rightarrow> bool" where
  "is_order ord \<longleftrightarrow> (\<forall>ks. mset (ord ks) = mset ks)"

lemma is_orderD: "is_order ord \<Longrightarrow> mset (ord ks) = mset ks"
  by (simp add: is_order_def)

lemma is_order_id: "is_order (\<lambda>ks. ks)" "is_order rev"
  by (simp_all add: is_order_def)

lemma is_order_set [simp]: "is_order ord \<Longrightarrow> set (ord ks) = set ks"
  by (metis is_orderD set_mset_mset)

lemma is_order_distinct [simp]: "is_order ord \<Longrightarrow> distinct (ord ks) = distinct ks"
  by (metis is_orderD mset_eq_imp_distinct_iff)

lemma fst_range_by [simp]: "map fst (range_by ord m) = ord (go_keys m)"
  by (simp add: range_by_def comp_def)

lemma in_range_by: "is_order ord \<Longrightarrow> (k, v) \<in> set (range_by ord m) \<longleftrightarrow> go_get m k = Some v"
  using go_get_None_iff [of m k] go_get_in_keys [of m k v]
  by (cases "go_get m k") (auto simp: range_by_def)

lemma map_of_range_by:
  assumes "is_order ord" "go_wf m"
  shows "map_of (range_by ord m) = go_get m"
proof
  fix k
  have "distinct (map fst (range_by ord m))" using assms by (simp add: go_wf_def)
  then have "map_of (range_by ord m) k = Some v \<longleftrightarrow> go_get m k = Some v" for v
    using in_range_by [OF assms(1)] by (metis map_of_eq_Some_iff)
  then show "map_of (range_by ord m) k = go_get m k" by (metis option.exhaust)
qed

section \<open>Bytes\<close>

definition uint16_bytes :: "16 word \<Rightarrow> bytes" where
  "uint16_bytes w = [ucast (drop_bit 8 w), ucast w]"

definition bytes_uint16 :: "byte \<Rightarrow> byte \<Rightarrow> 16 word" where
  "bytes_uint16 hi lo = push_bit 8 (ucast hi) + ucast lo"

text \<open>\<open>b[i:j]\<close> for \<open>i \<le> j \<le> len(b)\<close>.\<close>

definition byte_slice :: "nat \<Rightarrow> nat \<Rightarrow> 'a list \<Rightarrow> 'a list" where
  "byte_slice i j b = take (j - i) (drop i b)"

text \<open>\<open>copy(dst[i:j], src)\<close>: overwrites at most \<open>j - i\<close> bytes of \<open>dst\<close>, fewer when \<open>src\<close> is short.\<close>

definition copy_into :: "nat \<Rightarrow> nat \<Rightarrow> 'a list \<Rightarrow> 'a list \<Rightarrow> 'a list" where
  "copy_into i j src dst =
     (let n = min (j - i) (length src) in take i dst @ take n src @ drop (i + n) dst)"

lemma length_copy_into [simp]: "i \<le> j \<Longrightarrow> j \<le> length dst \<Longrightarrow> length (copy_into i j src dst) = length dst"
  by (simp add: copy_into_def Let_def min_def)

lemma length_byte_slice [simp]: "j \<le> length b \<Longrightarrow> length (byte_slice i j b) = j - i"
  by (simp add: byte_slice_def)

lemma length_uint16_bytes [simp]: "length (uint16_bytes w) = 2"
  by (simp add: uint16_bytes_def)

lemma bytes_uint16_bytes [simp]: "bytes_uint16 (ucast (drop_bit 8 w)) (ucast w) = w"
proof -
  have "bytes_uint16 (ucast (drop_bit 8 w)) (ucast w)
      = or (push_bit 8 (ucast (ucast (drop_bit 8 w) :: byte))) (ucast (ucast w :: byte))"
    unfolding bytes_uint16_def
    by (rule disjunctive_add) (auto simp: bit_simps)
  also have "\<dots> = w"
    by (rule bit_word_eqI) (auto simp: bit_simps)
  finally show ?thesis .
qed

section \<open>Bit lengths\<close>

text \<open>\<open>bits.Len\<close>: the number of bits needed to write a number.\<close>

fun bit_len :: "nat \<Rightarrow> nat" where
  "bit_len n = (if n = 0 then 0 else Suc (bit_len (n div 2)))"

declare bit_len.simps [simp del]

lemma bit_len_0 [simp]: "bit_len 0 = 0"
  by (simp add: bit_len.simps)

lemma bit_len_upper: "n < 2 ^ bit_len n"
proof (induction n rule: bit_len.induct)
  case (1 n)
  show ?case
  proof (cases "n = 0")
    case False
    with 1 have "n div 2 < 2 ^ bit_len (n div 2)" by simp
    then have "n < 2 * 2 ^ bit_len (n div 2)" by linarith
    with False show ?thesis by (simp add: bit_len.simps [of n])
  qed simp
qed

lemma bit_len_lower: "0 < n \<Longrightarrow> 2 ^ (bit_len n - 1) \<le> n"
proof (induction n rule: bit_len.induct)
  case (1 n)
  show ?case
  proof (cases "n div 2 = 0")
    case True
    with 1 show ?thesis by (simp add: bit_len.simps [of n])
  next
    case False
    with 1 have "2 ^ (bit_len (n div 2) - 1) \<le> n div 2" by simp
    moreover from False have "0 < bit_len (n div 2)" by (simp add: bit_len.simps)
    then have "(2::nat) ^ bit_len (n div 2) = 2 * 2 ^ (bit_len (n div 2) - 1)"
      by (simp add: power_eq_if)
    ultimately show ?thesis using "1.prems" by (simp add: bit_len.simps [of n])
  qed
qed

lemma bit_len_eqI: "2 ^ (k - 1) \<le> n \<Longrightarrow> n < 2 ^ k \<Longrightarrow> 0 < k \<Longrightarrow> bit_len n = k"
proof -
  assume a: "2 ^ (k - 1) \<le> n" "n < 2 ^ k" "0 < k"
  then have n: "0 < n" by (metis gr0I not_le zero_less_numeral zero_less_power)
  have "k - 1 < bit_len n" "bit_len n - 1 < k"
    using a bit_len_upper [of n] bit_len_lower [OF n]
    by (metis (mono_tags) le_less_trans one_less_numeral_iff power_less_imp_less_exp semiring_norm(76))+
  then show ?thesis using a(3) by linarith
qed

lemma bit_len_mono: "m \<le> n \<Longrightarrow> bit_len m \<le> bit_len n"
proof (cases "m = 0")
  case False
  assume "m \<le> n"
  then have "2 ^ (bit_len m - 1) < (2::nat) ^ bit_len n"
    using False bit_len_lower [of m] bit_len_upper [of n] by linarith
  then have "bit_len m - 1 < bit_len n" by simp
  then show ?thesis by linarith
qed simp

end
