(* ===== verification/Float32.thy ===== *)
theory Float32
  imports Prelude
begin

text \<open>
  Go's \<open>float32\<close>, the type of every link cost.

  Every finite IEEE 754 binary32 number is an integer multiple of $2^{-149}$, the smallest
  subnormal, so \<open>Fin n\<close> stands for $n \cdot 2^{-149}$. The numbers a \<open>float32\<close> can hold are
  those that rounding to 24 significant bits leaves alone (\<open>f32_ok\<close>). Addition is exact
  addition followed by rounding to nearest, ties to even, with overflow to an infinity; the
  comparisons are those of IEEE 754, where every comparison with a NaN is false. The two zeros
  are one value: no operation of the program tells them apart.
\<close>

datatype f32 = NaN | NInf | Fin int | PInf

section \<open>Rounding to 24 significant bits\<close>

definition round_shift :: "nat \<Rightarrow> nat \<Rightarrow> nat" where
  "round_shift s n =
     (let q = n div 2 ^ s; r = n mod 2 ^ s
      in if 2 ^ s < 2 * r \<or> (2 * r = 2 ^ s \<and> odd q) then q + 1 else q)"

definition round_nat :: "nat \<Rightarrow> nat" where
  "round_nat n = (let s = bit_len n - 24 in round_shift s n * 2 ^ s)"

definition max_float32 :: int where
  "max_float32 = (2 ^ 24 - 1) * 2 ^ 253"

definition f32_of_int :: "int \<Rightarrow> f32" where
  "f32_of_int x =
     (let r = sgn x * int (round_nat (nat \<bar>x\<bar>))
      in if r > max_float32 then PInf else if r < - max_float32 then NInf else Fin r)"

fun f32_ok :: "f32 \<Rightarrow> bool" where
  "f32_ok (Fin x) \<longleftrightarrow> f32_of_int x = Fin x"
| "f32_ok _ \<longleftrightarrow> True"

section \<open>Operations\<close>

fun f32_add :: "f32 \<Rightarrow> f32 \<Rightarrow> f32" where
  "f32_add NaN _ = NaN"
| "f32_add _ NaN = NaN"
| "f32_add PInf NInf = NaN"
| "f32_add NInf PInf = NaN"
| "f32_add PInf _ = PInf"
| "f32_add _ PInf = PInf"
| "f32_add NInf _ = NInf"
| "f32_add _ NInf = NInf"
| "f32_add (Fin a) (Fin b) = f32_of_int (a + b)"

fun f32_less :: "f32 \<Rightarrow> f32 \<Rightarrow> bool" where
  "f32_less NaN _ = False"
| "f32_less _ NaN = False"
| "f32_less NInf y = (y \<noteq> NInf)"
| "f32_less _ NInf = False"
| "f32_less PInf _ = False"
| "f32_less _ PInf = True"
| "f32_less (Fin a) (Fin b) = (a < b)"

fun f32_eq :: "f32 \<Rightarrow> f32 \<Rightarrow> bool" where
  "f32_eq NaN _ = False"
| "f32_eq _ NaN = False"
| "f32_eq x y = (x = y)"

definition f32_le :: "f32 \<Rightarrow> f32 \<Rightarrow> bool" where
  "f32_le x y \<longleftrightarrow> f32_less x y \<or> f32_eq x y"

definition f32_zero :: f32 where "f32_zero = Fin 0"
definition f32_one :: f32 where "f32_one = Fin (2 ^ 149)"
definition f32_max :: f32 where "f32_max = Fin max_float32"

section \<open>Rounding is monotone and idempotent\<close>

lemma round_shift_0 [simp]: "round_shift 0 n = n"
  by (simp add: round_shift_def)

lemma round_shift_bounds:
  fixes n s :: nat
  shows "n div 2 ^ s \<le> round_shift s n" "round_shift s n \<le> n div 2 ^ s + 1"
  by (simp_all add: round_shift_def Let_def)

lemma round_shift_exact [simp]: "round_shift s (q * 2 ^ s) = q"
  by (simp add: round_shift_def)

lemma round_shift_mono: "m \<le> n \<Longrightarrow> round_shift s m \<le> round_shift s n"
proof -
  assume mn: "m \<le> n"
  then have "m div 2 ^ s \<le> n div 2 ^ s" by (rule div_le_mono)
  then consider "m div 2 ^ s < n div 2 ^ s" | "m div 2 ^ s = n div 2 ^ s" by linarith
  then show ?thesis
  proof cases
    case 1
    with round_shift_bounds(1) [of n s] round_shift_bounds(2) [of s m] show ?thesis by linarith
  next
    case 2
    with mn have "m mod 2 ^ s \<le> n mod 2 ^ s"
      by (metis add_le_cancel_left mult_div_mod_eq)
    with 2 show ?thesis unfolding round_shift_def Let_def by auto
  qed
qed

lemma round_nat_small [simp]: "bit_len n \<le> 24 \<Longrightarrow> round_nat n = n"
  by (simp add: round_nat_def)

lemma round_nat_bounds:
  assumes "0 < n"
  shows "2 ^ (bit_len n - 1) \<le> round_nat n" "round_nat n \<le> 2 ^ bit_len n"
proof -
  have "2 ^ (bit_len n - 1) \<le> round_nat n \<and> round_nat n \<le> 2 ^ bit_len n"
  proof (cases "bit_len n \<le> 24")
    case True
    with assms bit_len_lower [of n] bit_len_upper [of n] show ?thesis by simp
  next
    case False
    define s where "s = bit_len n - 24"
    have k: "bit_len n = 24 + s" using False by (simp add: s_def)
    have "(2::nat) ^ 23 * 2 ^ s = 2 ^ (bit_len n - 1)" by (simp add: k power_add)
    then have "2 ^ 23 * 2 ^ s \<le> n" using bit_len_lower [OF assms] by simp
    then have lo: "2 ^ 23 \<le> n div 2 ^ s" by (simp add: less_eq_div_iff_mult_less_eq)
    have "n < 2 ^ 24 * 2 ^ s" using bit_len_upper [of n] by (simp add: k power_add)
    then have hi: "n div 2 ^ s < 2 ^ 24" by (simp add: less_mult_imp_div_less)
    have "2 ^ 23 \<le> round_shift s n" "round_shift s n \<le> 2 ^ 24"
      using round_shift_bounds(1) [of n s] round_shift_bounds(2) [of s n] lo hi by linarith+
    then have "2 ^ 23 * 2 ^ s \<le> round_shift s n * 2 ^ s" "round_shift s n * 2 ^ s \<le> 2 ^ 24 * 2 ^ s"
      by (simp_all only: mult_le_mono1)
    then show ?thesis by (simp add: round_nat_def k power_add flip: s_def)
  qed
  then show "2 ^ (bit_len n - 1) \<le> round_nat n" "round_nat n \<le> 2 ^ bit_len n" by simp_all
qed

lemma round_nat_mono: "m \<le> n \<Longrightarrow> round_nat m \<le> round_nat n"
proof (cases "m = 0")
  case False
  assume mn: "m \<le> n"
  then have "bit_len m \<le> bit_len n" by (rule bit_len_mono)
  then consider "bit_len m = bit_len n" | "bit_len m \<le> bit_len n - 1" by linarith
  then show ?thesis
  proof cases
    case 1
    with mn show ?thesis by (simp add: round_nat_def Let_def round_shift_mono)
  next
    case 2
    have "round_nat m \<le> 2 ^ bit_len m" using False by (simp add: round_nat_bounds)
    also have "\<dots> \<le> 2 ^ (bit_len n - 1)" using 2 by simp
    also have "\<dots> \<le> round_nat n" using False mn round_nat_bounds(1) [of n] by linarith
    finally show ?thesis .
  qed
qed simp

lemma bit_len_mult_pow2: "0 < q \<Longrightarrow> bit_len (q * 2 ^ s) = bit_len q + s"
proof (rule bit_len_eqI)
  assume q: "0 < q"
  then have pos: "0 < bit_len q" by (simp add: bit_len.simps)
  then have "2 ^ (bit_len q + s - 1) = 2 ^ (bit_len q - 1) * (2::nat) ^ s"
    by (simp flip: power_add)
  then show "2 ^ (bit_len q + s - 1) \<le> q * 2 ^ s" using bit_len_lower [OF q] by simp
  show "q * 2 ^ s < 2 ^ (bit_len q + s)" using bit_len_upper [of q] by (simp add: power_add)
  show "0 < bit_len q + s" using pos by simp
qed

lemma bit_len_pow2 [simp]: "bit_len (2 ^ k) = Suc k"
  by (rule bit_len_eqI) simp_all

lemma round_nat_24bit: "q \<le> 2 ^ 24 \<Longrightarrow> round_nat (q * 2 ^ s) = q * 2 ^ s"
proof -
  assume "q \<le> 2 ^ 24"
  then consider "q = 0" | "q = 2 ^ 24" | "0 < q" "q < 2 ^ 24" by linarith
  then show ?thesis
  proof cases
    case 2
    have e: "q * 2 ^ s = 2 ^ (24 + s)" by (simp add: 2 power_add)
    have "2 ^ (24 + s) = 2 ^ 23 * (2::nat) ^ Suc s" by (simp add: power_add)
    then have "round_shift (Suc s) (2 ^ (24 + s)) = 2 ^ 23" by (simp only: round_shift_exact)
    moreover have "bit_len (2 ^ (24 + s)) - 24 = Suc s" by (simp only: bit_len_pow2)
    ultimately have "round_nat (2 ^ (24 + s)) = 2 ^ 23 * 2 ^ Suc s"
      by (simp only: round_nat_def Let_def)
    then show ?thesis unfolding e by (simp add: power_add)
  next
    case 3
    then have "2 ^ (bit_len q - 1) < (2::nat) ^ 24" using bit_len_lower [of q] by linarith
    then have "bit_len q - 1 < 24" by (rule power_less_imp_less_exp [rotated]) simp
    moreover define d where "d = bit_len (q * 2 ^ s) - 24"
    ultimately have "d \<le> s" using 3 by (simp add: bit_len_mult_pow2)
    then have e: "q * 2 ^ s = q * 2 ^ (s - d) * 2 ^ d" by (simp flip: power_add)
    have "round_nat (q * 2 ^ s) = round_shift d (q * 2 ^ (s - d) * 2 ^ d) * 2 ^ d"
      unfolding round_nat_def Let_def by (simp only: d_def [symmetric] e [symmetric])
    then show ?thesis by (simp only: round_shift_exact e)
  qed simp
qed

lemma round_nat_idem [simp]: "round_nat (round_nat n) = round_nat n"
proof (cases "bit_len n \<le> 24")
  case False
  define s where "s = bit_len n - 24"
  have k: "bit_len n = 24 + s" using False by (simp add: s_def)
  have "n < 2 ^ 24 * 2 ^ s" using bit_len_upper [of n] by (simp add: k power_add)
  then have "n div 2 ^ s < 2 ^ 24" by (simp add: less_mult_imp_div_less)
  then have "round_shift s n \<le> 2 ^ 24" using round_shift_bounds(2) [of s n] by linarith
  then show ?thesis by (simp add: round_nat_def [of n] round_nat_24bit flip: s_def)
qed simp

section \<open>The laws of \<open>float32\<close> the router relies on\<close>

lemma round_nat_0 [simp]: "round_nat 0 = 0"
  by simp

definition round_int :: "int \<Rightarrow> int" where
  "round_int x = sgn x * int (round_nat (nat \<bar>x\<bar>))"

lemma f32_of_int_round:
  "f32_of_int x = (if round_int x > max_float32 then PInf
     else if round_int x < - max_float32 then NInf else Fin (round_int x))"
  by (simp add: f32_of_int_def round_int_def Let_def)

lemma round_int_nonneg: "0 \<le> x \<Longrightarrow> round_int x = int (round_nat (nat x))"
  by (cases "x = 0") (simp_all add: round_int_def)

lemma round_int_minus: "round_int (- x) = - round_int x"
  by (simp add: round_int_def sgn_minus)

lemma round_int_sign: "0 \<le> x \<Longrightarrow> 0 \<le> round_int x"
  by (simp add: round_int_nonneg)

lemma round_int_mono: "x \<le> y \<Longrightarrow> round_int x \<le> round_int y"
proof -
  assume xy: "x \<le> y"
  consider "0 \<le> x" | "x < 0" "0 \<le> y" | "y < 0" by linarith
  then show ?thesis
  proof cases
    case 1
    with xy show ?thesis by (simp add: round_int_nonneg round_nat_mono nat_mono)
  next
    case 2
    then have "0 \<le> round_int (- x)" "0 \<le> round_int y" by (simp_all add: round_int_sign)
    then show ?thesis by (simp add: round_int_minus)
  next
    case 3
    with xy have "round_int (- y) \<le> round_int (- x)"
      by (simp add: round_int_nonneg round_nat_mono nat_mono)
    then show ?thesis by (simp add: round_int_minus)
  qed
qed

lemma round_int_idem [simp]: "round_int (round_int x) = round_int x"
proof (cases "0 \<le> x")
  case True
  then show ?thesis by (simp add: round_int_nonneg)
next
  case False
  then have "round_int (round_int (- x)) = round_int (- x)" by (simp add: round_int_nonneg)
  then show ?thesis by (simp add: round_int_minus)
qed

lemma f32_ok_Fin: "f32_ok (Fin x) \<longleftrightarrow> round_int x = x \<and> \<bar>x\<bar> \<le> max_float32"
  by (auto simp: f32_of_int_round)

lemma f32_ok_of_int [simp]: "f32_ok (f32_of_int x)"
  by (auto simp: f32_of_int_round f32_ok_Fin simp del: f32_ok.simps(1))

lemma f32_ok_add [simp]: "f32_ok a \<Longrightarrow> f32_ok b \<Longrightarrow> f32_ok (f32_add a b)"
  by (cases a; cases b) (simp_all del: f32_ok.simps(1))

lemma f32_less_irrefl [simp]: "\<not> f32_less a a"
  by (cases a) simp_all

lemma f32_not_PInf_less [simp]: "\<not> f32_less PInf a"
  by (cases a) simp_all

lemma f32_less_trans: "f32_less a b \<Longrightarrow> f32_less b c \<Longrightarrow> f32_less a c"
  by (cases a; cases b; cases c) simp_all

lemma f32_less_of_int: "x \<le> y \<Longrightarrow> \<not> f32_less (f32_of_int y) (f32_of_int x)"
  using round_int_mono [of x y] by (simp add: f32_of_int_round)

lemma f32_not_less_trans:
  "b \<noteq> NaN \<Longrightarrow> \<not> f32_less b a \<Longrightarrow> \<not> f32_less c b \<Longrightarrow> \<not> f32_less c a"
  by (cases a; cases b; cases c) simp_all

text \<open>
  The costs the router computes with: finite non-negative numbers and, when a sum overflows,
  the positive infinity.
\<close>

definition f32_cost :: "f32 \<Rightarrow> bool" where
  "f32_cost c \<longleftrightarrow> f32_ok c \<and> c \<noteq> NaN \<and> \<not> f32_less c f32_zero"

lemma f32_cost_cases:
  assumes "f32_cost c"
  obtains n where "c = Fin (int n)" "f32_ok (Fin (int n))" | "c = PInf"
  using assms zero_le_imp_eq_int by (cases c) (auto simp: f32_cost_def f32_zero_def not_less)

text \<open>
  What a shortest-path computation needs of its costs. Floating-point addition is not
  associative, so the cost of a path is the left-to-right sum from the source, and the laws are
  those of extending a path by one link: extension is monotone and never makes a path cheaper.
\<close>

locale cost_algebra =
  fixes add :: "'c \<Rightarrow> 'c \<Rightarrow> 'c"
    and less :: "'c \<Rightarrow> 'c \<Rightarrow> bool"
    and cost :: "'c \<Rightarrow> bool"
  assumes less_asym: "less a b \<Longrightarrow> \<not> less b a"
    and not_less_trans: "cost a \<Longrightarrow> cost b \<Longrightarrow> cost c \<Longrightarrow> \<not> less b a \<Longrightarrow> \<not> less c b \<Longrightarrow> \<not> less c a"
    and cost_add: "cost a \<Longrightarrow> cost e \<Longrightarrow> cost (add a e)"
    and add_mono: "cost a \<Longrightarrow> cost b \<Longrightarrow> cost e \<Longrightarrow> \<not> less b a \<Longrightarrow> \<not> less (add b e) (add a e)"
    and add_inflates: "cost a \<Longrightarrow> cost e \<Longrightarrow> \<not> less (add a e) a"
begin

lemma less_irrefl: "\<not> less a a"
  using less_asym by blast

lemma less_not_less_trans: "cost a \<Longrightarrow> cost b \<Longrightarrow> cost c \<Longrightarrow> less a b \<Longrightarrow> \<not> less c b \<Longrightarrow> less a c"
  using not_less_trans [of b c a] by blast

end

lemma f32_add_mono:
  assumes "f32_cost a" "f32_cost b" "f32_cost e" "\<not> f32_less b a"
  shows "\<not> f32_less (f32_add b e) (f32_add a e)"
proof -
  from assms(1) show ?thesis
  proof (cases rule: f32_cost_cases)
    case (1 n)
    from assms(2) show ?thesis
    proof (cases rule: f32_cost_cases)
      case (1 m)
      from assms(3) show ?thesis
        using \<open>a = _\<close> \<open>b = _\<close> assms(4)
        by (cases rule: f32_cost_cases) (simp_all add: f32_less_of_int)
    qed (use assms(3) in \<open>cases rule: f32_cost_cases; simp_all\<close>)
  qed (use assms in \<open>auto elim!: f32_cost_cases\<close>)
qed

lemma f32_add_inflates:
  assumes "f32_cost a" "f32_cost e"
  shows "\<not> f32_less (f32_add a e) a"
  using assms(1)
proof (cases rule: f32_cost_cases)
  case (1 n)
  from assms(2) show ?thesis
  proof (cases rule: f32_cost_cases)
    case (1 m)
    have "f32_of_int (int n) = Fin (int n)" using \<open>f32_ok (Fin (int n))\<close> by simp
    with f32_less_of_int [of "int n" "int n + int m"] 1 \<open>a = _\<close> show ?thesis by simp
  qed (simp add: \<open>a = _\<close>)
qed (use assms(2) in \<open>auto elim!: f32_cost_cases\<close>)

lemma f32_cost_add: "f32_cost a \<Longrightarrow> f32_cost e \<Longrightarrow> f32_cost (f32_add a e)"
proof -
  assume "f32_cost a" "f32_cost e"
  moreover from this have "f32_add a e \<noteq> NaN"
    by (elim f32_cost_cases) (simp_all add: f32_of_int_round)
  ultimately show ?thesis
    using f32_add_inflates [of a e] f32_not_less_trans [of a f32_zero "f32_add a e"]
    by (auto simp: f32_cost_def)
qed

lemma f32_less_asym: "f32_less a b \<Longrightarrow> \<not> f32_less b a"
  by (cases a; cases b) simp_all

interpretation f32c: cost_algebra f32_add f32_less f32_cost
proof
  show "\<not> f32_less c a" if "f32_cost b" "\<not> f32_less b a" "\<not> f32_less c b" for a b c
    using that f32_not_less_trans [of b a c] by (simp add: f32_cost_def)
qed (simp_all add: f32_less_asym f32_add_mono f32_add_inflates f32_cost_add)

text \<open>
  Only finitely many numbers lie below a given one, so a sequence of costs each smaller than the
  one before ends. \<open>f32_rank\<close> counts them; it decreases for every number a sum can yield,
  the negative ones included.
\<close>

fun f32_rank :: "f32 \<Rightarrow> nat" where
  "f32_rank NInf = 0"
| "f32_rank (Fin x) = nat (x + max_float32) + 1"
| "f32_rank _ = nat (2 * max_float32) + 2"

lemma f32_rank_add:
  assumes "f32_less (f32_add a b) c"
  shows "f32_rank (f32_add a b) < f32_rank c"
proof -
  have "f32_ok (f32_add a b) \<or> f32_add a b \<in> {NaN, NInf, PInf}"
    by (cases a; cases b) (simp_all del: f32_ok.simps(1))
  then show ?thesis using assms
    by (cases "f32_add a b"; cases c) (auto simp: f32_ok_Fin simp del: f32_ok.simps(1))
qed

end
