(* ===== verification/Relaxation.thy ===== *)
theory Relaxation
  imports Float32
begin

text \<open>
  Shortest paths by relaxation, independently of any data structure: the facts about
  labels and predecessors that the router's route calculation rests on.

  A graph is a function \<open>edge\<close> from pairs of vertices to an optional cost. \<open>walk\<close> relates a vertex
  to the costs of the walks that reach it from the source, each added up from the source onwards,
  the way the program adds them (\<open>float32\<close> addition is not associative, so the order matters).
  \<open>walk_via\<close> is the same for walks with a given first hop.

  The locale \<open>label_setting\<close> extends the cost algebra with a zero and a top cost. Its \<open>label_inv\<close> is
  the invariant of the calculation, \<open>label_inv_pop\<close> and \<open>label_inv_relax\<close> show that taking a vertex
  from the work set and relaxing an edge keep it, and the remaining lemmas say what the invariant
  gives once the work set is empty: labels are least walk costs, predecessor chains end, and the
  first hop on a chain starts a walk whose cost is the label. \<open>float32\<close> costs instantiate it.
\<close>

section \<open>Walks\<close>

inductive walk :: "('c \<Rightarrow> 'c \<Rightarrow> 'c) \<Rightarrow> 'c \<Rightarrow> ('v \<Rightarrow> 'v \<Rightarrow> 'c option) \<Rightarrow> 'v \<Rightarrow> 'v \<Rightarrow> 'c \<Rightarrow> bool"
  for add :: "'c \<Rightarrow> 'c \<Rightarrow> 'c" and zero :: 'c and edge :: "'v \<Rightarrow> 'v \<Rightarrow> 'c option" and src :: 'v
  where
    walk_start: "walk add zero edge src src zero"
  | walk_step: "walk add zero edge src u c \<Longrightarrow> edge u v = Some e \<Longrightarrow> walk add zero edge src v (add c e)"

inductive walk_via ::
    "('c \<Rightarrow> 'c \<Rightarrow> 'c) \<Rightarrow> 'c \<Rightarrow> ('v \<Rightarrow> 'v \<Rightarrow> 'c option) \<Rightarrow> 'v \<Rightarrow> 'v \<Rightarrow> 'v \<Rightarrow> 'c \<Rightarrow> bool"
  for add :: "'c \<Rightarrow> 'c \<Rightarrow> 'c" and zero :: 'c and edge :: "'v \<Rightarrow> 'v \<Rightarrow> 'c option" and src :: 'v and hop :: 'v
  where
    via_start: "edge src hop = Some e \<Longrightarrow> walk_via add zero edge src hop hop (add zero e)"
  | via_step: "walk_via add zero edge src hop u c \<Longrightarrow> edge u v = Some e \<Longrightarrow>
      walk_via add zero edge src hop v (add c e)"

lemma walk_via_walk: "walk_via add zero edge src hop v c \<Longrightarrow> walk add zero edge src v c"
  by (induction rule: walk_via.induct) (auto intro: walk.intros)

section \<open>The invariant of relaxation\<close>

text \<open>The predecessor relation: \<open>no\<close> is the value that stands for no predecessor.\<close>

definition pred_rel :: "'v \<Rightarrow> ('v \<Rightarrow> 'v) \<Rightarrow> ('v \<times> 'v) set" where
  "pred_rel no pr = {(v, pr v) |v. pr v \<noteq> no}"

lemma pred_rel_upd: "pred_rel no (pr(v := u)) \<subseteq> insert (v, u) (pred_rel no pr)"
  by (auto simp: pred_rel_def)

locale label_setting = cost_algebra add less cost
  for add :: "'c \<Rightarrow> 'c \<Rightarrow> 'c" and less :: "'c \<Rightarrow> 'c \<Rightarrow> bool" and cost :: "'c \<Rightarrow> bool" +
  fixes zero :: 'c and top :: 'c
  assumes cost_zero: "cost zero"
    and cost_top: "cost top"
    and zero_least: "cost a \<Longrightarrow> \<not> less a zero"
    and zero_top: "less zero top"
    and antisym: "cost a \<Longrightarrow> cost b \<Longrightarrow> \<not> less a b \<Longrightarrow> \<not> less b a \<Longrightarrow> a = b"
begin

text \<open>
  \<open>S\<close> is the work set, \<open>P\<close> the edges still to be relaxed of the vertex being processed, \<open>d\<close> the
  labels and \<open>pr\<close> the predecessors.
\<close>

definition label_inv ::
    "('v \<Rightarrow> 'v \<Rightarrow> 'c option) \<Rightarrow> 'v \<Rightarrow> 'v set \<Rightarrow> 'v \<Rightarrow> 'v set \<Rightarrow> ('v \<times> 'v) set \<Rightarrow> ('v \<Rightarrow> 'c) \<Rightarrow> ('v \<Rightarrow> 'v) \<Rightarrow> bool"
  where
  "label_inv edge src V no S P d pr \<longleftrightarrow>
     d src = zero \<and> pr src = no \<and> (\<forall>v. cost (d v)) \<and>
     (\<forall>u v e. edge u v = Some e \<longrightarrow> u \<notin> S \<longrightarrow> (u, v) \<notin> P \<longrightarrow> \<not> less (add (d u) e) (d v)) \<and>
     (\<forall>v. pr v \<noteq> no \<longrightarrow> (\<exists>e. edge (pr v) v = Some e \<and> \<not> less (d v) (add (d (pr v)) e)) \<and> less (d v) top) \<and>
     (\<forall>v\<in>V. pr v = no \<longrightarrow> v \<noteq> src \<longrightarrow> d v = top) \<and>
     (\<forall>v\<in>V. less (d v) top \<longrightarrow> walk add zero edge src v (d v)) \<and>
     acyclic (pred_rel no pr)"

definition graph_ok :: "('v \<Rightarrow> 'v \<Rightarrow> 'c option) \<Rightarrow> 'v set \<Rightarrow> 'v \<Rightarrow> bool" where
  "graph_ok edge V no \<longleftrightarrow>
     no \<notin> V \<and> (\<forall>u v e. edge u v = Some e \<longrightarrow> u \<in> V \<and> v \<in> V \<and> cost e)"

lemma walk_is_cost:
  "graph_ok edge V no \<Longrightarrow> walk add zero edge src v c \<Longrightarrow> cost c"
  by (rotate_tac 1, induction rule: walk.induct) (auto simp: cost_zero graph_ok_def intro: cost_add)

text \<open>The invariant by parts.\<close>

lemma label_invI:
  assumes "d src = zero" "pr src = no" "\<And>v. cost (d v)"
    and "\<And>u v e. edge u v = Some e \<Longrightarrow> u \<notin> S \<Longrightarrow> (u, v) \<notin> P \<Longrightarrow> \<not> less (add (d u) e) (d v)"
    and "\<And>v. pr v \<noteq> no \<Longrightarrow> \<exists>e. edge (pr v) v = Some e \<and> \<not> less (d v) (add (d (pr v)) e)"
    and "\<And>v. pr v \<noteq> no \<Longrightarrow> less (d v) top"
    and "\<And>v. v \<in> V \<Longrightarrow> pr v = no \<Longrightarrow> v \<noteq> src \<Longrightarrow> d v = top"
    and "\<And>v. v \<in> V \<Longrightarrow> less (d v) top \<Longrightarrow> walk add zero edge src v (d v)"
    and "acyclic (pred_rel no pr)"
  shows "label_inv edge src V no S P d pr"
  unfolding label_inv_def using assms by (intro conjI allI ballI impI; blast)

lemma label_invD:
  assumes "label_inv edge src V no S P d pr"
  shows inv_src: "d src = zero" "pr src = no"
    and inv_cost: "\<And>v. cost (d v)"
    and inv_relaxed: "\<And>u v e. edge u v = Some e \<Longrightarrow> u \<notin> S \<Longrightarrow> (u, v) \<notin> P \<Longrightarrow> \<not> less (add (d u) e) (d v)"
    and inv_pred: "\<And>v. pr v \<noteq> no \<Longrightarrow> \<exists>e. edge (pr v) v = Some e \<and> \<not> less (d v) (add (d (pr v)) e)"
    and inv_pred_top: "\<And>v. pr v \<noteq> no \<Longrightarrow> less (d v) top"
    and inv_no_pred: "\<And>v. v \<in> V \<Longrightarrow> pr v = no \<Longrightarrow> v \<noteq> src \<Longrightarrow> d v = top"
    and inv_walk: "\<And>v. v \<in> V \<Longrightarrow> less (d v) top \<Longrightarrow> walk add zero edge src v (d v)"
    and inv_acyclic: "acyclic (pred_rel no pr)"
  using assms unfolding label_inv_def by simp_all

lemma label_inv_init:
  assumes "\<And>v. v \<in> V \<Longrightarrow> v \<noteq> src \<Longrightarrow> d v = top" and "d src = zero" and "\<And>v. cost (d v)"
    and "\<And>v. pr v = no" and "V \<subseteq> S" and "graph_ok edge V no"
  shows "label_inv edge src V no S {} d pr"
proof (rule label_invI)
  show "acyclic (pred_rel no pr)" using assms(4) by (simp add: pred_rel_def acyclic_def)
  show "walk add zero edge src v (d v)" if "v \<in> V" "less (d v) top" for v
    using that assms(1,2) less_irrefl [of top] by (cases "v = src") (auto intro: walk_start)
  show "\<not> less (add (d u) e) (d v)" if "edge u v = Some e" "u \<notin> S" for u v e
    using that assms(5,6) by (auto simp: graph_ok_def)
qed (use assms in simp_all)

lemma label_inv_pop:
  assumes "label_inv edge src V no S {} d pr"
  shows "label_inv edge src V no (S - {u}) {(u, v) |v. edge u v \<noteq> None} d pr"
proof (rule label_invI)
  show "\<not> less (add (d w) e) (d v)"
    if "edge w v = Some e" "w \<notin> S - {u}" "(w, v) \<notin> {(u, v) |v. edge u v \<noteq> None}" for w v e
    using that by (intro inv_relaxed [OF assms]) auto
qed (fact label_invD [OF assms])+

lemma label_inv_no_pending:
  assumes "label_inv edge src V no S P d pr" and "\<And>u v. (u, v) \<in> P \<Longrightarrow> edge u v = None"
  shows "label_inv edge src V no S {} d pr"
proof (rule label_invI)
  show "\<not> less (add (d u) e) (d v)" if "edge u v = Some e" "u \<notin> S" for u v e
    using that assms(2) [of u v] by (intro inv_relaxed [OF assms(1)]) auto
qed (fact label_invD [OF assms(1)])+

lemma label_inv_pred_le:
  assumes inv: "label_inv edge src V no S P d pr" and g: "graph_ok edge V no"
    and "(u, v) \<in> (pred_rel no pr)\<^sup>*"
  shows "\<not> less (d u) (d v)"
  using assms(3)
proof (induction rule: converse_rtrancl_induct)
  case (step x y)
  from step(1) have "pr x \<noteq> no" "y = pr x" by (auto simp: pred_rel_def)
  with inv_pred [OF inv] obtain e where e: "edge y x = Some e" "\<not> less (d x) (add (d y) e)" by blast
  note c = inv_cost [OF inv]
  from e(1) g have ce: "cost e" unfolding graph_ok_def by blast
  have "\<not> less (d x) (d y)"
    by (rule not_less_trans [OF c cost_add [OF c ce] c add_inflates [OF c ce] e(2)])
  then show ?case by (rule not_less_trans [OF c c c step(3)])
qed (rule less_irrefl)

lemma label_inv_top:
  assumes "label_inv edge src V no S P d pr" "v \<in> V"
  shows "\<not> less top (d v)"
proof (cases "pr v = no")
  case True
  then show ?thesis
    using inv_no_pred [OF assms] inv_src [OF assms(1)] less_asym [OF zero_top] less_irrefl [of top]
    by (cases "v = src") auto
qed (use inv_pred_top [OF assms(1)] less_asym in blast)

lemma label_inv_skip:
  assumes inv: "label_inv edge src V no S P d pr"
    and "edge u v = Some e" "\<not> less (add (d u) e) (d v)"
  shows "label_inv edge src V no S (P - {(u, v)}) d pr"
proof (rule label_invI)
  show "\<not> less (add (d w) e') (d x)"
    if "edge w x = Some e'" "w \<notin> S" "(w, x) \<notin> P - {(u, v)}" for w x e'
    using that assms(2,3) inv_relaxed [OF inv, of w x e'] by (cases "(w, x) = (u, v)") auto
qed (fact label_invD [OF inv])+

text \<open>Relaxing an edge that shortens the way to its end.\<close>

lemma label_inv_relax:
  assumes inv: "label_inv edge src V no S P d pr" and g: "graph_ok edge V no"
    and e: "edge u v = Some e" and lt: "less (add (d u) e) (d v)"
  shows "label_inv edge src V no (insert v S) (P - {(u, v)}) (d(v := add (d u) e)) (pr(v := u))"
proof -
  note c = inv_cost [OF inv]
  from g e have ce: "cost e" and uV: "u \<in> V" "v \<in> V" "u \<noteq> no" by (auto simp: graph_ok_def)
  have cpc: "cost (add (d u) e)" by (rule cost_add [OF c ce])
  have ult: "less (d u) (d v)"
    using add_inflates [OF c ce] lt not_less_trans [OF c c cpc] less_asym by blast
  then have uv: "u \<noteq> v" using less_irrefl by auto
  have vsrc: "v \<noteq> src" using lt zero_least [OF cpc] inv_src [OF inv] by auto
  have vle: "\<not> less x (add (d u) e)" if "cost x" "\<not> less x (d v)" for x
    using not_less_trans [OF cpc c that(1) _ that(2)] less_asym [OF lt] by blast
  have ptop: "less (add (d u) e) top"
    using less_not_less_trans [OF cpc c cost_top lt label_inv_top [OF inv uV(2)]] .
  have utop: "less (d u) top"
    using less_not_less_trans [OF c c cost_top ult label_inv_top [OF inv uV(2)]] .
  show ?thesis
  proof (rule label_invI)
    show "(d(v := add (d u) e)) src = zero" "(pr(v := u)) src = no"
      using vsrc inv_src [OF inv] by simp_all
    show "cost ((d(v := add (d u) e)) w)" for w using c cpc by simp
    show "\<not> less (add ((d(v := add (d u) e)) w) e') ((d(v := add (d u) e)) x)"
      if wx: "edge w x = Some e'" "w \<notin> insert v S" "(w, x) \<notin> P - {(u, v)}" for w x e'
    proof (cases "(w, x) = (u, v)")
      case True
      then show ?thesis using e wx(1) uv less_irrefl by simp
    next
      case False
      then have r: "\<not> less (add (d w) e') (d x)" using wx inv_relaxed [OF inv wx(1)] by auto
      have "cost (add (d w) e')" using g wx(1) c cost_add unfolding graph_ok_def by blast
      then show ?thesis using r wx(2) vle [of "add (d w) e'"] by auto
    qed
    show "\<exists>e'. edge ((pr(v := u)) x) x = Some e'
        \<and> \<not> less ((d(v := add (d u) e)) x) (add ((d(v := add (d u) e)) ((pr(v := u)) x)) e')"
      if x: "(pr(v := u)) x \<noteq> no" for x
    proof (cases "x = v")
      case True
      then show ?thesis using e uv less_irrefl by auto
    next
      case False
      then obtain e' where e': "edge (pr x) x = Some e'" "\<not> less (d x) (add (d (pr x)) e')"
        using x inv_pred [OF inv, of x] by auto
      then have ce': "cost e'" using g unfolding graph_ok_def by blast
      have "\<not> less (d x) (add (add (d u) e) e')" if "pr x = v"
        using not_less_trans [OF cost_add [OF cpc ce'] cost_add [OF c ce'] c
            add_mono [OF cpc c ce' less_asym [OF lt]]] e' that by simp
      then show ?thesis using False e' by auto
    qed
    show "less ((d(v := add (d u) e)) x) top" if "(pr(v := u)) x \<noteq> no" for x
      using that ptop inv_pred_top [OF inv] by auto
    show "(d(v := add (d u) e)) x = top" if "x \<in> V" "(pr(v := u)) x = no" "x \<noteq> src" for x
      using that uV inv_no_pred [OF inv, of x] by (auto split: if_splits)
    show "walk add zero edge src x ((d(v := add (d u) e)) x)"
      if "x \<in> V" "less ((d(v := add (d u) e)) x) top" for x
      using that inv_walk [OF inv uV(1) utop] inv_walk [OF inv, of x] e by (auto intro: walk_step)
    have "(u, v) \<notin> (pred_rel no pr)\<^sup>*"
      using label_inv_pred_le [OF inv g, of u v] ult by blast
    then have "acyclic (insert (v, u) (pred_rel no pr))"
      using inv_acyclic [OF inv] by (simp add: acyclic_insert)
    then show "acyclic (pred_rel no (pr(v := u)))"
      by (rule acyclic_subset) (rule pred_rel_upd)
  qed
qed

section \<open>What the invariant gives when the work set is empty\<close>

text \<open>Labels are lower bounds of all walk costs.\<close>

lemma label_least:
  assumes inv: "label_inv edge src V no {} {} d pr" and g: "graph_ok edge V no"
    and "walk add zero edge src v c"
  shows "\<not> less c (d v)"
  using assms(3)
proof (induction rule: walk.induct)
  case walk_start
  then show ?case using inv_src [OF inv] less_irrefl by simp
next
  case (walk_step u c v e)
  note k = inv_cost [OF inv]
  from walk_step(2) g have ce: "cost e" unfolding graph_ok_def by blast
  have cc: "cost c" by (rule walk_is_cost [OF g walk_step(1)])
  show ?case
    by (rule not_less_trans [OF k cost_add [OF k ce] cost_add [OF cc ce]
        inv_relaxed [OF inv walk_step(2)] add_mono [OF k cc ce walk_step.IH]]) simp_all
qed

text \<open>Along a predecessor the label is exactly the predecessor's plus the edge.\<close>

lemma label_pred_eq:
  assumes inv: "label_inv edge src V no {} {} d pr" and g: "graph_ok edge V no" and "pr v \<noteq> no"
  shows "\<exists>e. edge (pr v) v = Some e \<and> d v = add (d (pr v)) e"
proof -
  obtain e where e: "edge (pr v) v = Some e" "\<not> less (d v) (add (d (pr v)) e)"
    using inv_pred [OF inv assms(3)] by blast
  note c = inv_cost [OF inv]
  have "cost e" using e(1) g unfolding graph_ok_def by blast
  then have "d v = add (d (pr v)) e"
    using antisym [OF c cost_add [OF c]] inv_relaxed [OF inv e(1)] e(2) by blast
  with e(1) show ?thesis by blast
qed

end

lemma f32_antisym: "f32_cost a \<Longrightarrow> f32_cost b \<Longrightarrow> \<not> f32_less a b \<Longrightarrow> \<not> f32_less b a \<Longrightarrow> a = b"
  by (elim f32_cost_cases) simp_all

lemma f32_cost_consts: "f32_cost f32_zero" "f32_cost f32_max"
proof -
  have "round_int max_float32 = max_float32"
    using round_nat_24bit [of "2 ^ 24 - 1" 253] by (simp add: round_int_nonneg max_float32_def)
  then show "f32_cost f32_zero" "f32_cost f32_max"
    by (simp_all add: f32_cost_def f32_zero_def f32_max_def f32_ok_Fin round_int_nonneg del: f32_ok.simps)
      (simp_all add: max_float32_def)
qed

interpretation f32l: label_setting f32_add f32_less f32_cost f32_zero f32_max
proof
  show "f32_cost f32_zero" "f32_cost f32_max" by (rule f32_cost_consts)+
  show "f32_less f32_zero f32_max" by (simp add: f32_zero_def f32_max_def max_float32_def)
  show "\<not> f32_less a f32_zero" if "f32_cost a" for a using that by (simp add: f32_cost_def)
qed (rule f32_antisym)

end
