(* ===== verification/Tcpip.thy ===== *)
theory Tcpip
  imports Prelude
begin

unbundle bit_operations_syntax

text \<open>
  \<^verbatim>\<open>pkg/proto/tcpip.go\<close>: addresses, netmasks and subnets as byte strings, and what the file
  uses of Go's \<open>net\<close> package. An \<open>IP\<close> is the 4 or 16 bytes of an address, a \<open>Mask\<close> the bytes of
  a netmask and a \<open>Subnet\<close> the bytes of an address followed by the bytes of a mask; the empty
  string is the invalid value of each.

  The lemmas show that \<open>Contains\<close> is prefix matching on the bits of the address, that
  \<open>Prefix\<close> inverts \<open>CIDRMask\<close>, and that a host-only subnet contains exactly the addresses equal
  to its own.
\<close>

type_synonym ip = bytes
type_synonym mask = bytes
type_synonym subnet = bytes

named_theorems tcpip_defs \<open>definitions of \<^verbatim>\<open>tcpip.go\<close>\<close>

section \<open>Go's net package\<close>

definition isZeros :: "bytes \<Rightarrow> bool" where
  "isZeros p \<longleftrightarrow> list_all (\<lambda>b. b = 0) p"

definition v4InV6Prefix :: bytes where
  "v4InV6Prefix = replicate 10 0 @ [0xff, 0xff]"

definition net_To4 :: "ip \<Rightarrow> ip option" where
  "net_To4 a =
     (if length a = 4 then Some a
      else if length a = 16 \<and> isZeros (byte_slice 0 10 a) \<and> a ! 10 = 0xff \<and> a ! 11 = 0xff
        then Some (byte_slice 12 16 a)
      else None)"

definition net_Equal :: "ip \<Rightarrow> ip \<Rightarrow> bool" where
  "net_Equal a x =
     (if length a = length x then a = x
      else if length a = 4 \<and> length x = 16
        then take 12 x = v4InV6Prefix \<and> a = drop 12 x
      else if length a = 16 \<and> length x = 4
        then take 12 a = v4InV6Prefix \<and> drop 12 a = x
      else False)"

fun cidr_bytes :: "nat \<Rightarrow> nat \<Rightarrow> bytes" where
  "cidr_bytes n 0 = []"
| "cidr_bytes n (Suc l) =
     (if n \<ge> 8 then 0xff # cidr_bytes (n - 8) l
      else NOT (drop_bit n 0xff) # cidr_bytes 0 l)"

definition net_CIDRMask :: "int \<Rightarrow> int \<Rightarrow> mask" where
  "net_CIDRMask ones bits =
     (if bits \<noteq> 32 \<and> bits \<noteq> 128 then []
      else if ones < 0 \<or> ones > bits then []
      else cidr_bytes (nat ones) (nat (bits div 8)))"

record ipnet =
  ipn_IP :: ip
  ipn_Mask :: mask

definition networkNumberAndMask :: "ipnet \<Rightarrow> ip \<times> mask" where
  "networkNumberAndMask n =
     (let a = (case net_To4 (ipn_IP n) of Some a4 \<Rightarrow> a4 | None \<Rightarrow> ipn_IP n);
          m = ipn_Mask n
      in if net_To4 (ipn_IP n) = None \<and> length a \<noteq> 16 then ([], [])
         else if length m = 4 then (if length a \<noteq> 4 then ([], []) else (a, m))
         else if length m = 16 then (if length a = 4 then (a, drop 12 m) else (a, m))
         else ([], []))"

definition net_Contains :: "ipnet \<Rightarrow> ip \<Rightarrow> bool" where
  "net_Contains n a =
     (let (nn, m) = networkNumberAndMask n;
          x = (case net_To4 a of Some a4 \<Rightarrow> a4 | None \<Rightarrow> a)
      in length x = length nn \<and> list_all (\<lambda>i. nn ! i AND m ! i = x ! i AND m ! i) [0..<length x])"

definition LeadingZeros8 :: "byte \<Rightarrow> nat" where
  "LeadingZeros8 b = 8 - bit_len (unat b)"

section \<open>Addresses, masks and subnets\<close>

definition IP_Equal :: "ip \<Rightarrow> ip \<Rightarrow> bool" where
  "IP_Equal a b = net_Equal a b"

definition CIDRMask :: "int \<Rightarrow> int \<Rightarrow> mask" where
  "CIDRMask ones bits = net_CIDRMask ones bits"

definition Mask_Prefix :: "mask \<Rightarrow> nat" where
  "Mask_Prefix m = foldl (\<lambda>p b. p + LeadingZeros8 (NOT b)) 0 m"

definition NewSubnet :: "ip \<Rightarrow> mask \<Rightarrow> subnet" where
  "NewSubnet a m =
     (if length a \<noteq> length m then []
      else map (\<lambda>i. a ! i AND m ! i) [0..<length a] @ m)"

definition NewHostOnlySubnet :: "ip \<Rightarrow> subnet" where
  "NewHostOnlySubnet a = a @ net_CIDRMask (int (length a) * 8) (int (length a) * 8)"

definition subnet_len_ok :: "subnet \<Rightarrow> bool" where
  "subnet_len_ok s \<longleftrightarrow> length s = 2 * 4 \<or> length s = 2 * 16"

definition Subnet_IP :: "subnet \<Rightarrow> ip" where
  "Subnet_IP s = (if \<not> subnet_len_ok s then [] else take (length s div 2) s)"

definition Subnet_Mask :: "subnet \<Rightarrow> mask" where
  "Subnet_Mask s = (if \<not> subnet_len_ok s then [] else drop (length s div 2) s)"

definition Subnet_AsIPNet :: "subnet \<Rightarrow> ipnet" where
  "Subnet_AsIPNet s = \<lparr>ipn_IP = Subnet_IP s, ipn_Mask = Subnet_Mask s\<rparr>"

definition Subnet_Contains :: "subnet \<Rightarrow> ip \<Rightarrow> bool" where
  "Subnet_Contains s a = net_Contains (Subnet_AsIPNet s) a"

definition Subnet_Prefix :: "subnet \<Rightarrow> nat" where
  "Subnet_Prefix s = Mask_Prefix (Subnet_Mask s)"

lemmas [tcpip_defs] = IP_Equal_def CIDRMask_def Subnet_IP_def Subnet_Mask_def
  Subnet_AsIPNet_def Subnet_Contains_def Subnet_Prefix_def subnet_len_ok_def

section \<open>Text form\<close>

definition hex_digit :: "nat \<Rightarrow> char" where
  "hex_digit d = ''0123456789abcdef'' ! d"

text \<open>Lower-case hexadecimal without leading zeros, and decimal without leading zeros.\<close>

definition hex16 :: "nat \<Rightarrow> string" where
  "hex16 n =
     (if n \<ge> 4096 then [hex_digit (n div 4096)] else []) @
     (if n \<ge> 256 then [hex_digit (n div 256 mod 16)] else []) @
     (if n \<ge> 16 then [hex_digit (n div 16 mod 16)] else []) @
     [hex_digit (n mod 16)]"

definition dec8 :: "nat \<Rightarrow> string" where
  "dec8 n =
     (if n \<ge> 100 then [hex_digit (n div 100)] else []) @
     (if n \<ge> 10 then [hex_digit (n div 10 mod 10)] else []) @
     [hex_digit (n mod 10)]"

definition v4_String :: "ip \<Rightarrow> string" where
  "v4_String a = dec8 (unat (a ! 0)) @ ''.'' @ dec8 (unat (a ! 1)) @ ''.'' @
     dec8 (unat (a ! 2)) @ ''.'' @ dec8 (unat (a ! 3))"

definition v6u16 :: "ip \<Rightarrow> nat \<Rightarrow> nat" where
  "v6u16 a i = unat (a ! (2 * i)) * 256 + unat (a ! (2 * i + 1))"

text \<open>The longest run of at least two zero groups, the first of them if there are several.\<close>

definition zero_run_len :: "ip \<Rightarrow> nat \<Rightarrow> nat" where
  "zero_run_len a i = length (takeWhile (\<lambda>j. v6u16 a j = 0) [i..<8])"

definition v6_zero_run :: "ip \<Rightarrow> nat \<times> nat" where
  "v6_zero_run a =
     foldl (\<lambda>(zs, ze) i. let l = zero_run_len a i in if l \<ge> 2 \<and> l > ze - zs then (i, i + l) else (zs, ze))
       (255, 255) [0..<8]"

fun v6_groups :: "ip \<Rightarrow> nat \<times> nat \<Rightarrow> nat list \<Rightarrow> string" where
  "v6_groups a (zs, ze) [] = ''''"
| "v6_groups a (zs, ze) (i # is) =
     (if i = zs then ''::'' @ (if ze \<ge> 8 then '''' else hex16 (v6u16 a ze)) @ v6_groups a (zs, ze) is
      else if zs < i \<and> i \<le> ze then v6_groups a (zs, ze) is
      else (if i > 0 then '':'' else '''') @ hex16 (v6u16 a i) @ v6_groups a (zs, ze) is)"

definition v6_String :: "ip \<Rightarrow> string" where
  "v6_String a = v6_groups a (v6_zero_run a) [0..<8]"

definition hexString :: "bytes \<Rightarrow> string" where
  "hexString b = concat (map (\<lambda>x. [hex_digit (unat x div 16), hex_digit (unat x mod 16)]) b)"

definition net_IP_String :: "ip \<Rightarrow> string" where
  "net_IP_String a =
     (if length a = 0 then ''<nil>''
      else if length a \<noteq> 4 \<and> length a \<noteq> 16 then ''?'' @ hexString a
      else case net_To4 a of Some a4 \<Rightarrow> v4_String a4 | None \<Rightarrow> v6_String a)"

definition IP_String :: "ip \<Rightarrow> string" where
  "IP_String a = net_IP_String a"

definition IP_DebugString :: "ip \<Rightarrow> string" where
  "IP_DebugString a = ''IP '' @ hexString a"

text \<open>\<open>net.IPMask.String\<close> and \<open>net.IPNet.String\<close>; the prefix length is \<open>None\<close> for a mask that is not contiguous.\<close>

definition Mask_String :: "mask \<Rightarrow> string" where
  "Mask_String m = (if m = [] then ''<nil>'' else hexString m)"

definition Mask_DebugString :: "mask \<Rightarrow> string" where
  "Mask_DebugString m = ''Mask '' @ hexString m"

fun simpleMaskLength :: "mask \<Rightarrow> nat option" where
  "simpleMaskLength [] = Some 0"
| "simpleMaskLength (v # m) =
     (if v = 0xff then map_option (\<lambda>n. n + 8) (simpleMaskLength m)
      else let k = LeadingZeros8 (NOT v)
           in if push_bit k v \<noteq> 0 \<or> list_ex (\<lambda>b. b \<noteq> 0) m then None else Some k)"

definition net_IPNet_String :: "ipnet \<Rightarrow> string" where
  "net_IPNet_String n =
     (let (nn, m) = networkNumberAndMask n
      in if nn = [] \<or> m = [] then ''<nil>''
         else case simpleMaskLength m of
                None \<Rightarrow> net_IP_String nn @ ''/'' @ Mask_String m
              | Some l \<Rightarrow> net_IP_String nn @ ''/'' @ dec8 l)"

definition Subnet_String :: "subnet \<Rightarrow> string" where
  "Subnet_String s =
     (if length s = 0 then ''<nil>''
      else if \<not> subnet_len_ok s then ''<invalid>''
      else net_IPNet_String (Subnet_AsIPNet s))"

definition Subnet_DebugString :: "subnet \<Rightarrow> string" where
  "Subnet_DebugString s = ''Subnet '' @ hexString s"

lemma upt8: "[0..<8] = [0, 1, 2, 3, 4, 5, 6, 7]"
  by (simp add: upt_rec)

lemmas IP_String_eval = IP_String_def net_IP_String_def net_To4_def v6_String_def v6_zero_run_def
  zero_run_len_def v6u16_def upt8 Let_def upt_rec hex16_def dec8_def v4_String_def hex_digit_def

section \<open>Bits of an address\<close>

definition byte_bits :: "byte \<Rightarrow> bool list" where
  "byte_bits b = map (bit b) [7, 6, 5, 4, 3, 2, 1, 0]"

definition addr_bits :: "bytes \<Rightarrow> bool list" where
  "addr_bits a = concat (map byte_bits a)"

lemma length_byte_bits [simp]: "length (byte_bits b) = 8"
  by (simp add: byte_bits_def)

lemma byte_bits_inject [simp]: "byte_bits a = byte_bits b \<longleftrightarrow> a = b"
proof
  assume "byte_bits a = byte_bits b"
  then have "bit a n \<longleftrightarrow> bit b n" if "n < 8" for n
    using that by (auto simp: byte_bits_def less_Suc_eq numeral_eq_Suc)
  then show "a = b" by (auto intro!: bit_word_eqI)
qed simp

lemma addr_bits_Cons: "addr_bits (b # a) = byte_bits b @ addr_bits a"
  by (simp add: addr_bits_def)

lemma addr_bits_Nil [simp]: "addr_bits [] = []"
  by (simp add: addr_bits_def)

lemma length_addr_bits [simp]: "length (addr_bits a) = 8 * length a"
  by (induction a) (simp_all add: addr_bits_Cons)

lemma byte_bits_nth: "k < 8 \<Longrightarrow> byte_bits b ! k = bit b (7 - k)"
  by (auto simp: byte_bits_def less_Suc_eq numeral_eq_Suc)

lemma byte_ff: "(0xff :: byte) = - 1"
  by simp

lemma and_ff [simp]: "(x :: byte) AND 0xff = x"
  unfolding byte_ff by simp

lemma mask_byte_bits: "n < 8 \<Longrightarrow>
  x AND NOT (drop_bit n 0xff) = y AND NOT (drop_bit n (0xff :: byte))
    \<longleftrightarrow> take n (byte_bits x) = take n (byte_bits y)"
proof -
  assume n: "n < 8"
  have "x AND NOT (drop_bit n 0xff) = y AND NOT (drop_bit n 0xff)
      \<longleftrightarrow> (\<forall>k < 8. k + n \<ge> 8 \<longrightarrow> bit x k = bit y k)"
    unfolding byte_ff by (auto simp: bit_eq_iff bit_simps)
  also have "\<dots> \<longleftrightarrow> (\<forall>k < n. bit x (7 - k) = bit y (7 - k))"
  proof
    assume a: "\<forall>k < 8. k + n \<ge> 8 \<longrightarrow> bit x k = bit y k"
    then show "\<forall>k < n. bit x (7 - k) = bit y (7 - k)" using n by auto
  next
    assume a: "\<forall>k < n. bit x (7 - k) = bit y (7 - k)"
    have "bit x k = bit y k" if "k < 8" "k + n \<ge> 8" for k
      using a [rule_format, of "7 - k"] that by simp
    then show "\<forall>k < 8. k + n \<ge> 8 \<longrightarrow> bit x k = bit y k" by blast
  qed
  also have "\<dots> \<longleftrightarrow> take n (byte_bits x) = take n (byte_bits y)"
    using n by (auto simp: list_eq_iff_nth_eq byte_bits_nth)
  finally show ?thesis .
qed

text \<open>Masking with the CIDR mask of \<open>n\<close> ones keeps exactly the first \<open>n\<close> bits.\<close>

lemma length_cidr_bytes [simp]: "length (cidr_bytes n l) = l"
  by (induction n l rule: cidr_bytes.induct) simp_all

lemma cidr_mask_bits:
  assumes "length xs = l" "length ys = l"
  shows "map2 (AND) xs (cidr_bytes n l) = map2 (AND) ys (cidr_bytes n l)
     \<longleftrightarrow> take n (addr_bits xs) = take n (addr_bits ys)"
  using assms
proof (induction n l arbitrary: xs ys rule: cidr_bytes.induct)
  case (1 n)
  then show ?case by simp
next
  case (2 n l)
  then obtain x xs' y ys' where xs: "xs = x # xs'" and ys: "ys = y # ys'"
    and len: "length xs' = l" "length ys' = l"
    by (metis length_Suc_conv)
  show ?case
  proof (cases "n \<ge> 8")
    case True
    with "2.IH"(1) [OF True len] show ?thesis by (simp add: xs ys addr_bits_Cons)
  next
    case False
    with "2.IH"(2) [OF False len] have "map2 (AND) xs' (cidr_bytes 0 l) = map2 (AND) ys' (cidr_bytes 0 l)"
      by simp
    then have "map2 (AND) xs (cidr_bytes n (Suc l)) = map2 (AND) ys (cidr_bytes n (Suc l))
        \<longleftrightarrow> x AND NOT (drop_bit n 0xff) = y AND NOT (drop_bit n 0xff)"
      using False by (simp add: xs ys)
    then show ?thesis using False by (simp add: xs ys addr_bits_Cons mask_byte_bits)
  qed
qed

section \<open>Prefix lengths\<close>

lemma foldl_plus_sum: "foldl (\<lambda>p b. p + f b) a xs = a + sum_list (map f xs)"
  for a :: nat
  by (induction xs arbitrary: a) simp_all

lemma LeadingZeros8_masks: "list_all (\<lambda>n. LeadingZeros8 (drop_bit n 0xff) = n) [0..<8]"
  by code_simp

lemma LeadingZeros8_mask: "n < 8 \<Longrightarrow> LeadingZeros8 (drop_bit n 0xff) = n"
  using LeadingZeros8_masks by (simp add: list_all_iff del: upt_conv_Cons upt_rec_numeral)

lemma Mask_Prefix_cidr_bytes: "Mask_Prefix (cidr_bytes n l) = min n (8 * l)"
proof (induction n l rule: cidr_bytes.induct)
  case (2 n l)
  have "LeadingZeros8 (NOT 0xff) = 8" by (simp add: LeadingZeros8_def byte_ff)
  with 2 show ?case
    by (auto simp: Mask_Prefix_def foldl_plus_sum LeadingZeros8_mask)
qed (simp add: Mask_Prefix_def)

section \<open>Containment\<close>

text \<open>A mask has at most as many leading ones as bits, and that many only when all bits are set.\<close>

lemma LeadingZeros8_le: "LeadingZeros8 b \<le> 8" "LeadingZeros8 b = 8 \<longleftrightarrow> b = 0"
proof -
  have "bit_len (unat b) = 0 \<longleftrightarrow> b = 0"
    by (simp add: bit_len.simps [of "unat b"] unat_eq_0)
  moreover have "unat b \<le> 255" using unsigned_less [of b, where ?'a = nat] by simp
  then have "bit_len (unat b) \<le> bit_len 255" by (rule bit_len_mono)
  then have "bit_len (unat b) \<le> 8" by (simp add: bit_len.simps)
  ultimately show "LeadingZeros8 b \<le> 8" "LeadingZeros8 b = 8 \<longleftrightarrow> b = 0"
    by (auto simp: LeadingZeros8_def)
qed

lemma Mask_Prefix_full:
  "Mask_Prefix m \<le> 8 * length m \<and> (Mask_Prefix m = 8 * length m \<longrightarrow> m = replicate (length m) 0xff)"
proof (induction m)
  case (Cons b m)
  have n: "NOT b = 0 \<longleftrightarrow> b = 0xff" using bit.compl_eq_compl_iff [of b "- 1"] by (simp add: byte_ff)
  show ?case
    using Cons LeadingZeros8_le [of "NOT b"]
    by (simp add: Mask_Prefix_def foldl_plus_sum n) linarith
qed (simp add: Mask_Prefix_def)

lemma CIDRMask_128: "n \<le> 128 \<Longrightarrow> CIDRMask (int n) 128 = cidr_bytes n 16"
  by (simp add: CIDRMask_def net_CIDRMask_def)

lemma CIDRMask_32: "n \<le> 32 \<Longrightarrow> CIDRMask (int n) 32 = cidr_bytes n 4"
  by (simp add: CIDRMask_def net_CIDRMask_def)

lemma map2_and_nth:
  "length m = length a \<Longrightarrow> map (\<lambda>i. a ! i AND m ! i) [0..<length a] = map2 (AND) a (m :: bytes)"
  by (rule nth_equalityI) simp_all

lemma NewSubnet_map2: "length m = length a \<Longrightarrow> NewSubnet a m = map2 (AND) a m @ m"
  by (simp add: NewSubnet_def map2_and_nth)

lemma masked_eq_iff:
  assumes "length nn = l" "length m = l" "length x = l"
  shows "list_all (\<lambda>i. nn ! i AND m ! i = x ! i AND m ! i) [0..<l]
     \<longleftrightarrow> map2 (AND) nn m = map2 (AND) x (m :: bytes)"
proof -
  have "map2 (AND) nn m = map2 (AND) x m \<longleftrightarrow>
      (\<forall>i < l. map2 (AND) nn m ! i = map2 (AND) x m ! i)"
    using assms by (simp add: list_eq_iff_nth_eq del: nth_map nth_zip)
  also have "\<dots> \<longleftrightarrow> (\<forall>i < l. nn ! i AND m ! i = x ! i AND m ! i)"
    using assms by simp
  finally show ?thesis by (auto simp: list_all_iff)
qed

lemma map2_and_idem: "map2 (AND) (map2 (AND) a m) m = map2 (AND) a (m :: bytes)"
  by (rule nth_equalityI) (simp_all add: and.assoc)

lemma cidr_bytes_nth_ff:
  "i < l \<Longrightarrow> cidr_bytes n l ! i = 0xff \<Longrightarrow> j \<le> i \<Longrightarrow> cidr_bytes n l ! j = 0xff"
proof (induction n l arbitrary: i j rule: cidr_bytes.induct)
  case (2 n l)
  have z: "cidr_bytes 0 l ! k \<noteq> 0xff" if "k < l" for k l
    using that by (induction l arbitrary: k) (auto simp: nth_Cons byte_ff split: nat.splits)
  have nz: "NOT (drop_bit n 0xff) \<noteq> (0xff :: byte)" if "n < 8"
  proof
    assume "NOT (drop_bit n 0xff) = (0xff :: byte)"
    then have "bit (NOT (drop_bit n (- 1 :: byte))) 0 = bit (- 1 :: byte) 0" by (simp only: byte_ff)
    then show False using that by (simp add: bit_simps)
  qed
  show ?case
  proof (cases "n \<ge> 8")
    case True
    show ?thesis
    proof (cases "i = 0 \<or> j = 0")
      case False
      with "2.prems" True have "cidr_bytes (n - 8) l ! (j - 1) = 0xff"
        by (intro "2.IH"(1) [of "i - 1" "j - 1"]) (auto simp: nth_Cons')
      with False True show ?thesis by (simp add: nth_Cons')
    qed (use True "2.prems" in auto)
  next
    case False
    with "2.prems" z [of "i - 1" l] nz show ?thesis by (cases i) simp_all
  qed
qed simp

lemma and_eq_ff: "x AND y = (0xff :: byte) \<Longrightarrow> x = 0xff \<and> y = 0xff"
  unfolding byte_ff by (simp add: bit_eq_iff bit_simps)

text \<open>Masking the host bits of an address that is not IPv4-mapped does not make it one.\<close>

lemma To4_masked:
  assumes "length a = 16" "net_To4 a = None"
  shows "net_To4 (map2 (AND) a (cidr_bytes n 16)) = None"
proof (rule ccontr)
  let ?m = "cidr_bytes n 16" and ?a = "map2 (AND) a (cidr_bytes n 16)"
  assume "net_To4 ?a \<noteq> None"
  then have z: "isZeros (byte_slice 0 10 ?a)" and ff: "?a ! 10 = 0xff" "?a ! 11 = 0xff"
    using assms(1) by (auto simp: net_To4_def split: if_splits)
  have "a ! 11 AND ?m ! 11 = 0xff" using ff(2) assms(1) by simp
  then have "?m ! 11 = 0xff" using and_eq_ff by blast
  then have m: "?m ! j = 0xff" if "j \<le> 11" for j
    using that by (intro cidr_bytes_nth_ff [of 11 16 n j]) simp_all
  have same: "?a ! j = a ! j" if "j \<le> 11" for j
    using that assms(1) m [OF that] by simp
  then have "byte_slice 0 10 ?a = byte_slice 0 10 a"
    using assms(1) by (intro nth_equalityI) (simp_all add: byte_slice_def del: nth_map nth_zip)
  with z ff same [of 10] same [of 11] have "net_To4 a \<noteq> None"
    using assms(1) by (simp add: net_To4_def)
  with assms(2) show False by simp
qed

lemma Subnet_parts:
  assumes "length a = length m" "length m = 4 \<or> length m = 16"
  shows "Subnet_IP (a @ m) = a" "Subnet_Mask (a @ m) = m"
  using assms by (auto simp: tcpip_defs)

text \<open>
  C35. For an IPv6 address that is not IPv4-mapped and a prefix length up to 128, the subnet made
  by NewSubnet from the address and the CIDR mask contains exactly the 16-byte addresses, again
  not IPv4-mapped, whose first bits up to the prefix length agree with it.
\<close>

theorem contains_is_prefix_match:
  assumes "length a = 16" "net_To4 a = None" "n \<le> 128"
  shows "Subnet_Contains (NewSubnet a (CIDRMask (int n) 128)) b
     \<longleftrightarrow> length b = 16 \<and> net_To4 b = None \<and> take n (addr_bits b) = take n (addr_bits a)"
proof -
  let ?m = "cidr_bytes n 16" and ?a = "map2 (AND) a (cidr_bytes n 16)"
  have s: "NewSubnet a (CIDRMask (int n) 128) = ?a @ ?m"
    using assms by (simp add: CIDRMask_128 NewSubnet_map2)
  have nm: "networkNumberAndMask (Subnet_AsIPNet (?a @ ?m)) = (?a, ?m)"
    using assms To4_masked [OF assms(1,2), of n]
    by (simp add: networkNumberAndMask_def Subnet_AsIPNet_def Subnet_parts Let_def)
  show ?thesis
  proof (cases "length b = 16 \<and> net_To4 b = None")
    case True
    then have "Subnet_Contains (?a @ ?m) b \<longleftrightarrow> map2 (AND) ?a ?m = map2 (AND) b ?m"
      using assms(1) masked_eq_iff [of ?a 16 ?m b]
      by (simp add: Subnet_Contains_def net_Contains_def nm)
    also have "\<dots> \<longleftrightarrow> take n (addr_bits a) = take n (addr_bits b)"
      using True assms(1) by (simp add: map2_and_idem cidr_mask_bits)
    finally show ?thesis using True by (auto simp: s)
  next
    case False
    then have "length (case net_To4 b of Some a4 \<Rightarrow> a4 | None \<Rightarrow> b) \<noteq> 16"
      by (auto simp: net_To4_def split: option.splits if_splits)
    with False assms(1) show ?thesis
      by (auto simp: s Subnet_Contains_def net_Contains_def nm)
  qed
qed

theorem contains_is_prefix_match_witness:
  "Subnet_Contains (NewSubnet (0xfd # replicate 15 1) (CIDRMask (int 8) 128)) (0xfd # replicate 15 2)
     \<and> \<not> Subnet_Contains (NewSubnet (0xfd # replicate 15 1) (CIDRMask (int 8) 128)) (0xfc # replicate 15 1)"
proof -
  have a: "length (0xfd # replicate 15 (1 :: byte)) = 16" "net_To4 (0xfd # replicate 15 1) = None"
    by (simp_all add: net_To4_def isZeros_def byte_slice_def)
  note * = contains_is_prefix_match [OF a, of 8, simplified]
  show ?thesis
    unfolding of_nat_numeral *
    by (simp add: net_To4_def isZeros_def byte_slice_def addr_bits_Cons byte_bits_def)
qed

lemma cidr_bytes_full: "cidr_bytes (8 * l) l = replicate l 0xff"
  by (induction l) simp_all

lemma NewHostOnlySubnet_full:
  "length a = 4 \<or> length a = 16 \<Longrightarrow> NewHostOnlySubnet a = a @ replicate (length a) 0xff"
  using cidr_bytes_full [of 4] cidr_bytes_full [of 16]
  by (auto simp: NewHostOnlySubnet_def net_CIDRMask_def)

lemma NewHostOnlySubnet_parts:
  assumes "length a = 16"
  shows "Subnet_IP (NewHostOnlySubnet a) = a" "Subnet_Mask (NewHostOnlySubnet a) = replicate 16 0xff"
    "length (NewHostOnlySubnet a) = 32"
  using assms by (simp_all add: NewHostOnlySubnet_full Subnet_parts)

lemma NewHostOnlySubnet_prefix: "length a = 16 \<Longrightarrow> Subnet_Prefix (NewHostOnlySubnet a) = 128"
  using Mask_Prefix_cidr_bytes [of 128 16] cidr_bytes_full [of 16]
  by (simp add: Subnet_Prefix_def NewHostOnlySubnet_parts)

lemma NewHostOnlySubnet_inject:
  "length a = 16 \<Longrightarrow> length b = 16 \<Longrightarrow> NewHostOnlySubnet a = NewHostOnlySubnet b \<longleftrightarrow> a = b"
  by (metis NewHostOnlySubnet_parts(1))

text \<open>Only host-only subnets have prefix length 128.\<close>

lemma Subnet_Prefix_128:
  assumes "128 \<le> Subnet_Prefix k"
  shows "length (Subnet_IP k) = 16" "k = NewHostOnlySubnet (Subnet_IP k)"
proof -
  have "128 \<le> 8 * length (Subnet_Mask k)"
    using assms Mask_Prefix_full [of "Subnet_Mask k"] by (simp add: Subnet_Prefix_def)
  then have l: "length k = 32" by (auto simp: Subnet_Mask_def subnet_len_ok_def split: if_splits)
  then show i: "length (Subnet_IP k) = 16" by (simp add: Subnet_IP_def subnet_len_ok_def)
  have "Subnet_Mask k = replicate 16 0xff"
    using assms Mask_Prefix_full [of "Subnet_Mask k"] l
    by (simp add: Subnet_Prefix_def Subnet_Mask_def subnet_len_ok_def)
  then have "k = Subnet_IP k @ replicate 16 0xff"
    using l append_take_drop_id [of 16 k] by (simp add: Subnet_IP_def Subnet_Mask_def subnet_len_ok_def)
  then show "k = NewHostOnlySubnet (Subnet_IP k)" using i by (simp add: NewHostOnlySubnet_full)
qed

lemma To4_length: "net_To4 a = Some a4 \<Longrightarrow> length a4 = 4"
  by (auto simp: net_To4_def split: if_splits)

lemma To4_None_length: "net_To4 a = None \<Longrightarrow> length a \<noteq> 4"
  by (auto simp: net_To4_def)

lemma isZeros_replicate: "isZeros p \<longleftrightarrow> p = replicate (length p) 0"
  unfolding isZeros_def by (induction p) auto

lemma mapped_iff:
  assumes "length a = 16"
  shows "isZeros (byte_slice 0 10 a) \<and> a ! 10 = 0xff \<and> a ! 11 = 0xff \<longleftrightarrow> take 12 a = v4InV6Prefix"
proof -
  have t: "take 12 a = take 10 a @ [a ! 10, a ! 11]"
    using assms by (simp add: take_Suc_conv_app_nth numeral_eq_Suc)
  have "isZeros (take 10 a) \<longleftrightarrow> take 10 a = replicate 10 0"
    using assms by (subst isZeros_replicate) simp
  then show ?thesis unfolding t by (simp add: v4InV6Prefix_def byte_slice_def)
qed

lemma net_To4_16: "length a = 16 \<Longrightarrow>
  net_To4 a = (if take 12 a = v4InV6Prefix then Some (drop 12 a) else None)"
  by (simp add: net_To4_def mapped_iff) (simp add: byte_slice_def)

lemma IP_Equal_To4:
  assumes "length a = 4 \<or> length a = 16"
  shows "IP_Equal a b \<longleftrightarrow> (case net_To4 a of Some a4 \<Rightarrow> net_To4 b = Some a4 | None \<Rightarrow> a = b)"
proof -
  have b: "net_To4 b = Some a4 \<longleftrightarrow> b = a4 \<and> length b = 4
      \<or> length b = 16 \<and> take 12 b = v4InV6Prefix \<and> drop 12 b = a4" for a4
  proof (cases "length b = 16")
    case True
    then show ?thesis by (simp add: net_To4_16)
  next
    case False
    then show ?thesis by (auto simp: net_To4_def)
  qed
  consider "length a = 4" | "length a = 16" "take 12 a = v4InV6Prefix"
    | "length a = 16" "take 12 a \<noteq> v4InV6Prefix" using assms by blast
  then show ?thesis
  proof cases
    case 1
    then have "net_To4 a = Some a" by (simp add: net_To4_def)
    with 1 show ?thesis by (auto simp: IP_Equal_def net_Equal_def b)
  next
    case 2
    then have "a = b \<longleftrightarrow> take 12 b = v4InV6Prefix \<and> drop 12 b = drop 12 a" if "length b = 16"
      by (metis append_take_drop_id)
    with 2 show ?thesis by (auto simp: IP_Equal_def net_Equal_def b net_To4_16)
  next
    case 3
    then show ?thesis by (auto simp: IP_Equal_def net_Equal_def net_To4_16)
  qed
qed

lemma map2_and_full: "length a = l \<Longrightarrow> map2 (AND) a (replicate l (0xff :: byte)) = a"
  by (induction a arbitrary: l) auto

lemma list_all_full_mask:
  "length x = l \<Longrightarrow> length nn = l \<Longrightarrow>
     list_all (\<lambda>i. nn ! i AND replicate l 0xff ! i = x ! i AND replicate l (0xff :: byte) ! i) [0..<l]
       \<longleftrightarrow> nn = x"
  using masked_eq_iff [of nn l "replicate l 0xff" x] by (simp add: map2_and_full)

lemma host_only_contains_iff:
  assumes "length a = 4 \<or> length a = 16"
  shows "Subnet_Contains (NewHostOnlySubnet a) b \<longleftrightarrow> IP_Equal a b"
proof -
  have s: "Subnet_IP (NewHostOnlySubnet a) = a"
    "Subnet_Mask (NewHostOnlySubnet a) = replicate (length a) 0xff"
    using assms by (simp_all add: NewHostOnlySubnet_full Subnet_parts)
  define nn where "nn = (case net_To4 a of Some a4 \<Rightarrow> a4 | None \<Rightarrow> a)"
  have nm: "networkNumberAndMask (Subnet_AsIPNet (NewHostOnlySubnet a))
      = (nn, replicate (length nn) 0xff)"
    using assms To4_length [of a] To4_None_length [of a]
    by (cases "net_To4 a") (auto simp: networkNumberAndMask_def Subnet_AsIPNet_def s Let_def nn_def)
  define x where "x = (case net_To4 b of Some b4 \<Rightarrow> b4 | None \<Rightarrow> b)"
  have "Subnet_Contains (NewHostOnlySubnet a) b \<longleftrightarrow> nn = x"
    using list_all_full_mask [of x "length nn" nn]
    by (cases "length x = length nn")
      (auto simp: Subnet_Contains_def net_Contains_def nm simp flip: x_def)
  also have "\<dots> \<longleftrightarrow> IP_Equal a b"
    unfolding IP_Equal_To4 [OF assms] nn_def x_def
    using assms To4_length [of a] To4_length [of b] To4_None_length [of a] To4_None_length [of b]
    by (cases "net_To4 a"; cases "net_To4 b") auto
  finally show ?thesis .
qed

text \<open>
  A host-only subnet of an IPv4 or IPv6 address contains exactly the addresses that are equal
  to it, where an IPv4 address and its IPv4-mapped IPv6 form count as equal.
\<close>

theorem host_only_contains:
  assumes "length a = 4 \<or> length a = 16"
  shows "Subnet_Contains (NewHostOnlySubnet a) b \<longleftrightarrow> IP_Equal a b"
  using assms by (rule host_only_contains_iff)

theorem host_only_contains_witness:
  "Subnet_Contains (NewHostOnlySubnet [192, 168, 0, 10]) (v4InV6Prefix @ [192, 168, 0, 10])
     \<and> \<not> Subnet_Contains (NewHostOnlySubnet [192, 168, 0, 10]) [192, 168, 0, 11]"
proof -
  have l: "length [192 :: byte, 168, 0, 10] = 4 \<or> length [192 :: byte, 168, 0, 10] = 16" by simp
  show ?thesis
    unfolding host_only_contains [OF l] by (simp add: IP_Equal_def net_Equal_def v4InV6Prefix_def)
qed

text \<open>
  Prefix inverts CIDRMask: the prefix length read off the mask of any number of ones within
  an IPv4 or IPv6 address width is that number.
\<close>

theorem prefix_of_CIDRMask:
  assumes "bits = 32 \<or> bits = 128" "0 \<le> ones" "ones \<le> bits"
  shows "int (Mask_Prefix (CIDRMask ones bits)) = ones"
  using assms by (auto simp: CIDRMask_def net_CIDRMask_def Mask_Prefix_cidr_bytes)

theorem prefix_of_CIDRMask_witness: "int (Mask_Prefix (CIDRMask 61 128)) = 61"
  by (rule prefix_of_CIDRMask) simp_all

text \<open>
  Prefix adds up the leading ones of every byte, so on a mask that is not contiguous it is not
  the number of leading one bits its comment promises.
\<close>

theorem prefix_noncontiguous_mask:
  "Mask_Prefix [0xff, 0, 0xff, 0] = 16 \<and> length (takeWhile id (addr_bits [0xff, 0, 0xff, 0])) = 8"
proof -
  have "Mask_Prefix [0xff, 0, 0xff, 0] = 16" by code_simp
  moreover have "length (takeWhile id (addr_bits [0xff, 0, 0xff, 0])) = 8"
    by (simp add: addr_bits_Cons byte_bits_def)
  ultimately show ?thesis by simp
qed

end
