(* ===== verification/Messages.thy ===== *)
theory Messages
  imports Tcpip Float32
begin

unbundle bit_operations_syntax

text \<open>
  \<^verbatim>\<open>pkg/proto/proto.go\<close>: the datagrams of the wire protocol. \<open>Msg_Type\<close> classifies a datagram by its
  first byte, \<open>Msg_Unmarshal\<close> decodes it, and the \<open>Marshal\<close> functions encode the message types.
  Out-of-band messages have a fixed binary header of 39 bytes; the remaining structured messages
  carry JSON after the type byte. \<open>encoding/json\<close> is not modelled: its coder and decoder for the two
  shapes that occur are the fields of \<open>json_codec\<close>, an argument of the functions that use them.

  The lemmas show that decoding inverts encoding, what encoding yields on addresses that are not 16
  bytes long, that re-encoding a decoded message changes at most the unused header byte, and how the
  first byte decides what a datagram is.
\<close>

section \<open>Messages\<close>

type_synonym RoutingConns = "(subnet, f32) gomap"
type_synonym RoutingNodes = "(ip, RoutingConns) gomap"
type_synonym RoutingPolicy = "(subnet, ip) gomap"

record RoutingUpdate =
  Origin :: ip
  NodeName :: string
  UpdateEpoch :: "64 word"
  UpdateSequence :: "64 word"
  Connections :: "RoutingConns option"   \<comment> \<open>\<open>None\<close> is the nil map\<close>
  Names :: "(string, ip) gomap"
  ConfigVersion :: time
  ConfigData :: bytes
  ConfigSignature :: bytes

record OOBMessage =
  Hops :: byte
  SourceAddr :: ip
  SourcePort :: "16 word"
  DestAddr :: ip
  DestPort :: "16 word"
  Data :: bytes

datatype any_msg =
    DataMsg bytes
  | InitMsg ip
  | RouteOOBMessage OOBMessage
  | OOBMsg OOBMessage
  | KeepaliveMsg
  | KeepaliveReplyMsg

definition ErrUnknownMessageType :: go_error where
  "ErrUnknownMessageType = Errorf ''unknown message type''"

section \<open>Message types\<close>

definition MsgTypeError :: int where "MsgTypeError = - 1"
definition MsgTypeData :: int where "MsgTypeData = 0"
definition MsgTypeInit :: int where "MsgTypeInit = 1"
definition MsgTypeRouteOOB :: int where "MsgTypeRouteOOB = 2"
definition MsgTypeOOB :: int where "MsgTypeOOB = 3"
definition MsgTypeKeepalive :: int where "MsgTypeKeepalive = 4"
definition MsgTypeKeepaliveReply :: int where "MsgTypeKeepaliveReply = 5"
definition MaxMsgType :: int where "MaxMsgType = 5"

lemmas MsgType_defs = MsgTypeError_def MsgTypeData_def MsgTypeInit_def MsgTypeRouteOOB_def
  MsgTypeOOB_def MsgTypeKeepalive_def MsgTypeKeepaliveReply_def MaxMsgType_def

definition Msg_Type :: "bytes \<Rightarrow> int" where
  "Msg_Type m =
     (case m of
        [] \<Rightarrow> MsgTypeError
      | b # _ \<Rightarrow>
          if drop_bit 4 b = 6 then MsgTypeData
          else if uint b \<le> MaxMsgType then uint b
          else MsgTypeError)"

section \<open>JSON messages\<close>

record json_codec =
  json_enc_init :: "ip \<Rightarrow> bytes result"
  json_dec_init :: "bytes \<Rightarrow> ip result"
  json_enc_empty :: "bytes result"
  json_dec_empty :: "bytes \<Rightarrow> unit result"

definition marshalMsg :: "bytes result \<Rightarrow> int \<Rightarrow> bytes result" where
  "marshalMsg enc msgType =
     (case enc of Inl err \<Rightarrow> Inl err | Inr d \<Rightarrow> Inr (word_of_int msgType # d))"

definition InitMsg_Marshal :: "json_codec \<Rightarrow> ip \<Rightarrow> bytes result" where
  "InitMsg_Marshal j a = marshalMsg (json_enc_init j a) MsgTypeInit"

definition KeepaliveMsg_Marshal :: "json_codec \<Rightarrow> bytes result" where
  "KeepaliveMsg_Marshal j = marshalMsg (json_enc_empty j) MsgTypeKeepalive"

definition KeepaliveReplyMsg_Marshal :: "json_codec \<Rightarrow> bytes result" where
  "KeepaliveReplyMsg_Marshal j = marshalMsg (json_enc_empty j) MsgTypeKeepaliveReply"

section \<open>Out-of-band messages\<close>

abbreviation oobHeaderHops :: nat where "oobHeaderHops \<equiv> 1"
abbreviation oobHeaderSourceAddr :: nat where "oobHeaderSourceAddr \<equiv> 2"
abbreviation oobHeaderSourcePort :: nat where "oobHeaderSourcePort \<equiv> 18"
abbreviation oobHeaderDestAddr :: nat where "oobHeaderDestAddr \<equiv> 20"
abbreviation oobHeaderDestPort :: nat where "oobHeaderDestPort \<equiv> 37"
abbreviation oobHeaderData :: nat where "oobHeaderData \<equiv> 39"

definition OOBMessage_Marshal :: "OOBMessage \<Rightarrow> bytes" where
  "OOBMessage_Marshal oob =
     (let b = replicate (oobHeaderData + length (Data oob)) 0;
          b = b[0 := word_of_int MsgTypeOOB];
          b = b[oobHeaderHops := Hops oob];
          b = copy_into oobHeaderSourceAddr (oobHeaderSourceAddr + 16) (SourceAddr oob) b;
          b = copy_into oobHeaderSourcePort (oobHeaderSourcePort + 2) (uint16_bytes (SourcePort oob)) b;
          b = copy_into oobHeaderDestAddr (oobHeaderDestAddr + 16) (DestAddr oob) b;
          b = copy_into oobHeaderDestPort (oobHeaderDestPort + 2) (uint16_bytes (DestPort oob)) b
      in copy_into oobHeaderData (length b) (Data oob) b)"

definition oob_fields :: "bytes \<Rightarrow> OOBMessage" where
  "oob_fields m =
     \<lparr>Hops = m ! oobHeaderHops,
      SourceAddr = byte_slice oobHeaderSourceAddr (oobHeaderSourceAddr + 16) m,
      SourcePort = bytes_uint16 (m ! oobHeaderSourcePort) (m ! (oobHeaderSourcePort + 1)),
      DestAddr = byte_slice oobHeaderDestAddr (oobHeaderDestAddr + 16) m,
      DestPort = bytes_uint16 (m ! oobHeaderDestPort) (m ! (oobHeaderDestPort + 1)),
      Data = drop oobHeaderData m\<rparr>"

definition unmarshalOOB :: "bytes \<Rightarrow> OOBMessage result" where
  "unmarshalOOB m =
     (if length m < oobHeaderData then Inl (Errorf ''message too short'')
      else if m ! 0 \<noteq> word_of_int MsgTypeOOB then Inl (Errorf ''message is not an OOBMessage'')
      else Inr (oob_fields m))"

definition RouteOOBMessage_Marshal :: "OOBMessage \<Rightarrow> bytes" where
  "RouteOOBMessage_Marshal rm = (OOBMessage_Marshal rm)[0 := word_of_int MsgTypeRouteOOB]"

definition unmarshalRouteOOB :: "bytes \<Rightarrow> OOBMessage result" where
  "unmarshalRouteOOB m =
     (if length m < oobHeaderData then Inl (Errorf ''message too short'')
      else if m ! 0 \<noteq> word_of_int MsgTypeRouteOOB then Inl (Errorf ''message is not a RouteOOBMessage'')
      else Inr (oob_fields m))"

section \<open>Decoding a datagram\<close>

definition Msg_Unmarshal :: "json_codec \<Rightarrow> bytes \<Rightarrow> any_msg result" where
  "Msg_Unmarshal j m =
     (let t = Msg_Type m in
      if t = MsgTypeData then Inr (DataMsg m)
      else if t = MsgTypeInit then map_sum id InitMsg (json_dec_init j (tl m))
      else if t = MsgTypeRouteOOB then map_sum id RouteOOBMessage (unmarshalRouteOOB m)
      else if t = MsgTypeOOB then map_sum id OOBMsg (unmarshalOOB m)
      else if t = MsgTypeKeepalive then map_sum id (\<lambda>_. KeepaliveMsg) (json_dec_empty j (tl m))
      else if t = MsgTypeKeepaliveReply then map_sum id (\<lambda>_. KeepaliveReplyMsg) (json_dec_empty j (tl m))
      else Inl ErrUnknownMessageType)"

section \<open>The layout of an out-of-band message\<close>

text \<open>An address copied into a zeroed 16-byte field is cut or padded to 16 bytes.\<close>

definition pad16 :: "ip \<Rightarrow> ip" where
  "pad16 a = take 16 a @ replicate (16 - length a) 0"

lemma length_pad16 [simp]: "length (pad16 a) = 16"
  by (simp add: pad16_def)

lemma pad16_id [simp]: "length a = 16 \<Longrightarrow> pad16 a = a"
  by (simp add: pad16_def)

lemma copy_into_append:
  "length pre = i \<Longrightarrow> length mid = n \<Longrightarrow> length src \<le> n \<Longrightarrow>
     copy_into i (i + n) src (pre @ mid @ post) = pre @ src @ drop (length src) mid @ post"
  by (simp add: copy_into_def Let_def)

lemma copy_into_pad16:
  "length pre = i \<Longrightarrow> copy_into i (i + 16) a (pre @ replicate 16 0 @ post) = pre @ pad16 a @ post"
  by (auto simp: copy_into_def Let_def pad16_def min_def)

lemma marshal_layout:
  "OOBMessage_Marshal m =
     [3, Hops m] @ pad16 (SourceAddr m) @ uint16_bytes (SourcePort m) @ pad16 (DestAddr m)
       @ [0] @ uint16_bytes (DestPort m) @ Data m"
proof -
  let ?n = "length (Data m)"
  have z: "replicate (39 + ?n) (0::byte) = [0, 0] @ replicate 16 0 @ replicate 2 0 @ replicate 16 0
      @ [0] @ replicate 2 0 @ replicate ?n 0"
    by (simp add: replicate_add [symmetric] numeral_eq_Suc)
  note c1 = copy_into_pad16 [of "[3, Hops m]" 2]
  note c2 = copy_into_append [of "[3, Hops m] @ pad16 (SourceAddr m)" 18 "replicate 2 0" 2]
  note c3 = copy_into_pad16 [of "[3, Hops m] @ pad16 (SourceAddr m) @ uint16_bytes (SourcePort m)" 20]
  note c4 = copy_into_append [of "[3, Hops m] @ pad16 (SourceAddr m) @ uint16_bytes (SourcePort m)
      @ pad16 (DestAddr m) @ [0]" 37 "replicate 2 0" 2]
  note c5 = copy_into_append [of "[3, Hops m] @ pad16 (SourceAddr m) @ uint16_bytes (SourcePort m)
      @ pad16 (DestAddr m) @ [0] @ uint16_bytes (DestPort m)" 39 "replicate ?n 0" ?n "Data m" "[]"]
  show ?thesis
    unfolding OOBMessage_Marshal_def Let_def z
    using c1 [of "SourceAddr m"] c2 [of "uint16_bytes (SourcePort m)"] c3 [of "DestAddr m"]
      c4 [of "uint16_bytes (DestPort m)"] c5
    by (simp add: MsgTypeOOB_def)
qed

lemma length_marshal [simp]: "length (OOBMessage_Marshal m) = 39 + length (Data m)"
  by (simp add: marshal_layout)

lemma uint16_bytes_nth [simp]:
  "uint16_bytes w ! 0 = ucast (drop_bit 8 w)" "uint16_bytes w ! Suc 0 = ucast w"
  by (simp_all add: uint16_bytes_def)

lemma oob_fields_layout:
  assumes "length s = 16" "length d = 16"
  shows "oob_fields ([t, h] @ s @ uint16_bytes sp @ d @ [z] @ uint16_bytes dp @ x)
     = \<lparr>Hops = h, SourceAddr = s, SourcePort = sp, DestAddr = d, DestPort = dp, Data = x\<rparr>"
  using assms
  by (simp add: oob_fields_def byte_slice_def nth_append nth_Cons')

lemma oob_fields_marshal:
  "oob_fields ((OOBMessage_Marshal m)[0 := t])
     = m\<lparr>SourceAddr := pad16 (SourceAddr m), DestAddr := pad16 (DestAddr m)\<rparr>"
  using oob_fields_layout [of "pad16 (SourceAddr m)" "pad16 (DestAddr m)" t "Hops m" "SourcePort m" 0
      "DestPort m" "Data m"]
  by (simp add: marshal_layout)

lemma marshal_hd [simp]: "OOBMessage_Marshal m ! 0 = 3"
  by (simp add: marshal_layout)

lemma marshal_upd0: "(OOBMessage_Marshal m)[0 := 3] = OOBMessage_Marshal m"
  using list_update_id [of "OOBMessage_Marshal m" 0] by simp

lemma Msg_Type_OOB: "Msg_Type (OOBMessage_Marshal m) = MsgTypeOOB"
  by (simp add: marshal_layout Msg_Type_def MsgType_defs)

lemma Msg_Type_RouteOOB: "Msg_Type (RouteOOBMessage_Marshal m) = MsgTypeRouteOOB"
  by (simp add: RouteOOBMessage_Marshal_def marshal_layout Msg_Type_def MsgType_defs)

lemma unmarshalOOB_marshal:
  "unmarshalOOB (OOBMessage_Marshal m)
     = Inr (m\<lparr>SourceAddr := pad16 (SourceAddr m), DestAddr := pad16 (DestAddr m)\<rparr>)"
  using oob_fields_marshal [of m 3] by (simp add: unmarshalOOB_def marshal_upd0 MsgTypeOOB_def)

lemma unmarshalRouteOOB_marshal:
  "unmarshalRouteOOB (RouteOOBMessage_Marshal m)
     = Inr (m\<lparr>SourceAddr := pad16 (SourceAddr m), DestAddr := pad16 (DestAddr m)\<rparr>)"
  using oob_fields_marshal [of m 2]
  by (simp add: unmarshalRouteOOB_def RouteOOBMessage_Marshal_def MsgTypeRouteOOB_def)

text \<open>
  C34. Decoding inverts encoding for out-of-band messages, whether they travel as OOB or as
  RouteOOB datagrams: the datagram decodes to the same message type with the same fields, each
  address cut or zero-padded to the 16 bytes of its header field.
\<close>

theorem oob_roundtrip:
  "Msg_Unmarshal j (OOBMessage_Marshal m)
     = Inr (OOBMsg (m\<lparr>SourceAddr := pad16 (SourceAddr m), DestAddr := pad16 (DestAddr m)\<rparr>))
   \<and> Msg_Unmarshal j (RouteOOBMessage_Marshal m)
     = Inr (RouteOOBMessage (m\<lparr>SourceAddr := pad16 (SourceAddr m), DestAddr := pad16 (DestAddr m)\<rparr>))"
  by (simp add: Msg_Unmarshal_def Let_def Msg_Type_OOB Msg_Type_RouteOOB unmarshalOOB_marshal
      unmarshalRouteOOB_marshal MsgType_defs)

text \<open>Splitting a datagram of at least 39 bytes along the header.\<close>

lemma split_at: "i + n \<le> length m \<Longrightarrow> drop i m = byte_slice i (i + n) m @ drop (i + n) m"
  by (metis add.commute add_diff_cancel_left' append_take_drop_id byte_slice_def drop_drop)

lemma uint16_bytes_of: "uint16_bytes (bytes_uint16 a b) = [a, b]"
proof -
  have nb: "\<not> bit b n" if "8 \<le> n" for n
    using bit_imp_le_length [of b n] that by auto
  have "bytes_uint16 a b = push_bit 8 (ucast a) OR ucast b"
    unfolding bytes_uint16_def
    by (rule disjunctive_add) (auto simp: bit_simps nb)
  then have "ucast (drop_bit 8 (bytes_uint16 a b)) = a" "ucast (bytes_uint16 a b) = b"
    by (auto intro!: bit_word_eqI simp: bit_simps nb)
  then show ?thesis by (simp add: uint16_bytes_def)
qed

lemma datagram_layout:
  assumes "39 \<le> length m"
  shows "m = [m ! 0, Hops (oob_fields m)] @ SourceAddr (oob_fields m)
     @ uint16_bytes (SourcePort (oob_fields m)) @ DestAddr (oob_fields m) @ [m ! 36]
     @ uint16_bytes (DestPort (oob_fields m)) @ Data (oob_fields m)"
proof -
  have step: "drop i m = m ! i # drop (i + 1) m" if "i < 39" for i
    using that assms by (simp add: Cons_nth_drop_Suc)
  have "m = m ! 0 # m ! 1 # drop 2 m"
    using step [of 0] step [of 1] by (simp add: numeral_2_eq_2)
  also have "drop 2 m = byte_slice 2 18 m @ drop 18 m"
    using split_at [of 2 16 m] assms by simp
  also have "drop 18 m = m ! 18 # m ! 19 # drop 20 m"
    using step [of 18] step [of 19] by simp
  also have "drop 20 m = byte_slice 20 36 m @ drop 36 m"
    using split_at [of 20 16 m] assms by simp
  also have "drop 36 m = m ! 36 # m ! 37 # m ! 38 # drop 39 m"
    using step [of 36] step [of 37] step [of 38] by simp
  finally show ?thesis by (simp add: oob_fields_def uint16_bytes_of)
qed

text \<open>
  Re-encoding a decoded out-of-band message gives the datagram back, with the one header byte
  that no field uses (offset 36) set to zero.
\<close>

theorem oob_reencode:
  assumes "unmarshalOOB m = Inr oob"
  shows "OOBMessage_Marshal oob = m[36 := 0]"
proof -
  from assms have len: "39 \<le> length m" and m0: "m ! 0 = 3" and oob: "oob = oob_fields m"
    by (simp_all add: unmarshalOOB_def MsgTypeOOB_def split: if_splits)
  have l: "length (SourceAddr oob) = 16" "length (DestAddr oob) = 16"
    using len by (simp_all add: oob oob_fields_def)
  have "m[36 := 0] = ([3, Hops oob] @ SourceAddr oob @ uint16_bytes (SourcePort oob) @ DestAddr oob
      @ [m ! 36] @ uint16_bytes (DestPort oob) @ Data oob)[36 := 0]"
    using datagram_layout [OF len] by (simp only: m0 oob)
  also have "\<dots> = OOBMessage_Marshal oob"
    using l by (simp add: marshal_layout list_update_append)
  finally show ?thesis by simp
qed

theorem oob_reencode_witness:
  "OOBMessage_Marshal (oob_fields (3 # replicate 38 7)) = (3 # replicate 38 7)[36 := 0]"
  by (rule oob_reencode) (simp add: unmarshalOOB_def MsgTypeOOB_def)

text \<open>
  The first byte of a datagram decides what it is: data for the IPv6 version nibble and also
  for a zero byte, one structured message type each for 1 to 5, and an unknown message otherwise;
  an empty datagram is an unknown message.
\<close>

theorem unmarshal_dispatch:
  "Msg_Unmarshal j [] = Inl ErrUnknownMessageType
   \<and> Msg_Unmarshal j (b # m) =
       (if drop_bit 4 b = 6 \<or> b = 0 then Inr (DataMsg (b # m))
        else if b = 1 then map_sum id InitMsg (json_dec_init j m)
        else if b = 2 then map_sum id RouteOOBMessage (unmarshalRouteOOB (b # m))
        else if b = 3 then map_sum id OOBMsg (unmarshalOOB (b # m))
        else if b = 4 then map_sum id (\<lambda>_. KeepaliveMsg) (json_dec_empty j m)
        else if b = 5 then map_sum id (\<lambda>_. KeepaliveReplyMsg) (json_dec_empty j m)
        else Inl ErrUnknownMessageType)"
proof -
  have ub: "uint b = k \<longleftrightarrow> b = word_of_int k" if "0 \<le> k" "k < 256" for k
    using that by (auto simp: uint_word_of_int)
  have "uint b \<le> 5 \<longleftrightarrow> uint b \<in> {0, 1, 2, 3, 4, 5}" 
    using uint_ge_0 [of b] by (simp; presburger)
  then show ?thesis
    by (auto simp: Msg_Unmarshal_def Msg_Type_def MsgType_defs ub)
qed

end
