(* ===== verification/TextFormats.thy ===== *)
theory TextFormats
  imports Messages
begin

unbundle bit_operations_syntax

text \<open>
  Text forms: what the program uses of Go's \<open>net\<close> and \<open>strconv\<close> to read numbers, addresses, subnets
  and host-port pairs, and the functions of \<^verbatim>\<open>pkg/proto/tcpip.go\<close> built on it: \<open>ParseIP\<close>, \<open>ParseCIDR\<close>,
  \<open>RandomSubnet\<close> and the JSON and YAML methods of \<open>IP\<close> and \<open>Subnet\<close>. The string coder and decoder of
  \<open>encoding/json\<close> and the YAML decoder are arguments.

  The lemmas show that reading back the text of an address or a subnet yields it, that a host-port
  pair survives joining and splitting, and which strings are read as a port number.
\<close>

section \<open>Numbers\<close>

definition dec_val :: "char \<Rightarrow> nat option" where
  "dec_val c = (let n = of_char c in if 48 \<le> n \<and> n \<le> 57 then Some (n - 48) else None)"

definition hex_val :: "char \<Rightarrow> nat option" where
  "hex_val c =
     (let n = of_char c in
      if 48 \<le> n \<and> n \<le> 57 then Some (n - 48)
      else if 97 \<le> n \<and> n \<le> 102 then Some (n - 87)
      else if 65 \<le> n \<and> n \<le> 70 then Some (n - 55)
      else None)"

text \<open>\<open>strconv.Itoa\<close> of a natural number.\<close>

fun itoa :: "nat \<Rightarrow> string" where
  "itoa n = (if n < 10 then [hex_digit n] else itoa (n div 10) @ [hex_digit (n mod 10)])"

declare itoa.simps [simp del]

definition ErrSyntax :: go_error where "ErrSyntax = Errorf ''invalid syntax''"
definition ErrRange :: go_error where "ErrRange = Errorf ''value out of range''"

text \<open>\<open>strconv.ParseUint(s, 10, 16)\<close>: the loop stops at the first character that is not a digit or does not fit.\<close>

fun parse_uint :: "string \<Rightarrow> nat \<Rightarrow> nat result" where
  "parse_uint [] acc = Inr acc"
| "parse_uint (c # cs) acc =
     (case dec_val c of
        None \<Rightarrow> Inl ErrSyntax
      | Some d \<Rightarrow> if acc * 10 + d > 65535 then Inl ErrRange else parse_uint cs (acc * 10 + d))"

definition ParseUint16 :: "string \<Rightarrow> nat result" where
  "ParseUint16 s =
     (if s = [] then Inl (Wrapf (''strconv.ParseUint: parsing '' @ s) ErrSyntax)
      else case parse_uint s 0 of
             Inl e \<Rightarrow> Inl (Wrapf (''strconv.ParseUint: parsing '' @ s) e)
           | Inr n \<Rightarrow> Inr n)"

definition ParseBool :: "string \<Rightarrow> bool result" where
  "ParseBool s =
     (if s \<in> {''1'', ''t'', ''T'', ''true'', ''TRUE'', ''True''} then Inr True
      else if s \<in> {''0'', ''f'', ''F'', ''false'', ''FALSE'', ''False''} then Inr False
      else Inl (Wrapf (''strconv.ParseBool: parsing '' @ s) ErrSyntax))"

section \<open>Host and port\<close>

definition first_index :: "char \<Rightarrow> string \<Rightarrow> nat option" where
  "first_index c s = (let i = length (takeWhile (\<lambda>x. x \<noteq> c) s) in if i < length s then Some i else None)"

definition last_index :: "char \<Rightarrow> string \<Rightarrow> nat option" where
  "last_index c s = map_option (\<lambda>i. length s - 1 - i) (first_index c (rev s))"

definition AddrError :: "string \<Rightarrow> string \<Rightarrow> go_error" where
  "AddrError addr why = Errorf (''address '' @ addr @ '': '' @ why)"

definition brackets_ok :: "string \<Rightarrow> string \<Rightarrow> string \<Rightarrow> (string \<times> string) \<Rightarrow> (string \<times> string) result" where
  "brackets_ok hostport j k hp =
     (if CHR ''['' \<in> set j then Inl (AddrError hostport ''unexpected '[' in address'')
      else if CHR '']'' \<in> set k then Inl (AddrError hostport ''unexpected ']' in address'')
      else Inr hp)"

definition SplitHostPort :: "string \<Rightarrow> (string \<times> string) result" where
  "SplitHostPort hostport =
     (case last_index CHR '':'' hostport of
        None \<Rightarrow> Inl (AddrError hostport ''missing port in address'')
      | Some i \<Rightarrow>
          let port = drop (i + 1) hostport in
          if hostport ! 0 = CHR ''['' then
            (case first_index CHR '']'' hostport of
               None \<Rightarrow> Inl (AddrError hostport ''missing ']' in address'')
             | Some e \<Rightarrow>
                 if e + 1 = length hostport then Inl (AddrError hostport ''missing port in address'')
                 else if e + 1 = i
                 then brackets_ok hostport (drop 1 hostport) (drop (e + 1) hostport) (take (e - 1) (drop 1 hostport), port)
                 else if hostport ! (e + 1) = CHR '':'' then Inl (AddrError hostport ''too many colons in address'')
                 else Inl (AddrError hostport ''missing port in address''))
          else if CHR '':'' \<in> set (take i hostport) then Inl (AddrError hostport ''too many colons in address'')
          else brackets_ok hostport hostport hostport (take i hostport, port))"

definition JoinHostPort :: "string \<Rightarrow> string \<Rightarrow> string" where
  "JoinHostPort host port =
     (if CHR '':'' \<in> set host then ''['' @ host @ '']:'' @ port else host @ '':'' @ port)"

section \<open>Addresses\<close>

fun parseIPv4Fields :: "string \<Rightarrow> nat \<Rightarrow> nat \<Rightarrow> bytes \<Rightarrow> bytes option" where
  "parseIPv4Fields [] val digLen flds =
     (if length flds < 3 then None else Some (flds @ [of_nat val]))"
| "parseIPv4Fields (c # cs) val digLen flds =
     (case dec_val c of
        Some d \<Rightarrow>
          if digLen = 1 \<and> val = 0 then None
          else if val * 10 + d > 255 then None
          else parseIPv4Fields cs (val * 10 + d) (digLen + 1) flds
      | None \<Rightarrow>
          if c = CHR ''.'' then
            (if digLen = 0 \<or> cs = [] then None
             else if length flds = 3 then None
             else parseIPv4Fields cs 0 0 (flds @ [of_nat val]))
          else None)"

fun hex_group :: "string \<Rightarrow> nat \<Rightarrow> nat \<Rightarrow> (nat \<times> nat \<times> string) option" where
  "hex_group [] off acc = Some (off, acc, [])"
| "hex_group (c # cs) off acc =
     (case hex_val c of
        None \<Rightarrow> Some (off, acc, c # cs)
      | Some d \<Rightarrow> if off > 3 then None else hex_group cs (Suc off) (acc * 16 + d))"

definition group_bytes :: "nat \<Rightarrow> bytes" where
  "group_bytes acc = [of_nat (acc div 256), of_nat acc]"

text \<open>
  The loop of \<open>netip.parseIPv6\<close>: \<open>ip\<close> are the bytes so far, \<open>ell\<close> the position of the ellipsis. The result is
  the rest of the text, the bytes and the position.
\<close>

function v6_loop :: "string \<Rightarrow> bytes \<Rightarrow> nat option \<Rightarrow> (string \<times> bytes \<times> nat option) option" where
  "v6_loop s ip ell =
     (if length ip \<ge> 16 then Some (s, ip, ell)
      else case hex_group s 0 0 of
        None \<Rightarrow> None
      | Some (off, acc, rest) \<Rightarrow>
          if off = 0 then None
          else if rest \<noteq> [] \<and> hd rest = CHR ''.'' then
            (if ell = None \<and> length ip \<noteq> 12 then None
             else if length ip + 4 > 16 then None
             else map_option (\<lambda>f. ([], ip @ f, ell)) (parseIPv4Fields s 0 0 []))
          else
            let ip = ip @ group_bytes acc in
            (case rest of
               [] \<Rightarrow> Some ([], ip, ell)
             | c # r \<Rightarrow>
                 if c \<noteq> CHR '':'' then None
                 else (case r of
                         [] \<Rightarrow> None
                       | c2 # r2 \<Rightarrow>
                           if c2 = CHR '':'' then
                             (if ell \<noteq> None then None
                              else if r2 = [] then Some ([], ip, Some (length ip))
                              else v6_loop r2 ip (Some (length ip)))
                           else v6_loop r ip ell)))"
  by pat_completeness auto
termination by (relation "measure (\<lambda>(s, ip, ell). 16 - length ip)") (auto simp: group_bytes_def)

declare v6_loop.simps [simp del]

definition v6_finish :: "string \<times> bytes \<times> nat option \<Rightarrow> bytes option" where
  "v6_finish = (\<lambda>(s, ip, ell).
     if s \<noteq> [] then None
     else if length ip < 16 then
       (case ell of None \<Rightarrow> None | Some e \<Rightarrow> Some (take e ip @ replicate (16 - length ip) 0 @ drop e ip))
     else if ell \<noteq> None then None
     else Some ip)"

definition parseIPv6 :: "string \<Rightarrow> bytes option" where
  "parseIPv6 s =
     (if take 2 s = ''::'' then
        (if drop 2 s = [] then Some (replicate 16 0)
         else Option.bind (v6_loop (drop 2 s) [] (Some 0)) v6_finish)
      else Option.bind (v6_loop s [] None) v6_finish)"

definition is_sep :: "char \<Rightarrow> bool" where
  "is_sep c \<longleftrightarrow> c = CHR ''.'' \<or> c = CHR '':''"

text \<open>\<open>netip.ParseAddr\<close> for an address without a zone: 4 or 16 bytes.\<close>

definition netip_ParseAddr :: "string \<Rightarrow> bytes option" where
  "netip_ParseAddr s =
     (case find is_sep s of
        None \<Rightarrow> None
      | Some c \<Rightarrow> if c = CHR ''.'' then parseIPv4Fields s 0 0 [] else parseIPv6 s)"

definition addr_As16 :: "bytes \<Rightarrow> bytes" where
  "addr_As16 a = (if length a = 4 then v4InV6Prefix @ a else a)"

definition net_ParseIP :: "string \<Rightarrow> ip option" where
  "net_ParseIP s = map_option addr_As16 (netip_ParseAddr s)"

definition ParseIP :: "string \<Rightarrow> ip" where
  "ParseIP s =
     (let ip = (case net_ParseIP s of None \<Rightarrow> [] | Some a \<Rightarrow> a)
      in if length ip = 16 \<and> isZeros (byte_slice 0 10 ip) \<and> ip ! 10 = 0xff \<and> ip ! 11 = 0xff
         then byte_slice 12 16 ip else ip)"

section \<open>Subnets\<close>

text \<open>\<open>net.dtoi\<close>: a decimal number below \<open>0xFFFFFF\<close> at the start of the text, with the rest.\<close>

fun dtoi :: "string \<Rightarrow> nat \<Rightarrow> (nat \<times> string) option" where
  "dtoi [] n = Some (n, [])"
| "dtoi (c # cs) n =
     (case dec_val c of
        None \<Rightarrow> Some (n, c # cs)
      | Some d \<Rightarrow> if n * 10 + d \<ge> 0xFFFFFF then None else dtoi cs (n * 10 + d))"

definition net_IP_Mask :: "ip \<Rightarrow> mask \<Rightarrow> ip" where
  "net_IP_Mask a m =
     (let m = (if length m = 16 \<and> length a = 4 \<and> list_all (\<lambda>b. b = 0xff) (take 12 m) then drop 12 m else m);
          a = (if length m = 4 \<and> length a = 16 \<and> take 12 a = v4InV6Prefix then drop 12 a else a)
      in if length a \<noteq> length m then [] else map2 (AND) a m)"

definition CIDRParseError :: "string \<Rightarrow> go_error" where
  "CIDRParseError s = Errorf (''invalid CIDR address: '' @ s)"

definition net_ParseCIDR :: "string \<Rightarrow> (ip \<times> ipnet) result" where
  "net_ParseCIDR s =
     (case first_index CHR ''/'' s of
        None \<Rightarrow> Inl (CIDRParseError s)
      | Some i \<Rightarrow>
          let msk = drop (i + 1) s in
          case netip_ParseAddr (take i s) of
            None \<Rightarrow> Inl (CIDRParseError s)
          | Some a \<Rightarrow>
              (case dtoi msk 0 of
                 None \<Rightarrow> Inl (CIDRParseError s)
               | Some (n, rest) \<Rightarrow>
                   if msk = [] \<or> rest \<noteq> [] \<or> n > 8 * length a then Inl (CIDRParseError s)
                   else let m = net_CIDRMask (int n) (int (8 * length a))
                        in Inr (addr_As16 a, \<lparr>ipn_IP = net_IP_Mask (addr_As16 a) m, ipn_Mask = m\<rparr>)))"

definition ParseCIDR :: "string \<Rightarrow> (ip \<times> subnet) result" where
  "ParseCIDR s =
     (case net_ParseCIDR s of
        Inl err \<Rightarrow> Inl err
      | Inr (netIP, netSubnet) \<Rightarrow> Inr (netIP, ipn_IP netSubnet @ ipn_Mask netSubnet))"

section \<open>JSON and YAML\<close>

text \<open>The coder and decoder of \<open>encoding/json\<close> for strings.\<close>

record string_codec =
  enc_str :: "string \<Rightarrow> bytes result"
  dec_str :: "bytes \<Rightarrow> string result"

definition IP_MarshalJSON :: "string_codec \<Rightarrow> ip \<Rightarrow> bytes result" where
  "IP_MarshalJSON j a = enc_str j (IP_String a)"

definition IP_UnmarshalJSON :: "string_codec \<Rightarrow> bytes \<Rightarrow> ip result" where
  "IP_UnmarshalJSON j data =
     (case dec_str j data of
        Inl err \<Rightarrow> Inl err
      | Inr s \<Rightarrow> let ip = ParseIP s in if ip = [] then Inl (Errorf ''invalid IP address'') else Inr ip)"

text \<open>The YAML value is \<open>None\<close> for nil; \<open>str\<close> is what the decoder returned for a string.\<close>

definition IP_MarshalYAML :: "ip \<Rightarrow> string option" where
  "IP_MarshalYAML a = (if a = [] then None else Some (IP_String a))"

definition IP_UnmarshalYAML :: "string result \<Rightarrow> ip result" where
  "IP_UnmarshalYAML str =
     (case str of
        Inl err \<Rightarrow> Inl err
      | Inr s \<Rightarrow> let ip = ParseIP s in
          if ip = [] then Inl (Errorf ''unmarshal YAML error: invalid IP address'') else Inr ip)"

definition Subnet_MarshalJSON :: "string_codec \<Rightarrow> subnet \<Rightarrow> bytes result" where
  "Subnet_MarshalJSON j s = enc_str j (Subnet_String s)"

definition Subnet_UnmarshalJSON :: "string_codec \<Rightarrow> bytes \<Rightarrow> subnet result" where
  "Subnet_UnmarshalJSON j data =
     (case dec_str j data of
        Inl err \<Rightarrow> Inl err
      | Inr str \<Rightarrow>
          (case ParseCIDR str of
             Inl err \<Rightarrow> Inl (Errorf ''unmarshal JSON error: invalid subnet'')
           | Inr (_, subnet) \<Rightarrow> Inr subnet))"

definition Subnet_MarshalYAML :: "subnet \<Rightarrow> string option" where
  "Subnet_MarshalYAML s = (if s = [] then None else Some (Subnet_String s))"

definition Subnet_UnmarshalYAML :: "string result \<Rightarrow> subnet result" where
  "Subnet_UnmarshalYAML str =
     (case str of
        Inl err \<Rightarrow> Inl err
      | Inr s \<Rightarrow>
          (case ParseCIDR s of
             Inl err \<Rightarrow> Inl (Errorf ''unmarshal YAML error: invalid subnet'')
           | Inr (_, subnet) \<Rightarrow> Inr subnet))"

section \<open>Random subnets\<close>

text \<open>128-bit numbers and their big-endian bytes. The random bytes are read as a little-endian number.\<close>

definition be_word :: "bytes \<Rightarrow> 128 word" where
  "be_word b = foldl (\<lambda>w x. push_bit 8 w OR ucast x) 0 b"

definition word_be :: "128 word \<Rightarrow> bytes" where
  "word_be w = map (\<lambda>i. ucast (drop_bit (8 * (15 - i)) w)) [0..<16]"

text \<open>\<open>RandomSubnet\<close>, with a panic for an address of less than 16 bytes; a shift by \<open>128 - prefixBits\<close> with
  \<open>prefixBits\<close> above 128 wraps around to a shift by a huge number, which gives 0.\<close>

definition RandomSubnet :: "bytes \<Rightarrow> ip \<Rightarrow> nat \<Rightarrow> nat \<Rightarrow> subnet result" where
  "RandomSubnet randb ip keepBits prefixBits =
     (if length ip < 16 then Inl (Errorf ''index out of range'')
      else
        let kv = be_word (take 16 ip);
            km = drop_bit keepBits (- 1);
            kv = kv AND (km XOR (- 1));
            rv = be_word (rev randb);
            rm = (if prefixBits \<le> 128 then push_bit (128 - prefixBits) (- 1) else 0);
            rv = (rv AND rm) AND km;
            ipv = kv + rv
        in Inr (NewSubnet (word_be ipv) (CIDRMask (int prefixBits) 128)))"

section \<open>Digits\<close>

lemma hex_digit_val: "d < 16 \<Longrightarrow> hex_val (hex_digit d) = Some d"
proof -
  have "list_all (\<lambda>d. hex_val (hex_digit d) = Some d) [0..<16]"
    by (simp add: upt_rec hex_val_def hex_digit_def Let_def)
  then show "d < 16 \<Longrightarrow> ?thesis" by (simp add: list_all_iff)
qed

lemma dec_digit_val: "d < 10 \<Longrightarrow> dec_val (hex_digit d) = Some d"
proof -
  have "list_all (\<lambda>d. dec_val (hex_digit d) = Some d) [0..<10]" by code_simp
  then show "d < 10 \<Longrightarrow> ?thesis" by (simp add: list_all_iff)
qed

lemma hex_digit_neq: "d < 16 \<Longrightarrow> hex_digit d \<noteq> CHR '':'' \<and> hex_digit d \<noteq> CHR ''.'' \<and> hex_digit d \<noteq> CHR ''/''"
proof -
  have "list_all (\<lambda>d. hex_digit d \<noteq> CHR '':'' \<and> hex_digit d \<noteq> CHR ''.'' \<and> hex_digit d \<noteq> CHR ''/'') [0..<16]" by code_simp
  then show "d < 16 \<Longrightarrow> ?thesis" by (simp add: list_all_iff)
qed

lemma sep_vals [simp]: "hex_val CHR '':'' = None" "hex_val CHR ''.'' = None" "dec_val CHR ''.'' = None"
  by code_simp+

lemma hex_group_stop: "rest = [] \<or> hex_val (hd rest) = None \<Longrightarrow> hex_group rest k acc = Some (k, acc, rest)"
  by (cases rest) auto

lemma hex_group_step: "d < 16 \<Longrightarrow> off \<le> 3 \<Longrightarrow>
    hex_group (hex_digit d # cs) off acc = hex_group cs (Suc off) (acc * 16 + d)"
  by (simp add: hex_digit_val)

lemma nibbles:
  fixes n :: nat
  shows "n div 4096 * 16 + n div 256 mod 16 = n div 256" "n div 256 * 16 + n div 16 mod 16 = n div 16"
    "n div 16 * 16 + n mod 16 = n"
  using div_mult2_eq [of n 256 16] div_mult2_eq [of n 16 16] by (simp_all flip: div_mult_mod_eq)

lemma hex_group_hex16:
  assumes "n < 65536" "rest = [] \<or> hex_val (hd rest) = None"
  shows "hex_group (hex16 n @ rest) 0 0 = Some (length (hex16 n), n, rest)"
proof -
  note stop = hex_group_stop [OF assms(2)]
  consider "n \<ge> 4096" | "n < 4096" "n \<ge> 256" | "n < 256" "n \<ge> 16" | "n < 16" by linarith
  then show ?thesis
  proof cases
    case 1
    have "n div 4096 < 16" using assms(1) by (simp add: div_less_iff_less_mult)
    then show ?thesis using 1 by (simp add: hex16_def hex_group_step stop nibbles del: hex_group.simps)
  next
    case 2
    then have "n div 256 mod 16 = n div 256" "n div 256 < 16" by (simp_all add: div_less_iff_less_mult)
    then show ?thesis using 2 nibbles(2,3) [of n] by (simp add: hex16_def hex_group_step stop del: hex_group.simps)
  next
    case 3
    then have "n div 16 mod 16 = n div 16" "n div 16 < 16" by (simp_all add: div_less_iff_less_mult)
    then show ?thesis using 3 nibbles(3) [of n] by (simp add: hex16_def hex_group_step stop del: hex_group.simps)
  next
    case 4
    then show ?thesis by (simp add: hex16_def hex_group_step stop del: hex_group.simps)
  qed
qed

lemma hex16_chars: "n < 65536 \<Longrightarrow> \<exists>ds. hex16 n = map hex_digit ds \<and> ds \<noteq> [] \<and> list_all (\<lambda>d. d < 16) ds"
  by (rule exI [of _ "(if n \<ge> 4096 then [n div 4096] else []) @ (if n \<ge> 256 then [n div 256 mod 16] else [])
        @ (if n \<ge> 16 then [n div 16 mod 16] else []) @ [n mod 16]"]) (simp add: hex16_def div_less_iff_less_mult)

lemma hex16_Cons: "n < 65536 \<Longrightarrow> \<exists>c cs. hex16 n = c # cs \<and> c \<noteq> CHR '':'' \<and> c \<noteq> CHR ''.''"
  using hex16_chars [of n] hex_digit_neq by (fastforce simp: neq_Nil_conv)

lemma length_hex16 [simp]: "length (hex16 n) > 0" "hex16 n \<noteq> []"
  by (simp_all add: hex16_def)

lemma dec8_chars: "v < 256 \<Longrightarrow> \<exists>ds. dec8 v = map hex_digit ds \<and> ds \<noteq> [] \<and> list_all (\<lambda>d. d < 10) ds"
  by (rule exI [of _ "(if v \<ge> 100 then [v div 100] else []) @ (if v \<ge> 10 then [v div 10 mod 10] else []) @ [v mod 10]"])
    (simp add: dec8_def div_less_iff_less_mult)

lemma decimals:
  fixes n :: nat
  shows "n div 100 * 10 + n div 10 mod 10 = n div 10" "n div 10 * 10 + n mod 10 = n"
  using div_mult2_eq [of n 10 10] by (simp_all flip: div_mult_mod_eq)

lemma v4_step: "d < 10 \<Longrightarrow> \<not> (digLen = 1 \<and> val = 0) \<Longrightarrow> val * 10 + d \<le> 255 \<Longrightarrow>
    parseIPv4Fields (hex_digit d # cs) val digLen fl = parseIPv4Fields cs (val * 10 + d) (digLen + 1) fl"
  by (auto simp: dec_digit_val)

lemma v4_dec8:
  assumes "v < 256"
  shows "parseIPv4Fields (dec8 v @ rest) 0 0 fl = parseIPv4Fields rest v (length (dec8 v)) fl"
proof -
  consider "v \<ge> 100" | "v < 100" "v \<ge> 10" | "v < 10" by linarith
  then show ?thesis
  proof cases
    case 1
    have c: "100 \<le> v" "10 \<le> v" "v div 10 \<le> 255" "v div 100 \<le> 255" "v div 100 < 10" "v div 100 \<noteq> 0" "v div 10 \<noteq> 0"
      using 1 assms by auto
    show ?thesis
      unfolding dec8_def using assms decimals [of v]
      by (simp only: c if_True append_Cons append_Nil) (simp add: v4_step c del: parseIPv4Fields.simps)
  next
    case 2
    have c: "\<not> 100 \<le> v" "10 \<le> v" "v div 10 mod 10 = v div 10" "v div 10 \<noteq> 0" "v div 10 < 10"
      using 2 by (auto simp: div_less_iff_less_mult)
    show ?thesis
      unfolding dec8_def using assms decimals(2) [of v]
      by (simp only: c if_True if_False append_Cons append_Nil) (simp add: v4_step c del: parseIPv4Fields.simps)
  next
    case 3
    then show ?thesis by (simp add: dec8_def v4_step del: parseIPv4Fields.simps)
  qed
qed

lemma length_dec8 [simp]: "length (dec8 v) > 0" "dec8 v \<noteq> []"
  by (simp_all add: dec8_def)

lemma v4_dot: "k > 0 \<Longrightarrow> cs \<noteq> [] \<Longrightarrow> length fl < 3 \<Longrightarrow>
    parseIPv4Fields (CHR ''.'' # cs) v k fl = parseIPv4Fields cs 0 0 (fl @ [of_nat v])"
  by simp

lemma v4_roundtrip:
  assumes "length a = 4"
  shows "parseIPv4Fields (v4_String a) 0 0 [] = Some a"
proof -
  obtain x0 x1 x2 x3 where a: "a = [x0, x1, x2, x3]"
    using assms by (auto simp: numeral_eq_Suc length_Suc_conv)
  have b: "unat x < 256" for x :: byte using unsigned_less [of x] by simp
  show ?thesis
    unfolding a v4_String_def
    using v4_dec8 [OF b, of x3 "[]"]
    by (simp add: v4_dec8 [OF b] v4_dot del: parseIPv4Fields.simps(2))
qed

section \<open>Groups of an IPv6 address\<close>

fun join_with :: "(nat \<Rightarrow> string) \<Rightarrow> nat list \<Rightarrow> string" where
  "join_with prt [] = ''''"
| "join_with prt [g] = prt g"
| "join_with prt (g # h # gs) = prt g @ '':'' @ join_with prt (h # gs)"

abbreviation join_groups :: "nat list \<Rightarrow> string" where
  "join_groups \<equiv> join_with hex16"

definition groups_ok :: "nat list \<Rightarrow> bool" where
  "groups_ok gs \<longleftrightarrow> list_all (\<lambda>g. g < 65536) gs"

definition groups_bytes :: "nat list \<Rightarrow> bytes" where
  "groups_bytes gs = concat (map group_bytes gs)"

lemma groups_simps [simp]:
  "groups_ok []" "groups_ok (g # gs) \<longleftrightarrow> g < 65536 \<and> groups_ok gs" "groups_bytes [] = []"
  "groups_bytes (g # gs) = group_bytes g @ groups_bytes gs" "length (group_bytes g) = 2"
  "length (groups_bytes gs) = 2 * length gs" "groups_bytes (gs @ hs) = groups_bytes gs @ groups_bytes hs"
  by (induction gs) (simp_all add: groups_ok_def groups_bytes_def group_bytes_def)

text \<open>
  A way of printing groups in hexadecimal: the parser reads a group up to the next separator and
  nothing printed starts with a separator.
\<close>

locale hex_printer =
  fixes prt :: "nat \<Rightarrow> string"
  assumes reads: "n < 65536 \<Longrightarrow> rest = [] \<or> hex_val (hd rest) = None \<Longrightarrow>
      hex_group (prt n @ rest) 0 0 = Some (length (prt n), n, rest)"
    and starts: "n < 65536 \<Longrightarrow> \<exists>c cs. prt n = c # cs \<and> c \<noteq> CHR '':'' \<and> c \<noteq> CHR ''.''"
begin

lemma prt_not_Nil: "n < 65536 \<Longrightarrow> prt n \<noteq> []"
  using starts by fastforce

lemma join_Cons:
  assumes "gs \<noteq> []" "groups_ok gs"
  shows "\<exists>c cs. join_with prt gs = c # cs \<and> c \<noteq> CHR '':'' \<and> c \<noteq> CHR ''.''"
  using assms starts [of "hd gs"] by (cases gs; cases "tl gs") fastforce+

text \<open>One turn of the loop on a group that is followed by nothing, by a colon and more, or by an ellipsis.\<close>

lemma v6_loop_last:
  "g < 65536 \<Longrightarrow> length ip < 16 \<Longrightarrow> v6_loop (prt g) ip ell = Some ([], ip @ group_bytes g, ell)"
  using reads [of g "[]"] prt_not_Nil [of g] by (subst v6_loop.simps) simp

lemma v6_loop_more:
  assumes "g < 65536" "length ip < 16" "c \<noteq> CHR '':''"
  shows "v6_loop (prt g @ CHR '':'' # c # cs) ip ell = v6_loop (c # cs) (ip @ group_bytes g) ell"
  using reads [of g "CHR '':'' # c # cs"] prt_not_Nil [of g] assms by (subst v6_loop.simps) (simp add: Let_def)

lemma v6_loop_ellipsis:
  assumes "g < 65536" "length ip < 16"
  shows "v6_loop (prt g @ CHR '':'' # CHR '':'' # cs) ip None =
     (if cs = [] then Some ([], ip @ group_bytes g, Some (length ip + 2))
      else v6_loop cs (ip @ group_bytes g) (Some (length ip + 2)))"
  using reads [of g "CHR '':'' # CHR '':'' # cs"] prt_not_Nil [of g] assms by (subst v6_loop.simps) (simp add: Let_def)

lemma v6_loop_join:
  assumes "gs \<noteq> []" "groups_ok gs" "length ip + 2 * length gs \<le> 16"
  shows "v6_loop (join_with prt gs) ip ell = Some ([], ip @ groups_bytes gs, ell)"
  using assms
proof (induction gs arbitrary: ip rule: induct_list012)
  case (2 g)
  then show ?case by (simp add: v6_loop_last)
next
  case (3 g h gs)
  obtain c cs where c: "join_with prt (h # gs) = c # cs" "c \<noteq> CHR '':''"
    using join_Cons [of "h # gs"] 3(4) by auto
  have "v6_loop (join_with prt (g # h # gs)) ip ell = v6_loop (join_with prt (h # gs)) (ip @ group_bytes g) ell"
    using 3(4,5) c by (simp add: v6_loop_more)
  then show ?case using 3 by simp
qed simp

lemma v6_loop_join_ellipsis:
  assumes "gs \<noteq> []" "groups_ok gs" "groups_ok hs" "length ip + 2 * length gs + 2 * length hs \<le> 16"
  shows "v6_loop (join_with prt gs @ ''::'' @ join_with prt hs) ip None =
    Some ([], ip @ groups_bytes gs @ groups_bytes hs, Some (length ip + 2 * length gs))"
  using assms
proof (induction gs arbitrary: ip rule: induct_list012)
  case (2 g)
  have "join_with prt hs = [] \<longleftrightarrow> hs = []" using join_Cons [of hs] 2 by fastforce
  then show ?case using 2 v6_loop_join [of hs "ip @ group_bytes g"] by (simp add: v6_loop_ellipsis)
next
  case (3 g h gs)
  obtain c cs where c: "join_with prt (h # gs) = c # cs" "c \<noteq> CHR '':''"
    using join_Cons [of "h # gs"] 3(4) by auto
  have "v6_loop (join_with prt (g # h # gs) @ ''::'' @ join_with prt hs) ip None
      = v6_loop (join_with prt (h # gs) @ ''::'' @ join_with prt hs) (ip @ group_bytes g) None"
    using 3(4,6) c by (simp add: v6_loop_more)
  then show ?case using 3 by simp
qed simp

text \<open>Reading groups with and without an ellipsis.\<close>

lemma parseIPv6_full:
  assumes "length gs = 8" "groups_ok gs"
  shows "parseIPv6 (join_with prt gs) = Some (groups_bytes gs)"
proof -
  have "gs \<noteq> []" using assms by auto
  then obtain c cs where c: "join_with prt gs = c # cs" "c \<noteq> CHR '':''" using join_Cons assms(2) by blast
  then have "take 2 (join_with prt gs) \<noteq> ''::''" by (cases cs) auto
  then show ?thesis
    using v6_loop_join [of gs "[]" None] assms \<open>gs \<noteq> []\<close> by (simp add: parseIPv6_def v6_finish_def)
qed

lemma parseIPv6_ellipsis:
  assumes "length gs + length hs < 8" "groups_ok gs" "groups_ok hs"
  shows "parseIPv6 (join_with prt gs @ ''::'' @ join_with prt hs)
    = Some (groups_bytes gs @ replicate (16 - 2 * (length gs + length hs)) 0 @ groups_bytes hs)"
proof (cases "gs = []")
  case True
  have "join_with prt hs = [] \<longleftrightarrow> hs = []" using join_Cons [of hs] assms(3) by fastforce
  then show ?thesis
    using True assms v6_loop_join [of hs "[]" "Some 0"] by (auto simp: parseIPv6_def v6_finish_def)
next
  case False
  then obtain c cs where c: "join_with prt gs = c # cs" "c \<noteq> CHR '':''" using join_Cons assms(2) by blast
  then have "take 2 (join_with prt gs @ ''::'' @ join_with prt hs) \<noteq> ''::''" by (cases cs) auto
  then show ?thesis
    using v6_loop_join_ellipsis [OF False assms(2,3), of "[]"] assms(1) by (simp add: parseIPv6_def v6_finish_def)
qed

end

interpretation h16: hex_printer hex16
  by unfold_locales (rule hex_group_hex16, assumption+, rule hex16_Cons)

section \<open>Printing in groups\<close>

definition addr_groups :: "ip \<Rightarrow> nat list" where
  "addr_groups a = map (v6u16 a) [0..<8]"

lemma v6u16_bound: "v6u16 a i < 65536"
proof -
  have "unat (a ! (2 * i)) < 256" "unat (a ! (2 * i + 1)) < 256"
    using unsigned_less [of "a ! (2 * i)"] unsigned_less [of "a ! (2 * i + 1)"] by simp_all
  then show ?thesis unfolding v6u16_def by linarith
qed

lemma group_bytes_v6u16: "group_bytes (v6u16 a i) = [a ! (2 * i), a ! (2 * i + 1)]"
proof -
  have y: "unat (a ! (2 * i + 1)) < 256" using unsigned_less [of "a ! (2 * i + 1)"] by simp
  have "of_nat 256 = (0 :: byte)" by code_simp
  then have z: "w * 256 = (0 :: byte)" for w by (simp only: of_nat_numeral mult_zero_right)
  show ?thesis using y by (simp add: group_bytes_def v6u16_def z)
qed

lemma addr_groups_ok [simp]: "length (addr_groups a) = 8" "groups_ok (addr_groups a)"
    "groups_ok (take k (addr_groups a))" "groups_ok (drop k (addr_groups a))"
proof -
  show "groups_ok (addr_groups a)" by (simp add: addr_groups_def groups_ok_def list_all_iff v6u16_bound)
  then show "groups_ok (take k (addr_groups a))" "groups_ok (drop k (addr_groups a))"
    unfolding groups_ok_def list_all_iff by (auto dest: in_set_takeD in_set_dropD)
qed (simp add: addr_groups_def)

lemma groups_bytes_addr: "length a = 16 \<Longrightarrow> groups_bytes (addr_groups a) = a"
  by (rule nth_equalityI)
    (auto simp: addr_groups_def groups_bytes_def group_bytes_v6u16 upt8 numeral_eq_Suc less_Suc_eq)

lemma takeWhile_run:
  assumes "i \<le> n" "j < length (takeWhile P [i..<n])"
  shows "P (i + j)"
proof -
  have le: "length (takeWhile P [i..<n]) \<le> n - i" using length_takeWhile_le [of P "[i..<n]"] by simp
  have "takeWhile P [i..<n] ! j = i + j" using assms le by (simp add: takeWhile_nth)
  then show "P (i + j)" using nth_mem [OF assms(2)] set_takeWhileD by metis
qed

definition run_ok :: "ip \<Rightarrow> nat \<times> nat \<Rightarrow> bool" where
  "run_ok a = (\<lambda>(zs, ze). (zs = 255 \<and> ze = 255) \<or> (zs + 2 \<le> ze \<and> ze \<le> 8 \<and> (\<forall>j. zs \<le> j \<and> j < ze \<longrightarrow> v6u16 a j = 0)))"

lemma zero_run_ok: "run_ok a (v6_zero_run a)"
proof -
  let ?f = "\<lambda>(zs, ze) i. let l = zero_run_len a i in if l \<ge> 2 \<and> l > ze - zs then (i, i + l) else (zs, ze)"
  have step: "run_ok a (?f r i)" if "run_ok a r" "i < 8" for r i
  proof (cases "zero_run_len a i \<ge> 2")
    case True
    have "i + zero_run_len a i \<le> 8"
      using length_takeWhile_le [of "\<lambda>j. v6u16 a j = 0" "[i..<8]"] that(2) by (simp add: zero_run_len_def)
    moreover have "v6u16 a j = 0" if "i \<le> j" "j < i + zero_run_len a i" for j
      using takeWhile_run [of i 8 "j - i" "\<lambda>j. v6u16 a j = 0"] that \<open>i < 8\<close> by (simp add: zero_run_len_def)
    ultimately show ?thesis using True that(1) by (auto simp: run_ok_def Let_def split: if_splits)
  next
    case False
    then show ?thesis using that(1) by (auto simp: run_ok_def Let_def)
  qed
  have "run_ok a (foldl ?f r js)" if "run_ok a r" "list_all (\<lambda>i. i < 8) js" for r js
    using that by (induction js arbitrary: r) (simp_all add: step del: split_paired_All)
  moreover have "run_ok a (255, 255)" by (simp add: run_ok_def)
  moreover have "list_all (\<lambda>i. i < 8) [0..<8]" by (simp add: list_all_iff)
  ultimately show ?thesis unfolding v6_zero_run_def by blast
qed

lemma v6_String_full: "v6_zero_run a = (255, 255) \<Longrightarrow> v6_String a = join_groups (addr_groups a)"
  by (simp add: v6_String_def addr_groups_def upt8)

lemma v6_String_run:
  assumes "v6_zero_run a = (zs, ze)" "zs + 2 \<le> ze" "ze \<le> 8"
  shows "v6_String a = join_groups (take zs (addr_groups a)) @ ''::'' @ join_groups (drop ze (addr_groups a))"
proof -
  have "zs \<in> {0, 1, 2, 3, 4, 5, 6}" "ze \<in> {2, 3, 4, 5, 6, 7, 8}" using assms(2,3) by auto
  then show ?thesis
    using assms(2,3) unfolding v6_String_def assms(1) addr_groups_def upt8
    by (elim insertE emptyE) simp_all
qed

lemma parseIPv6_String:
  assumes "length a = 16"
  shows "parseIPv6 (v6_String a) = Some a"
proof -
  obtain zs ze where z: "v6_zero_run a = (zs, ze)" by fastforce
  have ok: "run_ok a (zs, ze)" using zero_run_ok [of a] z by simp
  show ?thesis
  proof (cases "zs = 255 \<and> ze = 255")
    case True
    then show ?thesis
      using h16.parseIPv6_full [of "addr_groups a"] assms z by (simp add: v6_String_full groups_bytes_addr)
  next
    case False
    then have r: "zs + 2 \<le> ze" "ze \<le> 8" "\<And>j. zs \<le> j \<Longrightarrow> j < ze \<Longrightarrow> v6u16 a j = 0" using ok by (auto simp: run_ok_def)
    have "take (ze - zs) (drop zs (addr_groups a)) = replicate (ze - zs) 0"
      by (rule nth_equalityI) (use r in \<open>auto simp: addr_groups_def\<close>)
    then have g: "addr_groups a = take zs (addr_groups a) @ replicate (ze - zs) 0 @ drop ze (addr_groups a)"
      using r append_take_drop_id [of zs "addr_groups a"] append_take_drop_id [of "ze - zs" "drop zs (addr_groups a)"]
      by (simp add: drop_drop)
    have "groups_bytes (replicate k 0) = replicate (2 * k) 0" for k
      by (induction k) (simp_all add: group_bytes_def)
    then have "a = groups_bytes (take zs (addr_groups a)) @ replicate (2 * (ze - zs)) 0 @ groups_bytes (drop ze (addr_groups a))"
      using groups_bytes_addr [OF assms] g by (metis groups_simps(7))
    moreover have "16 - 2 * (zs + (8 - ze)) = 2 * (ze - zs)" using r by simp
    ultimately show ?thesis
      using h16.parseIPv6_ellipsis [of "take zs (addr_groups a)" "drop ze (addr_groups a)"] r
      by (simp add: v6_String_run [OF z r(1,2)] min_def)
  qed
qed

section \<open>Reading back addresses\<close>

lemma is_sep_simps [simp]: "is_sep CHR '':''" "is_sep CHR ''.''" "d < 16 \<Longrightarrow> \<not> is_sep (hex_digit d)"
  by (auto simp: is_sep_def hex_digit_neq)

lemma find_digits:
  "list_all (\<lambda>d. d < 16) ds \<Longrightarrow> find is_sep (map hex_digit ds @ rest) = find is_sep rest"
  by (induction ds) auto

lemma find_hex16: "n < 65536 \<Longrightarrow> find is_sep (hex16 n @ rest) = find is_sep rest"
  using hex16_chars [of n] find_digits by metis

lemma find_dec8: "v < 256 \<Longrightarrow> find is_sep (dec8 v @ rest) = find is_sep rest"
proof -
  assume "v < 256"
  then obtain ds where "dec8 v = map hex_digit ds" "list_all (\<lambda>d. d < 10) ds" using dec8_chars by blast
  moreover have "list_all (\<lambda>d. d < 16) ds" using calculation(2) by (auto simp: list_all_iff)
  ultimately show ?thesis using find_digits by metis
qed

lemma find_v4: "length a = 4 \<Longrightarrow> find is_sep (v4_String a) = Some CHR ''.''"
proof -
  have "unat (a ! 0) < 256" using unsigned_less [of "a ! 0"] by simp
  then show ?thesis by (simp add: v4_String_def find_dec8)
qed

lemma find_v6: "find is_sep (v6_String a) = Some CHR '':''"
proof -
  obtain zs ze where z: "v6_zero_run a = (zs, ze)" by fastforce
  have ok: "run_ok a (zs, ze)" using zero_run_ok [of a] z by simp
  show ?thesis
  proof (cases "zs = 0")
    case True
    then show ?thesis using ok z v6_String_run [of a 0 ze] by (simp add: run_ok_def)
  next
    case False
    then have "\<exists>cs. v6_String a = hex16 (v6u16 a 0) @ CHR '':'' # cs"
      using z by (auto simp: v6_String_def upt8)
    then show ?thesis using find_hex16 [OF v6u16_bound, of a 0] by auto
  qed
qed

lemma ParseAddr_v4: "length a = 4 \<Longrightarrow> netip_ParseAddr (v4_String a) = Some a"
  using find_v4 [of a] v4_roundtrip [of a] by (simp add: netip_ParseAddr_def)

lemma ParseAddr_v6: "length a = 16 \<Longrightarrow> netip_ParseAddr (v6_String a) = Some a"
  using find_v6 [of a] parseIPv6_String [of a] by (simp add: netip_ParseAddr_def)

lemma ParseAddr_IP_String:
  assumes "length a = 4 \<or> length a = 16"
  shows "netip_ParseAddr (IP_String a) = Some (case net_To4 a of Some a4 \<Rightarrow> a4 | None \<Rightarrow> a)"
proof (cases "net_To4 a")
  case None
  then have "length a = 16" using assms To4_None_length by auto
  then show ?thesis using None ParseAddr_v6 by (simp add: IP_String_def net_IP_String_def)
next
  case (Some a4)
  then have "length a4 = 4" by (rule To4_length)
  then show ?thesis using Some assms ParseAddr_v4 by (auto simp: IP_String_def net_IP_String_def)
qed

lemma mapped_As16: "length a = 4 \<Longrightarrow> net_To4 (addr_As16 a) = Some a"
  by (simp add: addr_As16_def net_To4_def v4InV6Prefix_def byte_slice_def isZeros_def nth_append list_all_iff)

lemma ParseIP_To4: "ParseIP s = (case netip_ParseAddr s of
    None \<Rightarrow> [] | Some a \<Rightarrow> (case net_To4 (addr_As16 a) of Some a4 \<Rightarrow> (if length (addr_As16 a) = 16 then a4 else addr_As16 a) | None \<Rightarrow> addr_As16 a))"
  by (auto simp: ParseIP_def net_ParseIP_def net_To4_def Let_def split: option.split)

lemma ParseIP_IP_String:
  assumes "length a = 4 \<or> length a = 16"
  shows "ParseIP (IP_String a) = (case net_To4 a of Some a4 \<Rightarrow> a4 | None \<Rightarrow> a)"
proof (cases "net_To4 a")
  case None
  then have l: "length a = 16" using assms To4_None_length by auto
  then show ?thesis using None ParseAddr_IP_String [OF assms] by (simp add: ParseIP_To4 addr_As16_def)
next
  case (Some a4)
  have "length a4 = 4" using Some by (rule To4_length)
  then show ?thesis
    using Some ParseAddr_IP_String [OF assms] mapped_As16 [of a4]
    by (simp add: ParseIP_To4 addr_As16_def v4InV6Prefix_def)
qed

text \<open>
  C27. Reading the text of an address yields the address: the 4 bytes for an IPv4 address, also when
  it is given in its 16-byte form, and the 16 bytes for every other IPv6 address.
\<close>

theorem ip_text_roundtrip:
  assumes "length a = 4 \<or> length a = 16"
  shows "ParseIP (IP_String a) = (case net_To4 a of Some a4 \<Rightarrow> a4 | None \<Rightarrow> a)"
  using assms by (rule ParseIP_IP_String)

theorem ip_text_roundtrip_witness:
  "ParseIP (IP_String ([0xfd] @ replicate 14 0 @ [1])) = [0xfd] @ replicate 14 0 @ [1]"
  using ip_text_roundtrip [of "[0xfd] @ replicate 14 0 @ [1]"] by (simp add: net_To4_def isZeros_def byte_slice_def)

section \<open>Reading back subnets\<close>

lemma low_masks: "n < 8 \<Longrightarrow> push_bit n (NOT (drop_bit n 0xff)) = (0 :: byte) \<and> NOT (drop_bit n 0xff) \<noteq> (0xff :: byte)"
proof -
  have "list_all (\<lambda>n. push_bit n (NOT (drop_bit n 0xff)) = (0 :: byte) \<and> NOT (drop_bit n 0xff) \<noteq> (0xff :: byte)) [0..<8]"
    by code_simp
  then show "n < 8 \<Longrightarrow> ?thesis" by (simp add: list_all_iff)
qed

lemma cidr_bytes_0: "cidr_bytes 0 l = replicate l 0"
  by (induction l) (simp_all add: byte_ff)

lemma cidr_bytes_Nil [simp]: "cidr_bytes n l = [] \<longleftrightarrow> l = 0"
  by (metis length_cidr_bytes length_0_conv)

lemma simpleMaskLength_cidr: "n \<le> 8 * l \<Longrightarrow> simpleMaskLength (cidr_bytes n l) = Some n"
proof (induction l arbitrary: n)
  case (Suc l)
  show ?case
  proof (cases "n \<ge> 8")
    case True
    then show ?thesis using Suc.IH [of "n - 8"] Suc.prems by simp
  next
    case False
    then show ?thesis using low_masks [of n] LeadingZeros8_mask [of n] by (simp add: cidr_bytes_0 list_ex_iff Let_def)
  qed
qed simp

lemma dtoi_step: "d < 10 \<Longrightarrow> n < 1000 \<Longrightarrow> dtoi (hex_digit d # cs) n = dtoi cs (n * 10 + d)"
  by (simp add: dec_digit_val)

lemma dtoi_dec8:
  assumes "v < 1000"
  shows "dtoi (dec8 v) 0 = Some (v, [])"
proof -
  have c: "v div 100 < 10" "v div 10 mod 10 < 10" "v mod 10 < 10" "v div 10 < 1000" "v div 100 < 1000"
    using assms by (auto simp: div_less_iff_less_mult)
  consider "v \<ge> 100" | "v < 100" "v \<ge> 10" | "v < 10" by linarith
  then show ?thesis
  proof cases
    case 1
    then have "100 \<le> v" "10 \<le> v" by simp_all
    then show ?thesis unfolding dec8_def using c decimals [of v]
      by (simp only: if_True append_Cons append_Nil) (simp add: dtoi_step del: dtoi.simps(2))
  next
    case 2
    then have d: "\<not> 100 \<le> v" "10 \<le> v" "v div 10 mod 10 = v div 10" by simp_all
    then show ?thesis unfolding dec8_def using c decimals(2) [of v]
      by (simp only: d if_True if_False append_Cons append_Nil) (simp add: dtoi_step d(3) del: dtoi.simps(2))
  next
    case 3
    then show ?thesis by (simp add: dec8_def dtoi_step del: dtoi.simps(2))
  qed
qed

lemma first_index_append: "c \<notin> set s \<Longrightarrow> first_index c (s @ c # t) = Some (length s)"
proof -
  assume "c \<notin> set s"
  then have "takeWhile (\<lambda>x. x \<noteq> c) (s @ c # t) = s" by (induction s) auto
  then show ?thesis by (simp add: first_index_def)
qed

text \<open>The characters of the text of an address.\<close>

definition addr_chars :: "char set" where
  "addr_chars = set ''0123456789abcdef:.''"

lemma addr_chars_digits: "list_all (\<lambda>d. d < 16) ds \<Longrightarrow> set (map hex_digit ds) \<subseteq> addr_chars"
proof -
  have "hex_digit d \<in> addr_chars" if "d < 16" for d
    using that nth_mem [of d "''0123456789abcdef''"] by (auto simp: hex_digit_def addr_chars_def)
  then show "list_all (\<lambda>d. d < 16) ds \<Longrightarrow> ?thesis" by (auto simp: list_all_iff)
qed

lemma addr_chars_hex16: "n < 65536 \<Longrightarrow> set (hex16 n) \<subseteq> addr_chars"
  using hex16_chars [of n] addr_chars_digits by metis

lemma addr_chars_dec8: "v < 256 \<Longrightarrow> set (dec8 v) \<subseteq> addr_chars"
proof -
  assume "v < 256"
  then obtain ds where d: "dec8 v = map hex_digit ds" "list_all (\<lambda>d. d < 10) ds" using dec8_chars by blast
  have "list_all (\<lambda>d. d < 16) ds" using d(2) by (auto simp: list_all_iff)
  from addr_chars_digits [OF this] show ?thesis unfolding d(1) .
qed

lemma addr_chars_seps [simp]: "CHR '':'' \<in> addr_chars" "CHR ''.'' \<in> addr_chars" "CHR ''/'' \<notin> addr_chars"
    "CHR ''['' \<notin> addr_chars" "CHR '']'' \<notin> addr_chars"
  by (simp_all add: addr_chars_def)

lemma addr_chars_join: "groups_ok gs \<Longrightarrow> set (join_groups gs) \<subseteq> addr_chars"
  by (induction gs rule: induct_list012) (simp_all add: addr_chars_hex16)

lemma addr_chars_v6: "set (v6_String a) \<subseteq> addr_chars"
proof -
  obtain zs ze where z: "v6_zero_run a = (zs, ze)" by fastforce
  have ok: "run_ok a (zs, ze)" using zero_run_ok [of a] z by simp
  show ?thesis
  proof (cases "zs = 255 \<and> ze = 255")
    case True
    then show ?thesis using v6_String_full [of a] z by (simp add: addr_chars_join)
  next
    case False
    then have r: "zs + 2 \<le> ze" "ze \<le> 8" using ok by (auto simp: run_ok_def)
    show ?thesis unfolding v6_String_run [OF z r] by (simp add: addr_chars_join)
  qed
qed

lemma addr_chars_v4: "set (v4_String a) \<subseteq> addr_chars"
proof -
  have "unat x < 256" for x :: byte using unsigned_less [of x] by simp
  then show ?thesis by (simp add: v4_String_def addr_chars_dec8)
qed

lemma addr_chars_IP: "length a = 4 \<or> length a = 16 \<Longrightarrow> set (net_IP_String a) \<subseteq> addr_chars"
  by (cases "net_To4 a") (auto simp: net_IP_String_def subsetD [OF addr_chars_v4] subsetD [OF addr_chars_v6])

lemma no_slash_IP: "length a = 4 \<or> length a = 16 \<Longrightarrow> CHR ''/'' \<notin> set (net_IP_String a)"
  using addr_chars_IP [of a] addr_chars_seps(3) by blast

lemma net_IP_Mask_same: "length m = length a \<Longrightarrow> net_IP_Mask a m = map2 (AND) a m"
  by (auto simp: net_IP_Mask_def Let_def)

lemma net_IP_Mask_As16:
  assumes "length a = 4" "length m = 4"
  shows "net_IP_Mask (addr_As16 a) m = map2 (AND) a m"
  using assms by (simp add: net_IP_Mask_def addr_As16_def v4InV6Prefix_def Let_def)

lemma Subnet_String_NewSubnet:
  assumes "length a = 4 \<or> length a = 16" "n \<le> 8 * length a"
    and "s = NewSubnet a (CIDRMask (int n) (int (8 * length a)))"
    and "length a = 16 \<Longrightarrow> net_To4 (Subnet_IP s) = None"
  shows "Subnet_String s = net_IP_String (Subnet_IP s) @ CHR ''/'' # dec8 n"
    and "s = Subnet_IP s @ cidr_bytes n (length a)" "Subnet_IP s = map2 (AND) a (cidr_bytes n (length a))"
proof -
  let ?m = "cidr_bytes n (length a)"
  let ?b = "map2 (AND) a ?m"
  have m: "CIDRMask (int n) (int (8 * length a)) = ?m"
    using assms(1,2) CIDRMask_128 [of n] CIDRMask_32 [of n] by auto
  have s: "s = ?b @ ?m" unfolding assms(3) m by (simp add: NewSubnet_map2)
  have parts: "Subnet_IP s = ?b" "Subnet_Mask s = ?m" "subnet_len_ok s" "s \<noteq> []"
    using assms(1) by (auto simp: s Subnet_IP_def Subnet_Mask_def subnet_len_ok_def)
  have to4: "net_To4 ?b = (if length a = 4 then Some ?b else None)"
    using assms(1,4) parts(1) by (auto simp: net_To4_def)
  have "networkNumberAndMask (Subnet_AsIPNet s) = (?b, ?m)"
    using assms(1) to4 by (auto simp: networkNumberAndMask_def Subnet_AsIPNet_def parts Let_def)
  moreover have "?b \<noteq> []" "?m \<noteq> []" using assms(1) by auto
  ultimately show "Subnet_String s = net_IP_String (Subnet_IP s) @ CHR ''/'' # dec8 n"
    using parts simpleMaskLength_cidr [OF assms(2)] by (simp add: Subnet_String_def net_IPNet_String_def)
  show "s = Subnet_IP s @ ?m" "Subnet_IP s = ?b" using s parts(1) by simp_all
qed

lemma ParseCIDR_Subnet_String:
  assumes "length a = 4 \<or> length a = 16" "n \<le> 8 * length a"
    and "s = NewSubnet a (CIDRMask (int n) (int (8 * length a)))"
    and "length a = 16 \<Longrightarrow> net_To4 (Subnet_IP s) = None"
  shows "\<exists>ip. ParseCIDR (Subnet_String s) = Inr (ip, s)"
proof -
  let ?m = "cidr_bytes n (length a)"
  let ?b = "map2 (AND) a ?m"
  note S = Subnet_String_NewSubnet [OF assms]
  have s: "s = ?b @ ?m" and ip: "Subnet_IP s = ?b" and str: "Subnet_String s = net_IP_String ?b @ CHR ''/'' # dec8 n"
    using S by simp_all
  have to4: "net_To4 ?b = (if length a = 4 then Some ?b else None)"
    using assms(1,4) ip by (auto simp: net_To4_def)
  have addr: "netip_ParseAddr (net_IP_String ?b) = Some ?b"
    using ParseAddr_IP_String [of ?b] assms(1) to4 by (auto simp: IP_String_def)
  have mask: "net_CIDRMask (int n) (int (8 * length a)) = ?m"
    using assms(1,2) CIDRMask_128 [of n] CIDRMask_32 [of n] by (auto simp: CIDRMask_def)
  have masked: "net_IP_Mask (addr_As16 ?b) ?m = ?b"
    using assms(1) net_IP_Mask_As16 [of ?b ?m] net_IP_Mask_same [of ?m ?b] map2_and_idem [of a ?m]
    by (auto simp: addr_As16_def)
  have "n < 1000" using assms(1,2) by auto
  then have "net_ParseCIDR (Subnet_String s) = Inr (addr_As16 ?b, \<lparr>ipn_IP = ?b, ipn_Mask = ?m\<rparr>)"
    using first_index_append [of "CHR ''/''" "net_IP_String ?b" "dec8 n"] no_slash_IP [of ?b] assms(1,2) addr mask masked
    by (simp add: net_ParseCIDR_def str dtoi_dec8 Let_def)
  then show ?thesis by (simp add: ParseCIDR_def s)
qed

text \<open>
  C28. Reading the text of a subnet yields the subnet, for IPv4 and IPv6 subnets of any prefix length;
  an IPv6 subnet whose address is an IPv4 address in 16-byte form is excluded, since it is printed
  as an IPv4 subnet.
\<close>

theorem subnet_text_roundtrip:
  assumes "length a = 4 \<or> length a = 16" "n \<le> 8 * length a"
    and "s = NewSubnet a (CIDRMask (int n) (int (8 * length a)))"
    and "length a = 16 \<Longrightarrow> net_To4 (Subnet_IP s) = None"
  shows "\<exists>ip. ParseCIDR (Subnet_String s) = Inr (ip, s)"
  using assms by (rule ParseCIDR_Subnet_String)

theorem subnet_text_roundtrip_witness:
  "\<exists>ip. ParseCIDR (Subnet_String (NewSubnet [10, 1, 2, 3] (CIDRMask 24 32))) = Inr (ip, NewSubnet [10, 1, 2, 3] (CIDRMask 24 32))"
  using subnet_text_roundtrip [of "[10, 1, 2, 3]" 24] by simp

section \<open>Well-formed addresses and subnets\<close>

text \<open>
  What the code expects of a value of type \<open>IP\<close> or \<open>Subnet\<close>, which are strings to the compiler: an address has 4 bytes, or 16
  and is no IPv4 address in disguise; a subnet has a contiguous mask and no bits outside of it.
\<close>

definition wf_ip :: "ip \<Rightarrow> bool" where
  "wf_ip a \<longleftrightarrow> length a = 4 \<or> (length a = 16 \<and> net_To4 a = None)"

definition wf_subnet :: "subnet \<Rightarrow> bool" where
  "wf_subnet s \<longleftrightarrow> subnet_len_ok s \<and>
     s = NewSubnet (Subnet_IP s) (CIDRMask (int (Subnet_Prefix s)) (int (8 * length (Subnet_IP s))))"

lemma parseIPv4Fields_length: "parseIPv4Fields s val k fl = Some a \<Longrightarrow> length fl \<le> 3 \<Longrightarrow> length a = 4"
  by (induction s val k fl rule: parseIPv4Fields.induct) (auto split: option.splits if_splits)

lemma v6_loop_group:
  assumes "length ip < 16" "hex_group s 0 0 = Some (off, acc, rest)" "off \<noteq> 0"
  shows "v6_loop s ip ell =
      (if rest \<noteq> [] \<and> hd rest = CHR ''.'' then
          (if ell = None \<and> length ip \<noteq> 12 then None
           else if length ip + 4 > 16 then None
           else map_option (\<lambda>f. ([], ip @ f, ell)) (parseIPv4Fields s 0 0 []))
        else (case rest of
             [] \<Rightarrow> Some ([], ip @ group_bytes acc, ell)
           | c # r \<Rightarrow>
               if c \<noteq> CHR '':'' then None
               else (case r of
                       [] \<Rightarrow> None
                     | c2 # r2 \<Rightarrow>
                         if c2 = CHR '':'' then
                           (if ell \<noteq> None then None
                            else if r2 = [] then Some ([], ip @ group_bytes acc, Some (length (ip @ group_bytes acc)))
                            else v6_loop r2 (ip @ group_bytes acc) (Some (length (ip @ group_bytes acc))))
                         else v6_loop r (ip @ group_bytes acc) ell)))"
  using assms by (subst v6_loop.simps) (simp add: Let_def)

lemma v6_loop_step:
  assumes "v6_loop s ip ell = Some (r, ip', e)" "length ip < 16"
  obtains f where "ip' = ip @ f" "length f = 4" "length ip + 4 \<le> 16"
  | acc where "ip' = ip @ group_bytes acc"
  | acc s2 ell2 where "v6_loop s2 (ip @ group_bytes acc) ell2 = Some (r, ip', e)"
proof -
  obtain off acc rest where g: "hex_group s 0 0 = Some (off, acc, rest)" "off \<noteq> 0"
    using assms by (subst (asm) v6_loop.simps) (auto split: option.splits if_splits)
  note run = assms(1) [unfolded v6_loop_group [OF assms(2) g, of ell]]
  show thesis
  proof (cases "rest \<noteq> [] \<and> hd rest = CHR ''.''")
    case True
    then obtain f where "parseIPv4Fields s 0 0 [] = Some f" "ip' = ip @ f" "length ip + 4 \<le> 16" using run by (auto split: if_splits)
    then show thesis using that(1) parseIPv4Fields_length [of s 0 0 "[]" f] by simp
  next
    case False
    then have "ip' = ip @ group_bytes acc \<or> (\<exists>s2 ell2. v6_loop s2 (ip @ group_bytes acc) ell2 = Some (r, ip', e))"
      using run by (simp split: list.splits if_splits) metis+
    then show thesis using that(2,3) by blast
  qed
qed

lemma v6_loop_length:
  "v6_loop s ip ell = Some (r, ip', e) \<Longrightarrow> even (length ip) \<Longrightarrow> length ip \<le> 16 \<Longrightarrow> length ip' \<le> 16"
proof (induction "16 - length ip" arbitrary: s ip ell rule: less_induct)
  case less
  show ?case
  proof (cases "length ip < 16")
    case True
    have two: "even (length (ip @ group_bytes acc))" "length (ip @ group_bytes acc) \<le> 16"
        "16 - length (ip @ group_bytes acc) < 16 - length ip" for acc
      using True less.prems(2) by (auto simp: group_bytes_def elim!: evenE)
    from less.prems(1) True show ?thesis
    proof (cases rule: v6_loop_step)
      case (2 acc)
      then show ?thesis using two(2) by simp
    next
      case (3 acc s2 ell2)
      then show ?thesis using less.hyps [OF two(3) _ two(1,2)] by blast
    qed simp
  qed (use less.prems in \<open>simp add: v6_loop.simps [of s ip ell]\<close>)
qed

lemma v6_finish_length:
  assumes "v6_finish (s, ip, e) = Some a" "length ip \<le> 16"
  shows "length a = 16"
  using assms by (auto simp: v6_finish_def split: if_splits option.splits)

lemma ParseAddr_length: "netip_ParseAddr s = Some a \<Longrightarrow> length a = 4 \<or> length a = 16"
proof -
  assume a: "netip_ParseAddr s = Some a"
  have v6: "length a = 16" if "Option.bind (v6_loop t [] e) v6_finish = Some a" for t e
    using that v6_loop_length [of t "[]" e] v6_finish_length by (auto simp: bind_eq_Some_conv)
  then have "parseIPv6 s = Some a \<Longrightarrow> length a = 16" by (auto simp: parseIPv6_def split: if_splits)
  then show ?thesis using a parseIPv4Fields_length [of s 0 0 "[]" a] by (auto simp: netip_ParseAddr_def split: option.splits if_splits)
qed

lemma ParseIP_wf: "ParseIP s \<noteq> [] \<Longrightarrow> wf_ip (ParseIP s)"
proof -
  assume "ParseIP s \<noteq> []"
  then obtain a where a: "netip_ParseAddr s = Some a" by (auto simp: ParseIP_To4 split: option.splits)
  have l: "length (addr_As16 a) = 16" using ParseAddr_length [OF a] by (auto simp: addr_As16_def v4InV6Prefix_def)
  then have "ParseIP s = (case net_To4 (addr_As16 a) of Some a4 \<Rightarrow> a4 | None \<Rightarrow> addr_As16 a)"
    using a by (simp add: ParseIP_To4 split: option.split)
  then show ?thesis using l To4_length by (auto simp: wf_ip_def split: option.splits)
qed

lemma NewSubnet_wf:
  assumes "length a = 4 \<or> length a = 16" "n \<le> 8 * length a"
  shows "wf_subnet (map2 (AND) a (cidr_bytes n (length a)) @ cidr_bytes n (length a))"
proof -
  let ?m = "cidr_bytes n (length a)"
  let ?s = "map2 (AND) a ?m @ ?m"
  have parts: "subnet_len_ok ?s" "Subnet_IP ?s = map2 (AND) a ?m" "Subnet_Mask ?s = ?m"
    using assms(1) by (auto simp: subnet_len_ok_def Subnet_IP_def Subnet_Mask_def)
  have "Subnet_Prefix ?s = n" using assms(2) by (simp add: Subnet_Prefix_def parts Mask_Prefix_cidr_bytes)
  moreover have "CIDRMask (int n) (int (8 * length a)) = ?m" using assms CIDRMask_128 [of n] CIDRMask_32 [of n] by auto
  ultimately show ?thesis using map2_and_idem [of a ?m] by (simp add: wf_subnet_def parts NewSubnet_map2)
qed

lemma ParseCIDR_wf:
  assumes "ParseCIDR str = Inr (ip, s)"
  shows "wf_subnet s"
proof -
  obtain net where net: "net_ParseCIDR str = Inr (ip, net)" and s: "s = ipn_IP net @ ipn_Mask net"
    using assms by (auto simp: ParseCIDR_def split: sum.splits)
  obtain i where i: "first_index CHR ''/'' str = Some i" using net by (auto simp: net_ParseCIDR_def split: option.splits)
  obtain a where pa: "netip_ParseAddr (take i str) = Some a" using net i by (auto simp: net_ParseCIDR_def Let_def split: option.splits)
  obtain n rest where d: "dtoi (drop (i + 1) str) 0 = Some (n, rest)"
    using net i pa by (auto simp: net_ParseCIDR_def Let_def split: option.splits)
  have a: "length a = 4 \<or> length a = 16" by (rule ParseAddr_length [OF pa])
  have n: "n \<le> 8 * length a" and
    net2: "net = \<lparr>ipn_IP = net_IP_Mask (addr_As16 a) (net_CIDRMask (int n) (int (8 * length a))), ipn_Mask = net_CIDRMask (int n) (int (8 * length a))\<rparr>"
    using net i pa d by (auto simp: net_ParseCIDR_def Let_def split: if_splits)
  have m: "net_CIDRMask (int n) (int (8 * length a)) = cidr_bytes n (length a)"
    using a n CIDRMask_128 [of n] CIDRMask_32 [of n] by (auto simp: CIDRMask_def)
  have "net_IP_Mask (addr_As16 a) (cidr_bytes n (length a)) = map2 (AND) a (cidr_bytes n (length a))"
    using a net_IP_Mask_As16 [of a] net_IP_Mask_same [of _ a] by (auto simp: addr_As16_def)
  then show ?thesis using NewSubnet_wf [OF a n] unfolding s net2 m ipnet.simps by simp
qed

lemma wf_subnet_masked:
  assumes "wf_subnet s"
  shows "net_IP_Mask (Subnet_IP s) (Subnet_Mask s) = Subnet_IP s"
proof -
  let ?m = "CIDRMask (int (Subnet_Prefix s)) (int (8 * length (Subnet_IP s)))"
  have ok: "subnet_len_ok s" and s: "s = NewSubnet (Subnet_IP s) ?m" using assms by (simp_all add: wf_subnet_def)
  then have l: "length ?m = length (Subnet_IP s)" by (auto simp: NewSubnet_def subnet_len_ok_def split: if_splits)
  then have "Subnet_IP s @ Subnet_Mask s = map2 (AND) (Subnet_IP s) ?m @ ?m"
    using s ok by (simp add: NewSubnet_map2) (simp add: Subnet_IP_def Subnet_Mask_def)
  then have "Subnet_IP s = map2 (AND) (Subnet_IP s) ?m" "Subnet_Mask s = ?m" using l by (simp_all add: append_eq_append_conv)
  then show ?thesis using l net_IP_Mask_same by metis
qed

text \<open>
  C29. Whatever is read from JSON or YAML is well-formed: an address has 4 bytes or is a proper IPv6 address, and a subnet
  has a contiguous mask of the length of its address and an address without host bits, so none of the
  methods of the two types falls back on its value for malformed strings.
\<close>

theorem decoded_well_formed:
  "(IP_UnmarshalJSON j data = Inr a \<longrightarrow> wf_ip a) \<and> (IP_UnmarshalYAML str = Inr a \<longrightarrow> wf_ip a) \<and>
   (Subnet_UnmarshalJSON j data = Inr s \<longrightarrow> wf_subnet s) \<and> (Subnet_UnmarshalYAML str = Inr s \<longrightarrow> wf_subnet s)"
  using ParseIP_wf ParseCIDR_wf
  by (auto simp: IP_UnmarshalJSON_def IP_UnmarshalYAML_def Subnet_UnmarshalJSON_def Subnet_UnmarshalYAML_def Let_def
      split: sum.splits if_splits)

theorem decoded_well_formed_witness:
  "wf_ip [10, 1, 2, 3] \<and> wf_subnet (NewSubnet [10, 1, 2, 3] (CIDRMask 24 32))"
proof -
  let ?s = "NewSubnet [10, 1, 2, 3] (CIDRMask 24 32)" and ?j = "\<lparr>enc_str = \<lambda>_. Inr [], dec_str = \<lambda>_. Inl ErrSyntax\<rparr>"
  have "IP_UnmarshalYAML (Inr (IP_String [10, 1, 2, 3])) = Inr [10, 1, 2, 3]"
    using ParseIP_IP_String [of "[10, 1, 2, 3]"] by (simp add: IP_UnmarshalYAML_def net_To4_def)
  moreover have "Subnet_UnmarshalYAML (Inr (Subnet_String ?s)) = Inr ?s"
    using ParseCIDR_Subnet_String [of "[10, 1, 2, 3]" 24 ?s] by (auto simp: Subnet_UnmarshalYAML_def)
  ultimately show ?thesis
    using decoded_well_formed [of ?j "[]" "[10, 1, 2, 3]" "Inr (IP_String [10, 1, 2, 3])" ?s]
      decoded_well_formed [of ?j "[]" "[10, 1, 2, 3]" "Inr (Subnet_String ?s)" ?s] by blast
qed

section \<open>Ports and host-port pairs\<close>

lemma parse_uint_itoa: "n \<le> 65535 \<Longrightarrow> parse_uint (itoa n @ cs) 0 = parse_uint cs n"
proof (induction n arbitrary: cs rule: itoa.induct)
  case (1 n)
  show ?case
  proof (cases "n < 10")
    case True
    then show ?thesis by (simp add: itoa.simps dec_digit_val)
  next
    case False
    have "parse_uint (itoa (n div 10) @ hex_digit (n mod 10) # cs) 0 = parse_uint (hex_digit (n mod 10) # cs) (n div 10)"
      using 1 False by simp
    also have "\<dots> = parse_uint cs n" using 1(2) decimals(2) [of n] by (simp add: dec_digit_val)
    finally show ?thesis using False by (subst itoa.simps) simp
  qed
qed

lemma unat16_le: "unat (p :: 16 word) \<le> 65535"
  using unsigned_less [of p, where 'a = nat] by simp

lemma of_nat_port: "n \<le> 65535 \<Longrightarrow> of_nat n = (port :: 16 word) \<longleftrightarrow> n = unat port"
  by (auto simp: unsigned_of_nat take_bit_nat_eq_self)

lemma itoa_not_Nil [simp]: "itoa n \<noteq> []"
  by (subst itoa.simps) simp

lemma ParseUint16_itoa: "n \<le> 65535 \<Longrightarrow> ParseUint16 (itoa n) = Inr n"
  using parse_uint_itoa [of n "[]"] by (simp add: ParseUint16_def)

lemma itoa_digits: "c \<in> set (itoa n) \<Longrightarrow> \<exists>d<10. c = hex_digit d"
proof (induction n rule: itoa.induct)
  case (1 n)
  show ?case
  proof (cases "n < 10")
    case True
    have "itoa n = [hex_digit n]" using True by (subst itoa.simps) simp
    then show ?thesis using 1(2) True by auto
  next
    case False
    have "itoa n = itoa (n div 10) @ [hex_digit (n mod 10)]" using False by (subst itoa.simps) simp
    then have "set (itoa n) = insert (hex_digit (n mod 10)) (set (itoa (n div 10)))" by simp
    then have "c \<in> set (itoa (n div 10)) \<or> c = hex_digit (n mod 10)" using 1(2) by blast
    moreover have "n mod 10 < 10" by simp
    ultimately show ?thesis using 1(1) [OF False] by blast
  qed
qed

lemma itoa_plain: "CHR '':'' \<notin> set (itoa n)" "CHR ''['' \<notin> set (itoa n)" "CHR '']'' \<notin> set (itoa n)"
proof -
  have "list_all (\<lambda>d. hex_digit d \<notin> {CHR '':'', CHR ''['', CHR '']''}) [0..<10]" by code_simp
  then have d: "hex_digit d \<notin> {CHR '':'', CHR ''['', CHR '']''}" if "d < 10" for d
    using that unfolding list_all_iff by (metis atLeastLessThan_iff le0 set_upt)
  have "c \<notin> set (itoa n)" if "c \<in> {CHR '':'', CHR ''['', CHR '']''}" for c
  proof
    assume "c \<in> set (itoa n)"
    then obtain k where "k < 10" "c = hex_digit k" using itoa_digits by blast
    then show False using d [of k] that by blast
  qed
  then show "CHR '':'' \<notin> set (itoa n)" "CHR ''['' \<notin> set (itoa n)" "CHR '']'' \<notin> set (itoa n)"
    by (metis insertCI)+
qed

lemma last_index_append: "c \<notin> set t \<Longrightarrow> last_index c (s @ c # t) = Some (length s)"
  using first_index_append [of c "rev t" "rev s"] by (simp add: last_index_def)

lemma split_join:
  assumes "CHR ''['' \<notin> set host" "CHR '']'' \<notin> set host"
    and "CHR '':'' \<notin> set port" "CHR ''['' \<notin> set port" "CHR '']'' \<notin> set port"
  shows "SplitHostPort (JoinHostPort host port) = Inr (host, port)"
proof (cases "CHR '':'' \<in> set host")
  case True
  let ?hp = "''['' @ host @ '']:'' @ port"
  have i: "last_index CHR '':'' ?hp = Some (length host + 2)"
    using last_index_append [OF assms(3), of "''['' @ host @ '']''"] by simp
  have e: "first_index CHR '']'' ?hp = Some (length host + 1)"
    using first_index_append [of "CHR '']''" "''['' @ host" "'':'' @ port"] assms(2) by simp
  show ?thesis using True i e assms by (simp add: SplitHostPort_def JoinHostPort_def Let_def brackets_ok_def)
next
  case False
  have i: "last_index CHR '':'' (host @ CHR '':'' # port) = Some (length host)"
    by (rule last_index_append [OF assms(3)])
  have "(host @ CHR '':'' # port) ! 0 \<noteq> CHR ''[''" using assms(1) by (cases host) auto
  then show ?thesis using False i assms by (simp add: SplitHostPort_def JoinHostPort_def Let_def brackets_ok_def)
qed

text \<open>
  A string is read as a port number exactly when it is a non-empty string of decimal digits with a
  value of at most 65535; leading zeros are allowed.
\<close>

definition dec_value :: "string \<Rightarrow> nat" where
  "dec_value s = foldl (\<lambda>n c. n * 10 + the (dec_val c)) 0 s"

lemma dec_foldl_mono: "n \<le> foldl (\<lambda>n c. n * 10 + the (dec_val c)) n s"
proof (induction s arbitrary: n)
  case (Cons c s)
  show ?case using order_trans [OF _ Cons.IH [of "n * 10 + the (dec_val c)"], of n] by simp
qed simp

lemma parse_uint_iff:
  "acc \<le> 65535 \<Longrightarrow> parse_uint s acc = Inr n \<longleftrightarrow>
    list_all (\<lambda>c. dec_val c \<noteq> None) s \<and> n = foldl (\<lambda>n c. n * 10 + the (dec_val c)) acc s \<and> n \<le> 65535"
proof (induction s arbitrary: acc)
  case (Cons c s)
  show ?case
  proof (cases "dec_val c")
    case (Some d)
    then show ?thesis
      using Cons.IH [of "acc * 10 + d"] dec_foldl_mono [of "acc * 10 + d" s] by auto
  qed simp
qed auto

lemma ParseUint16_iff:
  "ParseUint16 s = Inr n \<longleftrightarrow> s \<noteq> [] \<and> list_all (\<lambda>c. dec_val c \<noteq> None) s \<and> n = dec_value s \<and> n \<le> 65535"
  using parse_uint_iff [of 0 s n] by (auto simp: ParseUint16_def dec_value_def split: sum.split)

section \<open>Bits of random subnets\<close>

lemma be_word_snoc: "be_word (b @ [x]) = push_bit 8 (be_word b) OR ucast x"
  by (simp add: be_word_def)

lemma addr_bits_append: "addr_bits (a @ b) = addr_bits a @ addr_bits b"
  by (simp add: addr_bits_def)

lemma bit_be_word:
  "length b \<le> 16 \<Longrightarrow> j < 8 * length b \<Longrightarrow> bit (be_word b) j = addr_bits b ! (8 * length b - 1 - j)"
proof (induction b arbitrary: j rule: rev_induct)
  case (snoc x b)
  show ?case
  proof (cases "j < 8")
    case True
    then have i: "8 * length (b @ [x]) - 1 - j = length (addr_bits b) + (7 - j)" by simp
    have "(addr_bits b @ byte_bits x) ! (length (addr_bits b) + (7 - j)) = bit x j"
      using True by (simp only: nth_append_length_plus) (simp add: byte_bits_nth)
    then have "addr_bits (b @ [x]) ! (8 * length (b @ [x]) - 1 - j) = bit x j"
      unfolding i addr_bits_append by (simp add: addr_bits_Cons)
    then show ?thesis using True by (simp add: be_word_snoc bit_simps)
  next
    case False
    have "\<not> bit x j" using False bit_imp_le_length [of x j] by auto
    moreover have "8 * length (b @ [x]) - 1 - j = 8 * length b - 1 - (j - 8)" "8 * length b - 1 - (j - 8) < length (addr_bits b)"
      using False snoc.prems by auto
    ultimately show ?thesis
      using snoc.IH [of "j - 8"] snoc.prems False by (simp add: be_word_snoc addr_bits_append nth_append bit_simps)
  qed
qed simp

lemma word_be_bits: "k < 128 \<Longrightarrow> addr_bits (word_be w) ! k = bit w (127 - k)"
proof -
  assume k: "k < 128"
  have cat: "addr_bits b ! k = byte_bits (b ! (k div 8)) ! (k mod 8)" if "k < 8 * length b" for b :: bytes and k
    using that
  proof (induction b arbitrary: k)
    case (Cons x b)
    show ?case
    proof (cases "k < 8")
      case False
      then have "k div 8 = Suc ((k - 8) div 8)" "k mod 8 = (k - 8) mod 8" by (auto simp: le_div_geq le_mod_geq)
      then show ?thesis using Cons.IH [of "k - 8"] Cons.prems False by (simp add: addr_bits_Cons nth_append)
    qed (simp add: addr_bits_Cons nth_append)
  qed simp
  have "k div 8 < 16" using k by simp
  moreover have "8 * (k div 8) + k mod 8 = k" "k mod 8 < 8" by simp_all
  then have "8 * (15 - k div 8) + (7 - k mod 8) = 127 - k" using \<open>k div 8 < 16\<close> by linarith
  moreover have "7 - k mod 8 < Suc (Suc (Suc (Suc (Suc (Suc (Suc (Suc 0)))))))" by simp
  ultimately show ?thesis
    using cat [of k "word_be w"] k by (simp add: word_be_def byte_bits_nth bit_simps add.commute)
qed

lemma length_word_be [simp]: "length (word_be w) = 16"
  by (simp add: word_be_def)

lemma merge_bits:
  fixes a b m r :: "'a :: len word"
  shows "bit ((a AND (m XOR (- 1))) + ((b AND r) AND m)) j \<longleftrightarrow> (if bit m j then bit b j \<and> bit r j else bit a j)"
proof -
  have "(a AND (m XOR (- 1))) + ((b AND r) AND m) = (a AND (m XOR (- 1))) OR ((b AND r) AND m)"
    by (rule disjunctive_add) (auto simp: bit_simps)
  then show ?thesis using bit_imp_le_length [of a j] by (auto simp: bit_simps)
qed

text \<open>
  A random subnet keeps the first \<open>keepBits\<close> bits of the given address, takes the bits from there to
  \<open>prefixBits\<close> from the random bytes, and has prefix length \<open>prefixBits\<close>.
\<close>

theorem random_subnet_bits:
  assumes "length ip = 16" "length randb = 16" "keepBits \<le> prefixBits" "prefixBits \<le> 128"
  shows "\<exists>a. RandomSubnet randb ip keepBits prefixBits = Inr (NewSubnet a (CIDRMask (int prefixBits) 128)) \<and>
    length a = 16 \<and>
    (\<forall>k < 128. addr_bits a ! k =
       (if k < keepBits then addr_bits ip ! k else k < prefixBits \<and> addr_bits (rev randb) ! k))"
proof -
  let ?km = "drop_bit keepBits (- 1) :: 128 word"
  let ?kv = "be_word ip AND (?km XOR (- 1))"
  let ?rv = "(be_word (rev randb) AND push_bit (128 - prefixBits) (- 1)) AND ?km"
  have "addr_bits (word_be (?kv + ?rv)) ! k =
       (if k < keepBits then addr_bits ip ! k else k < prefixBits \<and> addr_bits (rev randb) ! k)" if "k < 128" for k
  proof -
    have "bit (be_word ip) (127 - k) = addr_bits ip ! k" "bit (be_word (rev randb)) (127 - k) = addr_bits (rev randb) ! k"
      using bit_be_word [of ip "127 - k"] bit_be_word [of "rev randb" "127 - k"] assms(1,2) that by simp_all
    moreover have "bit ?km (127 - k) \<longleftrightarrow> keepBits \<le> k" using that by (auto simp: bit_simps)
    moreover have "bit (push_bit (128 - prefixBits) (- 1) :: 128 word) (127 - k) \<longleftrightarrow> k < prefixBits"
      using that assms(4) by (auto simp: bit_simps)
    ultimately show ?thesis
      unfolding word_be_bits [OF that] merge_bits by (simp only: if_distrib) (use assms(3) in auto)
  qed
  then show ?thesis using assms by (auto simp: RandomSubnet_def Let_def)
qed

theorem random_subnet_bits_witness:
  "\<exists>a. RandomSubnet (replicate 16 0xff) (0xfd # replicate 15 0) 8 64 = Inr (NewSubnet a (CIDRMask 64 128)) \<and> length a = 16"
  using random_subnet_bits [of "0xfd # replicate 15 0" "replicate 16 0xff" 8 64] by auto

section \<open>Text and JSON of messages\<close>

definition OOBMessage_String :: "OOBMessage \<Rightarrow> string" where
  "OOBMessage_String oob =
     ''from '' @ IP_String (SourceAddr oob) @ '':'' @ itoa (unat (SourcePort oob)) @ '' to '' @ IP_String (DestAddr oob)
       @ '':'' @ itoa (unat (DestPort oob)) @ '': '' @ itoa (length (Data oob)) @ '' bytes''"

definition RouteOOBMessage_String :: "OOBMessage \<Rightarrow> string" where
  "RouteOOBMessage_String rm = OOBMessage_String rm"

definition RoutingUpdate_String :: "RoutingUpdate \<Rightarrow> string" where
  "RoutingUpdate_String ru =
     IP_String (Origin ru) @ ''/'' @ itoa (unat (UpdateEpoch ru)) @ ''/'' @ itoa (unat (UpdateSequence ru))"

definition OOBAddr_String :: "ip \<times> 16 word \<Rightarrow> string" where
  "OOBAddr_String = (\<lambda>(host, port). JoinHostPort (IP_String host) (itoa (unat port)))"

text \<open>
  The connections of an update as a JSON object from subnets to costs; \<open>encoding/json\<close> on maps from strings to
  \<open>float32\<close> is an argument. The first key that does not parse ends the decoder with its error.
\<close>

record cost_codec =
  enc_costs :: "(string, f32) gomap \<Rightarrow> bytes result"
  dec_costs :: "bytes \<Rightarrow> (string, f32) gomap result"

definition RoutingConns_MarshalJSON :: "cost_codec \<Rightarrow> RoutingConns \<Rightarrow> bytes result" where
  "RoutingConns_MarshalJSON j rc = enc_costs j (fold (\<lambda>(k, v) m. go_set m (Subnet_String k) v) rc [])"

fun parse_conns :: "(string \<times> f32) list \<Rightarrow> RoutingConns \<Rightarrow> RoutingConns result" where
  "parse_conns [] newRc = Inr newRc"
| "parse_conns ((k, v) # m) newRc =
     (case ParseCIDR k of Inl err \<Rightarrow> Inl err | Inr (_, s) \<Rightarrow> parse_conns m (go_set newRc s v))"

definition RoutingConns_UnmarshalJSON :: "cost_codec \<Rightarrow> bytes \<Rightarrow> RoutingConns result" where
  "RoutingConns_UnmarshalJSON j data =
     (case dec_costs j data of Inl err \<Rightarrow> Inl err | Inr m \<Rightarrow> parse_conns m [])"

text \<open>The subnets whose text is read back.\<close>

definition cidr_subnet :: "subnet \<Rightarrow> bool" where
  "cidr_subnet s \<longleftrightarrow> (\<exists>a n. (length a = 4 \<or> length a = 16) \<and> n \<le> 8 * length a
     \<and> s = NewSubnet a (CIDRMask (int n) (int (8 * length a))) \<and> (length a = 16 \<longrightarrow> net_To4 (Subnet_IP s) = None))"

lemma cidr_subnet_parse: "cidr_subnet s \<Longrightarrow> \<exists>ip. ParseCIDR (Subnet_String s) = Inr (ip, s)"
  unfolding cidr_subnet_def using ParseCIDR_Subnet_String by blast

lemma Subnet_String_inj: "cidr_subnet s \<Longrightarrow> cidr_subnet t \<Longrightarrow> Subnet_String s = Subnet_String t \<Longrightarrow> s = t"
proof -
  assume "cidr_subnet s" "cidr_subnet t" and e: "Subnet_String s = Subnet_String t"
  then obtain ip ip' where "ParseCIDR (Subnet_String s) = Inr (ip, s)" "ParseCIDR (Subnet_String t) = Inr (ip', t)"
    using cidr_subnet_parse by meson
  then show "s = t" unfolding e by simp
qed

lemma parse_conns_printed:
  "\<forall>k\<in>set (go_keys rc). cidr_subnet k \<Longrightarrow>
   parse_conns (map (\<lambda>(k, v). (Subnet_String k, v)) rc) acc = Inr (fold (\<lambda>(k, v) m. go_set m k v) rc acc)"
proof (induction rc arbitrary: acc)
  case (Cons kv rc)
  obtain k v where kv: "kv = (k, v)" by fastforce
  obtain ip where "ParseCIDR (Subnet_String k) = Inr (ip, k)" using cidr_subnet_parse [of k] Cons.prems kv by auto
  then show ?case using Cons kv by simp
qed simp

lemma fold_set_distinct:
  assumes "distinct (map fst xs)" "set (map fst m) \<inter> set (map fst xs) = {}"
  shows "fold (\<lambda>(k, v) m. go_set m k v) xs m = m @ xs"
  using assms
proof (induction xs arbitrary: m)
  case (Cons kv xs)
  obtain k v where kv: "kv = (k, v)" by fastforce
  have "k \<notin> set (map fst m)" using Cons.prems(2) kv by auto
  then have "go_set m k v = m @ [(k, v)]" by (induction m) auto
  then show ?case using Cons kv by auto
qed simp

text \<open>
  The connections of an update survive their JSON form: when the coder for maps is inverted by its decoder,
  decoding the encoded connections yields them, for unique subnets that are read back.
\<close>

theorem conns_json_roundtrip:
  assumes "go_wf rc" "\<forall>k\<in>set (go_keys rc). cidr_subnet k"
    and "\<And>m d. enc_costs j m = Inr d \<Longrightarrow> dec_costs j d = Inr m" "RoutingConns_MarshalJSON j rc = Inr data"
  shows "RoutingConns_UnmarshalJSON j data = Inr rc"
proof -
  let ?p = "map (\<lambda>(k, v). (Subnet_String k, v)) rc"
  have "inj_on Subnet_String (set (go_keys rc))" using assms(2) Subnet_String_inj by (auto simp: inj_on_def)
  moreover have "map fst ?p = map Subnet_String (go_keys rc)" by (simp add: comp_def case_prod_beta)
  ultimately have "distinct (map fst ?p)" using assms(1) unfolding go_wf_def by (simp only: distinct_map)
  then have "fold (\<lambda>(k, v) m. go_set m (Subnet_String k) v) rc [] = ?p"
    using fold_set_distinct [of ?p "[]"] by (simp add: fold_map comp_def case_prod_beta')
  moreover have "parse_conns ?p [] = Inr rc"
    using parse_conns_printed [OF assms(2), of "[]"] fold_set_distinct [of rc "[]"] assms(1) by (simp add: go_wf_def)
  ultimately show ?thesis
    using assms(3,4) by (auto simp: RoutingConns_MarshalJSON_def RoutingConns_UnmarshalJSON_def)
qed

text \<open>A coder for examples that only knows one object.\<close>

theorem conns_json_roundtrip_witness:
  "RoutingConns_UnmarshalJSON \<lparr>enc_costs = \<lambda>m. if m = [(Subnet_String [10, 0, 0, 0, 255, 0, 0, 0], Fin 1)] then Inr [1] else Inl ErrSyntax,
      dec_costs = \<lambda>_. Inr [(Subnet_String [10, 0, 0, 0, 255, 0, 0, 0], Fin 1)]\<rparr> [1] = Inr [([10, 0, 0, 0, 255, 0, 0, 0], Fin 1)]"
proof (rule conns_json_roundtrip)
  have "[10, 0, 0, 0, 255, 0, 0, 0] = NewSubnet [10, 0, 0, 0] (CIDRMask (int 8) (int (8 * length [10 :: byte, 0, 0, 0])))"
    by code_simp
  then show "\<forall>k\<in>set (go_keys [([10, 0, 0, 0, 255, 0, 0, 0], Fin 1)]). cidr_subnet k"
    unfolding cidr_subnet_def by (intro ballI exI [of _ "[10, 0, 0, 0]"] exI [of _ 8]) simp_all
qed (auto simp: go_wf_def RoutingConns_MarshalJSON_def split: if_splits)

end
