(* ===== verification/Router.thy ===== *)
theory Router
  imports Messages Relaxation
begin

text \<open>
  \<^verbatim>\<open>pkg/router/router.go\<close>: the link-state router of one node.

  \<open>router\<close> is the struct; its timer (\<open>golib/timerunner\<close>) and its broker (\<open>golib/broker\<close>) are
  represented by what is asked of them, the durations passed to \<open>RunWithin\<close> and the policies
  published. \<open>UpdateNode\<close>, \<open>RemoveNode\<close>, \<open>recalculate\<close>, \<open>NextHop\<close> and \<open>Nodes\<close> are the operations.

  \<open>recalculate\<close> takes two arguments that stand for code outside the repository. \<open>pq\<close> is the
  priority queue of \<open>jupp0r/go-priority-queue\<close>, used through the locale \<open>prio_queue\<close>: \<open>Insert\<close> makes
  an element present and \<open>Pop\<close> removes and returns one (no proof needs to know which). \<open>o\<close> gives the
  order of each \<open>range\<close> loop over a Go map, which the language leaves open. Its loop and the walk
  along the predecessors are partial functions; \<open>None\<close> is a loop that does not end.
\<close>

section \<open>State and parameters\<close>

record router =
  myAddr :: ip
  nodes :: "(ip, RoutingConns option) gomap"
  policy :: RoutingPolicy
  updateWait :: time
  tr :: "time list"
  updatesBroker :: "RoutingPolicy list"

record 'q pq_ops =
  pq_New :: 'q
  pq_Insert :: "'q \<Rightarrow> ip \<Rightarrow> f32 \<Rightarrow> 'q"
  pq_Len :: "'q \<Rightarrow> nat"
  pq_Pop :: "'q \<Rightarrow> (ip \<times> 'q) option"

text \<open>The \<open>range\<close> loops of the file; a loop that runs many times has an index.\<close>

datatype range_site =
    RNodes | RPeers ip | RConns ip ip | RNodeConns ip | RInit | REdges nat | RDests
  | RSubnets | RCandidates subnet

record orders =
  ord_ip :: "range_site \<Rightarrow> ip list \<Rightarrow> ip list"
  ord_sn :: "range_site \<Rightarrow> subnet list \<Rightarrow> subnet list"

definition orders_ok :: "orders \<Rightarrow> bool" where
  "orders_ok o' \<longleftrightarrow> (\<forall>s. is_order (ord_ip o' s)) \<and> (\<forall>s. is_order (ord_sn o' s))"

section \<open>Operations\<close>

definition router_New :: "ip \<Rightarrow> time \<Rightarrow> router" where
  "router_New addr wait =
     \<lparr>myAddr = addr, nodes = [], policy = [], updateWait = wait, tr = [], updatesBroker = []\<rparr>"

text \<open>
  \<open>reflect.DeepEqual\<close> on two routing connection maps: a nil map equals only a nil map, and costs
  compare as floats, so a NaN makes two maps different.
\<close>

definition DeepEqual_conns :: "RoutingConns option \<Rightarrow> RoutingConns option \<Rightarrow> bool" where
  "DeepEqual_conns a b =
     (case (a, b) of
        (None, None) \<Rightarrow> True
      | (Some x, Some y) \<Rightarrow>
          length x = length y \<and>
          list_all (\<lambda>(k, v). case go_get y k of None \<Rightarrow> False | Some w \<Rightarrow> f32_eq v w) x
      | _ \<Rightarrow> False)"

text \<open>Panics, modelled as an error, when the node is the empty string.\<close>

definition UpdateNode :: "router \<Rightarrow> ip \<Rightarrow> RoutingConns option \<Rightarrow> router result" where
  "UpdateNode r node conns =
     (if node = [] then Inl (Errorf ''router node cannot be empty string'')
      else if DeepEqual_conns (go_get_or None (nodes r) node) conns then Inr r
      else Inr (r\<lparr>nodes := go_set (nodes r) node conns, tr := tr r @ [updateWait r]\<rparr>))"

definition RemoveNode :: "router \<Rightarrow> ip \<Rightarrow> router" where
  "RemoveNode r node =
     (if go_get (nodes r) node \<noteq> None
      then r\<lparr>nodes := go_del (nodes r) node, tr := tr r @ [updateWait r]\<rparr>
      else r)"

definition conns_of :: "(ip, RoutingConns option) gomap \<Rightarrow> ip \<Rightarrow> RoutingConns" where
  "conns_of ns node = (case go_get_or None ns node of None \<Rightarrow> [] | Some cs \<Rightarrow> cs)"

text \<open>The first loop of \<open>recalculate\<close>: the links between known nodes, and the other subnets.\<close>

definition node_links ::
    "orders \<Rightarrow> (ip, RoutingConns option) gomap \<Rightarrow> ip \<Rightarrow> (ip, f32) gomap" where
  "node_links o' ns node =
     fold (\<lambda>peer links.
         fold (\<lambda>(conn, cost) links. if Subnet_Contains conn peer then go_set links peer cost else links)
           (range_by (ord_sn o' (RConns node peer)) (conns_of ns node)) links)
       (ord_ip o' (RPeers node) (go_keys ns)) []"

definition add_candidate ::
    "(ip, RoutingConns option) gomap \<Rightarrow> ip \<Rightarrow> subnet \<Rightarrow> (subnet, (ip, unit) gomap) gomap \<Rightarrow>
       (subnet, (ip, unit) gomap) gomap" where
  "add_candidate ns node conn subnets =
     (if Subnet_Prefix conn = 128 \<and> go_get ns (Subnet_IP conn) \<noteq> None then subnets
      else go_set subnets conn (go_set (go_get_or [] subnets conn) node ()))"

definition node_subnets ::
    "orders \<Rightarrow> (ip, RoutingConns option) gomap \<Rightarrow> ip \<Rightarrow> (subnet, (ip, unit) gomap) gomap \<Rightarrow>
       (subnet, (ip, unit) gomap) gomap" where
  "node_subnets o' ns node subnets =
     fold (add_candidate ns node) (ord_sn o' (RNodeConns node) (go_keys (conns_of ns node))) subnets"

definition collect_links ::
    "orders \<Rightarrow> (ip, RoutingConns option) gomap \<Rightarrow>
       (ip, (ip, f32) gomap) gomap \<times> (subnet, (ip, unit) gomap) gomap" where
  "collect_links o' ns =
     fold (\<lambda>node (interconnect, subnets).
         (go_set interconnect node (node_links o' ns node), node_subnets o' ns node subnets))
       (ord_ip o' RNodes (go_keys ns)) ([], [])"

text \<open>The second loop: the initial queue, costs and predecessors.\<close>

type_synonym 'q dstate = "'q \<times> (ip, f32) gomap \<times> (ip, ip) gomap"

definition init_labels ::
    "'q pq_ops \<Rightarrow> orders \<Rightarrow> ip \<Rightarrow> (ip, RoutingConns option) gomap \<Rightarrow> 'q dstate" where
  "init_labels pq o' me ns =
     fold (\<lambda>node (Q, cost, prev).
         (let c = (if node = me then f32_zero else f32_max)
          in (pq_Insert pq Q node c, go_set cost node c, go_set prev node [])))
       (ord_ip o' RInit (go_keys ns)) (pq_Insert pq (pq_New pq) me f32_zero, [], [])"

definition relax_edge :: "'q pq_ops \<Rightarrow> ip \<Rightarrow> ip \<times> f32 \<Rightarrow> 'q dstate \<Rightarrow> 'q dstate" where
  "relax_edge pq node = (\<lambda>(neighbor, edgeCost) (Q, cost, prev).
     (let pathCost = f32_add (go_get_or f32_zero cost node) edgeCost
      in if f32_less pathCost (go_get_or f32_zero cost neighbor)
         then (pq_Insert pq Q neighbor pathCost, go_set cost neighbor pathCost, go_set prev neighbor node)
         else (Q, cost, prev)))"

text \<open>The main loop, with the number of elements popped so far.\<close>

partial_function (option) dijkstra ::
    "'q pq_ops \<Rightarrow> orders \<Rightarrow> (ip, (ip, f32) gomap) gomap \<Rightarrow> nat \<Rightarrow> 'q dstate \<Rightarrow>
       ((ip, f32) gomap \<times> (ip, ip) gomap) option" where
  [code]: "dijkstra pq o' interconnect n st =
     (case st of (Q, cost, prev) \<Rightarrow>
        if pq_Len pq Q = 0 then Some (cost, prev)
        else case pq_Pop pq Q of
               None \<Rightarrow> None
             | Some (node, Q') \<Rightarrow>
                 dijkstra pq o' interconnect (Suc n)
                   (fold (relax_edge pq node)
                      (range_by (ord_ip o' (REdges n)) (go_get_or [] interconnect node)) (Q', cost, prev)))"

text \<open>The walk from a destination back towards this node; the result is the first hop, if any.\<close>

partial_function (option) first_hop :: "ip \<Rightarrow> (ip, ip) gomap \<Rightarrow> ip \<Rightarrow> ip option option" where
  [code]: "first_hop me prev p =
     (if go_get_or [] prev p = me then Some (Some p)
      else if go_get_or [] prev p = [] then Some None
      else first_hop me prev (go_get_or [] prev p))"

fun host_policy :: "ip \<Rightarrow> (ip, ip) gomap \<Rightarrow> ip list \<Rightarrow> RoutingPolicy \<Rightarrow> RoutingPolicy option" where
  "host_policy me prev [] np = Some np"
| "host_policy me prev (dest # dests) np =
     (case first_hop me prev dest of
        None \<Rightarrow> None
      | Some None \<Rightarrow> host_policy me prev dests np
      | Some (Some p) \<Rightarrow> host_policy me prev dests (go_set np (NewHostOnlySubnet dest) p))"

definition best_candidate :: "(ip, f32) gomap \<Rightarrow> RoutingPolicy \<Rightarrow> ip list \<Rightarrow> ip" where
  "best_candidate cost np candidates =
     fst (fold (\<lambda>candidate (best, lowest).
            (let via = go_get_or [] np (NewHostOnlySubnet candidate)
             in if f32_less (go_get_or f32_zero cost via) lowest
                then (via, go_get_or f32_zero cost via) else (best, lowest)))
          candidates ([], f32_max))"

definition subnet_step ::
    "orders \<Rightarrow> (ip, f32) gomap \<Rightarrow> subnet \<times> (ip, unit) gomap \<Rightarrow> RoutingPolicy \<Rightarrow> RoutingPolicy" where
  "subnet_step o' cost = (\<lambda>(subnet, candidates) np.
     (let best = best_candidate cost np (ord_ip o' (RCandidates subnet) (go_keys candidates))
      in if best \<noteq> [] then go_set np subnet best else np))"

definition subnet_policy ::
    "orders \<Rightarrow> (ip, f32) gomap \<Rightarrow> (subnet, (ip, unit) gomap) gomap \<Rightarrow> RoutingPolicy \<Rightarrow> RoutingPolicy" where
  "subnet_policy o' cost subnets np =
     fold (subnet_step o' cost) (range_by (ord_sn o' RSubnets) subnets) np"

definition new_policy ::
    "'q pq_ops \<Rightarrow> orders \<Rightarrow> ip \<Rightarrow> (ip, RoutingConns option) gomap \<Rightarrow> RoutingPolicy option" where
  "new_policy pq o' me ns =
     (case collect_links o' ns of (interconnect, subnets) \<Rightarrow>
        case dijkstra pq o' interconnect 0 (init_labels pq o' me ns) of
          None \<Rightarrow> None
        | Some (cost, prev) \<Rightarrow>
            map_option (subnet_policy o' cost subnets)
              (host_policy me prev (ord_ip o' RDests (go_keys ns)) []))"

definition policy_changed :: "RoutingPolicy \<Rightarrow> RoutingPolicy \<Rightarrow> bool" where
  "policy_changed old new \<longleftrightarrow>
     length old \<noteq> length new \<or> list_ex (\<lambda>(k, v). go_get new k \<noteq> Some v) old"

definition recalculate :: "'q pq_ops \<Rightarrow> orders \<Rightarrow> router \<Rightarrow> router option" where
  "recalculate pq o' r =
     (case new_policy pq o' (myAddr r) (nodes r) of
        None \<Rightarrow> None
      | Some np \<Rightarrow>
          Some (r\<lparr>policy := (if policy_changed (policy r) np then np else policy r),
                  updatesBroker := updatesBroker r @ [np]\<rparr>))"

definition ErrNoRouteToHost :: go_error where
  "ErrNoRouteToHost = Errorf ''no route to host''"

definition next_hop_step :: "ip \<Rightarrow> subnet \<times> ip \<Rightarrow> ip \<times> int \<Rightarrow> ip \<times> int" where
  "next_hop_step dest = (\<lambda>(k, v) (hop, longestPrefix).
     if Subnet_Contains k dest \<and> int (Subnet_Prefix k) > longestPrefix
     then (v, int (Subnet_Prefix k)) else (hop, longestPrefix))"

definition NextHop :: "router \<Rightarrow> ip \<Rightarrow> ip result" where
  "NextHop r dest =
     (case fold (next_hop_step dest) (policy r) ([], - 1) of (hop, longestPrefix) \<Rightarrow>
        if longestPrefix = - 1 then Inl ErrNoRouteToHost else Inr hop)"

definition Nodes :: "router \<Rightarrow> RoutingNodes" where
  "Nodes r =
     fold (\<lambda>(k, v) nodesCopy. go_set nodesCopy k
         (fold (\<lambda>(k2, v2) c. go_set c k2 v2) (case v of None \<Rightarrow> [] | Some cs \<Rightarrow> cs) []))
       (nodes r) []"

section \<open>The priority queue\<close>

text \<open>
  What the router relies on in the priority queue: a set of elements, to which \<open>Insert\<close> adds one
  (nothing happens when it is present), from which \<open>Pop\<close> takes one, and whose size is \<open>Len\<close>.
\<close>

locale prio_queue =
  fixes pq :: "'q pq_ops" and elems :: "'q \<Rightarrow> ip set" and qinv :: "'q \<Rightarrow> bool"
  assumes elems_New: "elems (pq_New pq) = {}" and qinv_New: "qinv (pq_New pq)"
    and elems_Insert: "qinv q \<Longrightarrow> elems (pq_Insert pq q x p) = insert x (elems q)"
    and qinv_Insert: "qinv q \<Longrightarrow> qinv (pq_Insert pq q x p)"
    and finite_elems: "qinv q \<Longrightarrow> finite (elems q)"
    and Len_card: "qinv q \<Longrightarrow> pq_Len pq q = card (elems q)"
    and Pop_elems: "qinv q \<Longrightarrow> elems q \<noteq> {} \<Longrightarrow>
      \<exists>x q'. pq_Pop pq q = Some (x, q') \<and> x \<in> elems q \<and> elems q' = elems q - {x} \<and> qinv q'"

text \<open>A queue that keeps its elements sorted by priority.\<close>

fun list_pq_insert :: "(ip \<times> f32) list \<Rightarrow> ip \<Rightarrow> f32 \<Rightarrow> (ip \<times> f32) list" where
  "list_pq_insert [] x p = [(x, p)]"
| "list_pq_insert ((y, p') # q) x p =
     (if f32_less p p' then (x, p) # (y, p') # q else (y, p') # list_pq_insert q x p)"

definition list_pq :: "(ip \<times> f32) list pq_ops" where
  "list_pq =
     \<lparr>pq_New = [],
      pq_Insert = (\<lambda>q x p. if x \<in> set (map fst q) then q else list_pq_insert q x p),
      pq_Len = length,
      pq_Pop = (\<lambda>q. case q of [] \<Rightarrow> None | (x, _) # q' \<Rightarrow> Some (x, q'))\<rparr>"

lemma set_list_pq_insert [simp]: "set (list_pq_insert q x p) = insert (x, p) (set q)"
  by (induction q x p rule: list_pq_insert.induct) auto

lemma distinct_list_pq_insert [simp]:
  "x \<notin> fst ` set q \<Longrightarrow> distinct (map fst (list_pq_insert q x p)) = distinct (map fst q)"
  by (induction q x p rule: list_pq_insert.induct) auto

interpretation lpq: prio_queue list_pq "\<lambda>q. fst ` set q" "\<lambda>q. distinct (map fst q)"
proof
  fix q :: "(ip \<times> f32) list"
  assume d: "distinct (map fst q)"
  then show "pq_Len list_pq q = card (fst ` set q)"
    using distinct_card [OF d] by (simp add: list_pq_def)
  assume "fst ` set q \<noteq> {}"
  with d show "\<exists>x q'. pq_Pop list_pq q = Some (x, q') \<and> x \<in> fst ` set q
      \<and> fst ` set q' = fst ` set q - {x} \<and> distinct (map fst q')"
    by (cases q) (auto simp: list_pq_def)
qed (auto simp: list_pq_def)

section \<open>The graph of the known nodes\<close>

text \<open>The cost of the link from \<open>u\<close> to \<open>v\<close> in the collected interconnection.\<close>

definition link :: "orders \<Rightarrow> (ip, RoutingConns option) gomap \<Rightarrow> ip \<Rightarrow> ip \<Rightarrow> f32 option" where
  "link o' ns u v = go_get (go_get_or [] (fst (collect_links o' ns)) u) v"

lemma orders_okD [simp]: "orders_ok o' \<Longrightarrow> is_order (ord_ip o' s)" "orders_ok o' \<Longrightarrow> is_order (ord_sn o' s)"
  by (simp_all add: orders_ok_def)

lemma fst_collect_links:
  "fst (collect_links o' ns) =
     fold (\<lambda>node m. go_set m node (node_links o' ns node)) (ord_ip o' RNodes (go_keys ns)) []"
proof -
  have "fst (fold (\<lambda>node (ic, sn). (go_set ic node (f node), g node sn)) xs (a, b))
      = fold (\<lambda>node m. go_set m node (f node)) xs a" for f g xs a b
    by (induction xs arbitrary: a b) simp_all
  then show ?thesis by (simp add: collect_links_def)
qed

lemma link_node_links:
  assumes "orders_ok o'"
  shows "link o' ns u v = (if u \<in> set (go_keys ns) then go_get (node_links o' ns u) v else None)"
  using assms
  by (simp add: link_def fst_collect_links go_get_or_def gm.get_fold_put_fun split: option.split)

text \<open>One peer's entry is the cost of one of the connections whose subnet contains it.\<close>

lemma get_fold_matching:
  fixes links :: "(ip, f32) gomap"
  defines "step \<equiv> \<lambda>peer (conn, cost) (links :: (ip, f32) gomap).
      if Subnet_Contains conn peer then go_set links peer cost else links"
  shows "go_get (fold (step peer) cs links) v =
     (if v = peer \<and> filter (\<lambda>(c, _). Subnet_Contains c v) cs \<noteq> []
      then Some (snd (last (filter (\<lambda>(c, _). Subnet_Contains c v) cs))) else go_get links v)"
  unfolding step_def
  by (induction cs arbitrary: links) (auto simp: gomap_simps split: if_splits)

definition matching :: "orders \<Rightarrow> (ip, RoutingConns option) gomap \<Rightarrow> ip \<Rightarrow> ip \<Rightarrow> (subnet \<times> f32) list" where
  "matching o' ns u v =
     filter (\<lambda>(c, _). Subnet_Contains c v) (range_by (ord_sn o' (RConns u v)) (conns_of ns u))"

lemma get_node_links:
  assumes "orders_ok o'"
  shows "go_get (node_links o' ns u) v =
     (if v \<in> set (go_keys ns) \<and> matching o' ns u v \<noteq> [] then Some (snd (last (matching o' ns u v))) else None)"
proof -
  have "go_get (fold (\<lambda>peer. fold (\<lambda>(conn, cost) links.
        if Subnet_Contains conn peer then go_set links peer cost else links)
          (range_by (ord_sn o' (RConns u peer)) (conns_of ns u))) ps links) v
      = (if v \<in> set ps \<and> matching o' ns u v \<noteq> [] then Some (snd (last (matching o' ns u v))) else go_get links v)"
    for ps links
    by (induction ps arbitrary: links) (auto simp: get_fold_matching matching_def)
  then show ?thesis using assms by (simp add: node_links_def)
qed

text \<open>
  Every link is backed by a connection that the one node advertises and whose subnet contains the
  other, at the cost of such a connection, and no such connection between known nodes is lost.
\<close>

lemma link_sound:
  assumes "orders_ok o'" "link o' ns u v = Some e"
  shows "u \<in> set (go_keys ns)" "v \<in> set (go_keys ns)"
    and "\<exists>conn. go_get (conns_of ns u) conn = Some e \<and> Subnet_Contains conn v"
proof -
  have "last (matching o' ns u v) \<in> set (matching o' ns u v)" if "matching o' ns u v \<noteq> []"
    using that by simp
  then show "u \<in> set (go_keys ns)" "v \<in> set (go_keys ns)"
    "\<exists>conn. go_get (conns_of ns u) conn = Some e \<and> Subnet_Contains conn v"
    using assms by (auto simp: link_node_links get_node_links matching_def in_range_by split: if_splits)
qed

lemma link_complete:
  assumes "orders_ok o'" "u \<in> set (go_keys ns)" "v \<in> set (go_keys ns)"
    and "go_get (conns_of ns u) conn = Some c" "Subnet_Contains conn v"
  shows "link o' ns u v \<noteq> None"
proof -
  have "(conn, c) \<in> set (matching o' ns u v)"
    using assms by (simp add: matching_def in_range_by)
  then show ?thesis using assms by (auto simp: link_node_links get_node_links)
qed

text \<open>The costs the route calculation is meant for: no negative number and no NaN.\<close>

definition costs_ok :: "(ip, RoutingConns option) gomap \<Rightarrow> bool" where
  "costs_ok ns \<longleftrightarrow> list_all (\<lambda>(_, cs). case cs of None \<Rightarrow> True | Some cs \<Rightarrow> list_all (\<lambda>(_, c). f32_cost c) cs) ns"

lemma costs_okD: "costs_ok ns \<Longrightarrow> go_get (conns_of ns u) conn = Some c \<Longrightarrow> f32_cost c"
  by (fastforce simp: costs_ok_def conns_of_def go_get_or_def list_all_iff split: option.splits
      dest!: map_of_SomeD)

text \<open>The overlay's addresses are IPv6 addresses.\<close>

definition nodes_ok :: "(ip, RoutingConns option) gomap \<Rightarrow> bool" where
  "nodes_ok ns \<longleftrightarrow> go_wf ns \<and> list_all (\<lambda>a. length a = 16) (go_keys ns)"

lemma nodes_okD: "nodes_ok ns \<Longrightarrow> v \<in> set (go_keys ns) \<Longrightarrow> length v = 16"
  by (auto simp: nodes_ok_def list_all_iff)

lemma link_graph_ok:
  "orders_ok o' \<Longrightarrow> costs_ok ns \<Longrightarrow> nodes_ok ns \<Longrightarrow> f32l.graph_ok (link o' ns) (set (go_keys ns)) []"
  unfolding f32l.graph_ok_def
proof (intro conjI allI impI)
  assume a: "orders_ok o'" "costs_ok ns" "nodes_ok ns"
  show "[] \<notin> set (go_keys ns)" using nodes_okD [OF a(3), of "[]"] by auto
  fix u v e
  assume "link o' ns u v = Some e"
  from link_sound [OF a(1) this] costs_okD [OF a(2)]
  show "u \<in> set (go_keys ns)" "v \<in> set (go_keys ns)" "f32_cost e" by blast+
qed

section \<open>The main loop\<close>

abbreviation lab :: "(ip, f32) gomap \<Rightarrow> ip \<Rightarrow> f32" where
  "lab cost \<equiv> go_get_or f32_zero cost"

abbreviation prd :: "(ip, ip) gomap \<Rightarrow> ip \<Rightarrow> ip" where
  "prd prev \<equiv> go_get_or [] prev"

lemma lab_set: "lab (go_set cost v c) = (lab cost)(v := c)"
  by (rule ext) (simp add: gomap_simps)

lemma prd_set: "prd (go_set prev v u) = (prd prev)(v := u)"
  by (rule ext) (simp add: gomap_simps)

text \<open>The sum of the ranks of the labels: it falls whenever a label does.\<close>

definition rank_sum :: "ip set \<Rightarrow> (ip, f32) gomap \<Rightarrow> nat" where
  "rank_sum V cost = (\<Sum>v\<in>V. f32_rank (lab cost v))"

lemma rank_sum_less:
  assumes "finite V" "v \<in> V" "f32_less (f32_add a b) (lab cost v)"
  shows "rank_sum V (go_set cost v (f32_add a b)) < rank_sum V cost"
  unfolding rank_sum_def
  by (rule sum_strict_mono_ex1) (use assms f32_rank_add [OF assms(3)] in \<open>auto simp: gomap_simps\<close>)

context prio_queue
begin

lemma relax_fold_decreases:
  assumes "finite V" "\<And>v e. (v, e) \<in> set es \<Longrightarrow> v \<in> V" "qinv Q"
  shows "\<exists>Q' cost' prev'. fold (relax_edge pq node) es (Q, cost, prev) = (Q', cost', prev') \<and> qinv Q' \<and>
     (rank_sum V cost' < rank_sum V cost \<or> Q' = Q \<and> cost' = cost)"
  using assms(2,3)
proof (induction es arbitrary: Q cost prev)
  case (Cons x es)
  obtain v e where x: "x = (v, e)" by (cases x)
  let ?pc = "f32_add (lab cost node) e"
  have IH: "\<exists>Q'' c'' p''. fold (relax_edge pq node) es (Q', c', p') = (Q'', c'', p'') \<and> qinv Q'' \<and>
      (rank_sum V c'' < rank_sum V c' \<or> Q'' = Q' \<and> c'' = c')" if "qinv Q'" for Q' c' p'
    by (rule Cons.IH [OF _ that]) (use Cons.prems(1) in auto)
  show ?case
  proof (cases "f32_less ?pc (lab cost v)")
    case True
    have "rank_sum V (go_set cost v ?pc) < rank_sum V cost"
      using rank_sum_less [OF assms(1) _ True] Cons.prems(1) [of v e] x by simp
    then show ?thesis
      using True IH [OF qinv_Insert [OF Cons.prems(2)]] by (fastforce simp: relax_edge_def x Let_def)
  next
    case False
    then show ?thesis using IH [OF Cons.prems(2)] by (simp add: relax_edge_def x Let_def)
  qed
qed simp

text \<open>
  The loop ends whatever the link costs are, negative ones and NaNs included: each round either
  lowers a label or takes an element off the queue without adding one. It keeps what a round keeps.
\<close>

lemma dijkstra_rule:
  assumes "finite V" "\<And>u v e. go_get (go_get_or [] ic u) v = Some e \<Longrightarrow> v \<in> V" "orders_ok o'"
    and step: "\<And>n Q cost prev x Q1 Q' cost' prev'. I Q cost prev \<Longrightarrow> x \<in> elems Q \<Longrightarrow> elems Q1 = elems Q - {x} \<Longrightarrow>
      qinv Q1 \<Longrightarrow> fold (relax_edge pq x) (range_by (ord_ip o' (REdges n)) (go_get_or [] ic x)) (Q1, cost, prev)
        = (Q', cost', prev') \<Longrightarrow> I Q' cost' prev'"
    and "qinv Q" "I Q cost prev"
  shows "\<exists>Q' cost' prev'. dijkstra pq o' ic n (Q, cost, prev) = Some (cost', prev') \<and> elems Q' = {} \<and> I Q' cost' prev'"
  using assms(5,6)
proof (induction "(rank_sum V cost, card (elems Q))" arbitrary: Q cost prev n
    rule: wf_induct_rule [OF wf_lex_prod [OF wf_less_than wf_less_than]])
  case 1
  show ?case
  proof (cases "elems Q = {}")
    case True
    then show ?thesis by (subst dijkstra.simps) (use 1(3) in \<open>auto simp: Len_card [OF 1(2)]\<close>)
  next
    case False
    then obtain x Q1 where pop: "pq_Pop pq Q = Some (x, Q1)" "x \<in> elems Q" "elems Q1 = elems Q - {x}" "qinv Q1"
      using Pop_elems [OF 1(2)] by blast
    let ?es = "range_by (ord_ip o' (REdges n)) (go_get_or [] ic x)"
    have "v \<in> V" if "(v, e) \<in> set ?es" for v e
      using that assms(2,3) by (auto simp: in_range_by)
    then obtain Q' c' p' where f: "fold (relax_edge pq x) ?es (Q1, cost, prev) = (Q', c', p')" "qinv Q'"
        and dec: "rank_sum V c' < rank_sum V cost \<or> Q' = Q1 \<and> c' = cost"
      using relax_fold_decreases [OF assms(1) _ pop(4), of ?es] by blast
    have "card (elems Q1) < card (elems Q)"
      unfolding pop(3) by (rule card_Diff1_less [OF finite_elems [OF 1(2)] pop(2)])
    then have "\<exists>R c'' p''. dijkstra pq o' ic (Suc n) (Q', c', p') = Some (c'', p'') \<and> elems R = {} \<and> I R c'' p''"
      using 1(1) [of c' Q' p' "Suc n"] dec f(2) step [OF 1(3) pop(2-4) f(1)] by auto
    then show ?thesis
      using False f(1) pop(1) finite_elems [OF 1(2)]
      by (subst dijkstra.simps) (simp add: Len_card [OF 1(2)])
  qed
qed

lemma relax_edge_inv:
  assumes "qinv Q" "f32l.label_inv edge src V [] (elems Q) P (lab cost) (prd prev)"
    and "f32l.graph_ok edge V []" "edge node v = Some e"
  shows "\<exists>Q' cost' prev'. relax_edge pq node (v, e) (Q, cost, prev) = (Q', cost', prev') \<and> qinv Q'
     \<and> f32l.label_inv edge src V [] (elems Q') (P - {(node, v)}) (lab cost') (prd prev')"
proof (cases "f32_less (f32_add (lab cost node) e) (lab cost v)")
  case True
  then show ?thesis
    using f32l.label_inv_relax [OF assms(2-4) True]
    by (simp add: relax_edge_def Let_def lab_set prd_set qinv_Insert [OF assms(1)] elems_Insert [OF assms(1)])
next
  case False
  then show ?thesis
    using f32l.label_inv_skip [OF assms(2,4) False] assms(1) by (simp add: relax_edge_def)
qed

lemma relax_fold_inv:
  assumes "f32l.graph_ok edge V []" "\<And>v e. (v, e) \<in> set es \<Longrightarrow> edge node v = Some e"
    and "qinv Q" "f32l.label_inv edge src V [] (elems Q) P (lab cost) (prd prev)"
  shows "\<exists>Q' cost' prev'. fold (relax_edge pq node) es (Q, cost, prev) = (Q', cost', prev') \<and> qinv Q'
     \<and> f32l.label_inv edge src V [] (elems Q') (P - (\<lambda>(v, _). (node, v)) ` set es) (lab cost') (prd prev')"
  using assms(2-)
proof (induction es arbitrary: Q cost prev P)
  case (Cons x es)
  obtain v e where x: "x = (v, e)" by (cases x)
  then have "edge node v = Some e" using Cons.prems(1) by simp
  then obtain Q1 c1 p1 where r: "relax_edge pq node x (Q, cost, prev) = (Q1, c1, p1)" "qinv Q1"
      "f32l.label_inv edge src V [] (elems Q1) (P - {(node, v)}) (lab c1) (prd p1)"
    using relax_edge_inv [OF Cons.prems(2,3) assms(1)] x by blast
  have "P - (\<lambda>(v, _). (node, v)) ` set (x # es) = P - {(node, v)} - (\<lambda>(v, _). (node, v)) ` set es"
    using x by auto
  then show ?case using Cons.IH [OF _ r(2,3)] Cons.prems(1) r(1) by simp
qed simp

lemma relax_fold_frame:
  "w \<notin> fst ` set es \<Longrightarrow> lab (fst (snd (fold (relax_edge pq node) es st))) w = lab (fst (snd st)) w"
proof (induction es arbitrary: st)
  case (Cons x es)
  then have "lab (fst (snd (relax_edge pq node x st))) w = lab (fst (snd st)) w"
    by (auto simp: relax_edge_def Let_def lab_set split: prod.splits)
  with Cons show ?case by simp
qed simp

lemma dijkstra_labels:
  assumes g: "f32l.graph_ok edge V []" and "finite V" "orders_ok o'"
    and edge: "\<And>u v. go_get (go_get_or [] ic u) v = edge u v"
    and "qinv Q"
    and "f32l.label_inv edge src V [] (elems Q) {} (lab cost) (prd prev) \<and> (\<forall>v. v \<notin> V \<longrightarrow> lab cost v = f32_zero)"
  shows "\<exists>cost' prev'. dijkstra pq o' ic n (Q, cost, prev) = Some (cost', prev')
     \<and> f32l.label_inv edge src V [] {} {} (lab cost') (prd prev') \<and> (\<forall>v. v \<notin> V \<longrightarrow> lab cost' v = f32_zero)"
proof -
  let ?I = "\<lambda>Q cost prev. f32l.label_inv edge src V [] (elems Q) {} (lab cost) (prd prev)
    \<and> (\<forall>v. v \<notin> V \<longrightarrow> lab cost v = f32_zero)"
  have keep: "?I Q' cost' prev'"
    if I: "?I Q cost prev" and "x \<in> elems Q" and Q1: "elems Q1 = elems Q - {x}" "qinv Q1"
      and f: "fold (relax_edge pq x) (range_by (ord_ip o' (REdges n)) (go_get_or [] ic x)) (Q1, cost, prev)
        = (Q', cost', prev')" for n Q cost prev x Q1 Q' cost' prev'
  proof -
    let ?P = "{(x, v) |v. edge x v \<noteq> None}"
    have es: "edge x v = Some e" if "(v, e) \<in> set (range_by (ord_ip o' (REdges n)) (go_get_or [] ic x))" for v e
      using that assms(3) edge by (simp add: in_range_by)
    have "f32l.label_inv edge src V [] (elems Q1) ?P (lab cost) (prd prev)"
      using f32l.label_inv_pop [OF conjunct1 [OF I], of x] Q1(1) by simp
    from relax_fold_inv [OF g es Q1(2) this, of "range_by (ord_ip o' (REdges n)) (go_get_or [] ic x)"] f
    have "f32l.label_inv edge src V [] (elems Q')
        (?P - (\<lambda>(v, _). (x, v)) ` set (range_by (ord_ip o' (REdges n)) (go_get_or [] ic x))) (lab cost') (prd prev')"
      by auto
    then have "f32l.label_inv edge src V [] (elems Q') {} (lab cost') (prd prev')"
      by (rule f32l.label_inv_no_pending)
        (use assms(3) edge in \<open>auto simp: image_iff in_range_by Bex_def\<close>)
    moreover have "lab cost' v = f32_zero" if "v \<notin> V" for v
    proof -
      have "v \<notin> fst ` set (range_by (ord_ip o' (REdges n)) (go_get_or [] ic x))"
      proof
        assume "v \<in> fst ` set (range_by (ord_ip o' (REdges n)) (go_get_or [] ic x))"
        then obtain e where "edge x v = Some e" using es by auto
        then show False using g that unfolding f32l.graph_ok_def by blast
      qed
      from relax_fold_frame [OF this, of x "(Q1, cost, prev)"] f I that show ?thesis by simp
    qed
    ultimately show ?thesis by blast
  qed
  have targets: "v \<in> V" if "go_get (go_get_or [] ic u) v = Some e" for u v e
    using that edge g by (simp add: f32l.graph_ok_def)
  have "\<exists>Q' cost' prev'. dijkstra pq o' ic n (Q, cost, prev) = Some (cost', prev') \<and> elems Q' = {}
      \<and> ?I Q' cost' prev'"
    by (rule dijkstra_rule [where I = ?I]) (fact assms(2) targets assms(3) keep assms(5) assms(6))+
  then show ?thesis by auto
qed

lemma init_labels_state:
  assumes "orders_ok o'"
  shows "\<exists>Q cost prev. init_labels pq o' me ns = (Q, cost, prev) \<and> qinv Q
     \<and> elems Q = insert me (set (go_keys ns))
     \<and> go_get cost = (\<lambda>v. if v \<in> set (go_keys ns) then Some (if v = me then f32_zero else f32_max) else None)
     \<and> (\<forall>v. prd prev v = [])"
proof -
  let ?f = "\<lambda>node (Q, cost, prev). (let c = (if node = me then f32_zero else f32_max)
          in (pq_Insert pq Q node c, go_set cost node c, go_set prev node []))"
  have "\<exists>Q' cost' prev'. fold ?f ns (Q, cost, prev) = (Q', cost', prev') \<and> qinv Q' \<and> elems Q' = elems Q \<union> set ns
      \<and> go_get cost' = (\<lambda>v. if v \<in> set ns then Some (if v = me then f32_zero else f32_max) else go_get cost v)
      \<and> (\<forall>v. prd prev' v = [])"
    if "qinv Q" "\<forall>v. prd prev v = []" for ns Q cost and prev :: "(ip, ip) gomap"
    using that
  proof (induction ns arbitrary: Q cost prev)
    case (Cons x ns)
    let ?c = "if x = me then f32_zero else f32_max"
    have p: "\<forall>v. prd (go_set prev x []) v = []" using Cons.prems(2) by (simp add: gomap_simps)
    obtain Q' cost' prev' where "fold ?f ns (pq_Insert pq Q x ?c, go_set cost x ?c, go_set prev x []) = (Q', cost', prev')"
      "qinv Q'" "elems Q' = elems (pq_Insert pq Q x ?c) \<union> set ns" "\<forall>v. prd prev' v = []"
      "go_get cost' = (\<lambda>v. if v \<in> set ns then Some (if v = me then f32_zero else f32_max) else go_get (go_set cost x ?c) v)"
      using Cons.IH [OF qinv_Insert [OF Cons.prems(1)] p] by blast
    then show ?case
      using elems_Insert [OF Cons.prems(1)] by (auto simp: Let_def fun_eq_iff gomap_simps)
  qed auto
  from this [of "pq_Insert pq (pq_New pq) me f32_zero" "[]" "ord_ip o' RInit (go_keys ns)" "[]"] assms
  show ?thesis
    using qinv_New elems_New
    by (simp add: init_labels_def qinv_Insert elems_Insert go_get_or_def cong: if_cong)
qed

end

section \<open>The predecessor walk\<close>

text \<open>
  With predecessors that the invariant admits, the walk from any destination returns: nothing for
  this node and the nodes with the top label, and otherwise the first hop of a walk of least cost.
\<close>

lemma first_hop_returns:
  assumes inv: "f32l.label_inv edge src V [] {} {} d (prd prev)" and g: "f32l.graph_ok edge V []"
    and "finite V" "src \<noteq> []" "v \<in> V"
  shows "if prd prev v = [] then first_hop src prev v = Some None
    else \<exists>p. first_hop src prev v = Some (Some p) \<and> p \<noteq> src \<and> walk_via f32_add f32_zero edge src p v (d v)"
proof -
  have "finite (pred_rel [] (prd prev))"
  proof (rule finite_subset)
    show "pred_rel [] (prd prev) \<subseteq> V \<times> V"
      using f32l.inv_pred [OF inv] g unfolding pred_rel_def f32l.graph_ok_def by auto
  qed (use assms(3) in simp)
  then have wf: "wf ((pred_rel [] (prd prev))\<inverse>)"
    using finite_acyclic_wf_converse f32l.inv_acyclic [OF inv] by blast
  show ?thesis
    using wf assms(5)
  proof (induction v rule: wf_induct_rule)
    case (less v)
    show ?case
    proof (cases "prd prev v = []")
      case True
      then show ?thesis by (subst (1 2) first_hop.simps) (use assms(4) in simp)
    next
      case False
      then obtain e where e: "edge (prd prev v) v = Some e" "d v = f32_add (d (prd prev v)) e"
        using f32l.label_pred_eq [OF inv g] by blast
      show ?thesis
      proof (cases "prd prev v = src")
        case True
        then have "walk_via f32_add f32_zero edge src v v (d v)"
          using e f32l.inv_src [OF inv] via_start by metis
        moreover have "v \<noteq> src" using f32l.inv_src(2) [OF inv] False by auto
        ultimately show ?thesis using True False by (subst (1 2) first_hop.simps) auto
      next
        case neq: False
        have uV: "prd prev v \<in> V" using e(1) g by (simp add: f32l.graph_ok_def)
        have "(prd prev v, v) \<in> (pred_rel [] (prd prev))\<inverse>" using False by (auto simp: pred_rel_def)
        note IH = less.IH [OF this uV]
        have "prd prev (prd prev v) \<noteq> []"
        proof
          assume "prd prev (prd prev v) = []"
          then have "d (prd prev v) = f32_max" using f32l.inv_no_pred [OF inv uV] neq by simp
          moreover have "f32_cost e" using e(1) g by (simp add: f32l.graph_ok_def)
          ultimately have "\<not> f32_less (d v) f32_max"
            using e(2) f32_add_inflates [OF f32_cost_consts(2)] by simp
          then show False using f32l.inv_pred_top [OF inv False] by simp
        qed
        with IH obtain p where "first_hop src prev (prd prev v) = Some (Some p)" and p: "p \<noteq> src"
            and            "walk_via f32_add f32_zero edge src p (prd prev v) (d (prd prev v))" by auto
        with e have "walk_via f32_add f32_zero edge src p v (d v)" by (metis via_step)
        with \<open>first_hop src prev (prd prev v) = _\<close> p False neq show ?thesis
          by (subst (1 2) first_hop.simps) simp
      qed
    qed
  qed
qed

section \<open>The host routes\<close>

lemma host_policy_gen:
  assumes "\<And>v. v \<in> set dests \<Longrightarrow> first_hop me prev v = Some (f v)" "\<And>v. v \<in> set dests \<Longrightarrow> length v = 16"
  shows "\<exists>np'. host_policy me prev dests np = Some np'
     \<and> (\<forall>v. length v = 16 \<longrightarrow> go_get np' (NewHostOnlySubnet v)
          = (if v \<in> set dests \<and> f v \<noteq> None then f v else go_get np (NewHostOnlySubnet v)))
     \<and> (\<forall>k. k \<notin> NewHostOnlySubnet ` set dests \<longrightarrow> go_get np' k = go_get np k)"
  using assms
proof (induction dests arbitrary: np)
  case (Cons x dests)
  have x: "first_hop me prev x = Some (f x)" "length x = 16" using Cons.prems by simp_all
  show ?case
  proof (cases "f x")
    case None
    with Cons.IH [of np] Cons.prems x show ?thesis by auto
  next
    case (Some p)
    obtain np' where "host_policy me prev dests (go_set np (NewHostOnlySubnet x) p) = Some np'"
      "\<And>v. length v = 16 \<Longrightarrow> go_get np' (NewHostOnlySubnet v)
          = (if v \<in> set dests \<and> f v \<noteq> None then f v else go_get (go_set np (NewHostOnlySubnet x) p) (NewHostOnlySubnet v))"
      "\<And>k. k \<notin> NewHostOnlySubnet ` set dests \<Longrightarrow> go_get np' k = go_get (go_set np (NewHostOnlySubnet x) p) k"
      using Cons.IH [of "go_set np (NewHostOnlySubnet x) p"] Cons.prems by auto
    with x Some show ?thesis by (simp add: gomap_simps NewHostOnlySubnet_inject)
  qed
qed simp

text \<open>Which subnets the second part of the policy is about, and who offers them.\<close>

lemma snd_collect_links:
  "snd (collect_links o' ns) = fold (node_subnets o' ns) (ord_ip o' RNodes (go_keys ns)) []"
proof -
  have "snd (fold (\<lambda>node (ic, sn). (go_set ic node (f node), g node sn)) xs (a, b)) = fold g xs b" for f g xs a b
    by (induction xs arbitrary: a b) simp_all
  then show ?thesis by (simp add: collect_links_def)
qed

definition advertised :: "(ip, RoutingConns option) gomap \<Rightarrow> subnet \<Rightarrow> bool" where
  "advertised ns k \<longleftrightarrow> \<not> (Subnet_Prefix k = 128 \<and> go_get ns (Subnet_IP k) \<noteq> None)"

definition offers :: "(ip, RoutingConns option) gomap \<Rightarrow> subnet \<Rightarrow> ip \<Rightarrow> bool" where
  "offers ns k v \<longleftrightarrow> v \<in> set (go_keys ns) \<and> k \<in> set (go_keys (conns_of ns v)) \<and> advertised ns k"

abbreviation candidate :: "(subnet, (ip, unit) gomap) gomap \<Rightarrow> subnet \<Rightarrow> ip \<Rightarrow> bool" where
  "candidate sn k v \<equiv> go_get (go_get_or [] sn k) v \<noteq> None"

lemma candidate_add:
  "candidate (add_candidate ns node conn sn) k v \<longleftrightarrow> candidate sn k v \<or> (v = node \<and> k = conn \<and> advertised ns k)"
  by (auto simp: add_candidate_def advertised_def gomap_simps)

lemma candidate_add_fold:
  "candidate (fold (add_candidate ns node) cs sn) k v
     \<longleftrightarrow> candidate sn k v \<or> (v = node \<and> k \<in> set cs \<and> advertised ns k)"
proof (induction cs arbitrary: sn)
  case (Cons c cs)
  show ?case using Cons.IH [of "add_candidate ns node c sn"] candidate_add [of ns node c sn k v] by auto
qed simp

lemma candidates_offers:
  assumes "orders_ok o'"
  shows "candidate (snd (collect_links o' ns)) k v \<longleftrightarrow> offers ns k v"
proof -
  have "candidate (fold (node_subnets o' ns) xs sn) k v \<longleftrightarrow> candidate sn k v \<or>
      (v \<in> set xs \<and> k \<in> set (go_keys (conns_of ns v)) \<and> advertised ns k)" for xs sn
  proof (induction xs arbitrary: sn)
    case (Cons x xs)
    show ?case
      using Cons.IH [of "node_subnets o' ns x sn"] assms
        candidate_add_fold [of ns x "ord_sn o' (RNodeConns x) (go_keys (conns_of ns x))" sn k v]
      by (auto simp: node_subnets_def)
  qed simp
  from this [of "ord_ip o' RNodes (go_keys ns)" "[]"] assms show ?thesis
    by (auto simp: snd_collect_links offers_def go_get_or_def)
qed

text \<open>No host route of a known node is among the subnets.\<close>

lemma collected_keys_advertised:
  assumes "orders_ok o'" "go_get (snd (collect_links o' ns)) k \<noteq> None"
  shows "advertised ns k"
proof -
  have add: "go_get (fold (add_candidate ns node) cs sn) k \<noteq> None \<Longrightarrow> go_get sn k \<noteq> None \<or> advertised ns k"
    for node cs sn
  proof (induction cs arbitrary: sn)
    case (Cons c cs)
    from Cons.IH [of "add_candidate ns node c sn"] Cons.prems show ?case
      by (auto simp: add_candidate_def advertised_def gomap_simps split: if_splits)
  qed simp
  have "go_get (fold (node_subnets o' ns) xs sn) k \<noteq> None \<Longrightarrow> go_get sn k \<noteq> None \<or> advertised ns k" for xs sn
  proof (induction xs arbitrary: sn)
    case (Cons x xs)
    from Cons.IH [of "node_subnets o' ns x sn"] Cons.prems
      add [of x "ord_sn o' (RNodeConns x) (go_keys (conns_of ns x))" sn]
    show ?case unfolding node_subnets_def by auto
  qed simp
  from this [of "ord_ip o' RNodes (go_keys ns)" "[]"] assms(2) show ?thesis
    by (simp add: snd_collect_links)
qed

lemma host_not_advertised:
  "nodes_ok ns \<Longrightarrow> v \<in> set (go_keys ns) \<Longrightarrow> \<not> advertised ns (NewHostOnlySubnet v)"
  using nodes_okD [of ns v]
  by (auto simp: advertised_def NewHostOnlySubnet_prefix NewHostOnlySubnet_parts go_get_None_iff)

section \<open>The subnet routes\<close>

abbreviation via :: "RoutingPolicy \<Rightarrow> ip \<Rightarrow> ip" where
  "via np c \<equiv> go_get_or [] np (NewHostOnlySubnet c)"

lemma best_candidate_cong:
  assumes "\<And>c. c \<in> set cs \<Longrightarrow> via np c = via np' c"
  shows "best_candidate cost np cs = best_candidate cost np' cs"
  unfolding best_candidate_def by (rule arg_cong [where f = fst], rule fold_cong) (simp_all add: assms)

text \<open>The candidate chosen has a first hop of least cost.\<close>

lemma best_candidate_least:
  assumes "\<And>c. c \<in> set cs \<Longrightarrow> f32_cost (lab cost (via np c))"
  shows "if \<exists>c\<in>set cs. f32_less (lab cost (via np c)) f32_max
     then \<exists>c\<in>set cs. best_candidate cost np cs = via np c \<and> f32_less (lab cost (via np c)) f32_max \<and>
            (\<forall>c'\<in>set cs. \<not> f32_less (lab cost (via np c')) (lab cost (via np c)))
     else best_candidate cost np cs = []"
proof -
  let ?step = "\<lambda>candidate (best, lowest).
            (let via = via np candidate
             in if f32_less (lab cost via) lowest then (via, lab cost via) else (best, lowest))"
  let ?good = "\<lambda>best lowest C. if \<exists>c\<in>C. f32_less (lab cost (via np c)) f32_max
     then \<exists>c\<in>C. best = via np c \<and> lowest = lab cost (via np c) \<and> f32_less lowest f32_max \<and>
            (\<forall>c'\<in>C. \<not> f32_less (lab cost (via np c')) lowest)
     else best = [] \<and> lowest = f32_max"
  have "?good (fst (fold ?step cs ([], f32_max))) (snd (fold ?step cs ([], f32_max))) (set cs)"
    using assms
  proof (induction cs rule: rev_induct)
    case (snoc x cs)
    let ?b = "fst (fold ?step cs ([], f32_max))" and ?l = "snd (fold ?step cs ([], f32_max))"
    have IH: "?good ?b ?l (set cs)" using snoc by simp
    have fx: "fold ?step (cs @ [x]) ([], f32_max)
        = (if f32_less (lab cost (via np x)) ?l then (via np x, lab cost (via np x)) else (?b, ?l))"
      by (simp add: case_prod_beta Let_def)
    have cl: "f32_cost ?l" using IH snoc.prems f32_cost_consts(2) by (auto split: if_splits)
    have cx: "f32_cost (lab cost (via np x))" using snoc.prems by simp
    have lm: "\<not> f32_less f32_max ?l" using IH f32_less_asym by (auto split: if_splits)
    show ?case
    proof (cases "f32_less (lab cost (via np x)) ?l")
      case True
      then have xm: "f32_less (lab cost (via np x)) f32_max"
        using f32c.less_not_less_trans [OF cx cl f32_cost_consts(2)] lm by blast
      have "\<not> f32_less (lab cost (via np c)) (lab cost (via np x))" if "c \<in> set cs" for c
      proof -
        have "\<not> f32_less (lab cost (via np c)) ?l" using IH that by (auto split: if_splits)
        moreover have "f32_cost (lab cost (via np c))" using snoc.prems that by simp
        ultimately show ?thesis
          using f32c.not_less_trans [OF cx cl] f32_less_asym [OF True] by blast
      qed
      then show ?thesis unfolding fx using True xm by auto
    next
      case False
      then show ?thesis unfolding fx using IH cl cx lm f32c.less_not_less_trans [OF cx f32_cost_consts(2) cl]
        by (auto split: if_splits)
    qed
  qed simp
  then show ?thesis by (auto simp: best_candidate_def split: if_splits)
qed

text \<open>
  The subnets are handled one after the other, each reading the host routes of its candidates.
  No host route of a candidate is itself such a subnet, so the order does not matter.
\<close>

lemma subnet_policy_get:
  assumes "is_order (ord_sn o' RSubnets)" "go_wf sn"
    and host: "\<And>k cs c. go_get sn k = Some cs \<Longrightarrow> c \<in> set (go_keys cs) \<Longrightarrow> go_get sn (NewHostOnlySubnet c) = None"
    and o: "\<And>k ks. set (ord_ip o' (RCandidates k) ks) = set ks"
  shows "go_get (subnet_policy o' cost sn np) k =
    (case go_get sn k of
       None \<Rightarrow> go_get np k
     | Some cs \<Rightarrow> (let best = best_candidate cost np (ord_ip o' (RCandidates k) (go_keys cs))
                  in if best \<noteq> [] then Some best else go_get np k))"
proof -
  let ?best = "\<lambda>np k cs. best_candidate cost np (ord_ip o' (RCandidates k) (go_keys cs))"
  let ?step = "subnet_step o' cost"
  let ?xs = "range_by (ord_sn o' RSubnets) sn"
  have xs: "map_of ?xs = go_get sn" by (rule map_of_range_by [OF assms(1,2)])
  have "go_get (fold ?step xs np') k = (case map_of xs k of None \<Rightarrow> go_get np' k
      | Some cs \<Rightarrow> (let best = ?best np k cs in if best \<noteq> [] then Some best else go_get np' k))"
    if "distinct (map fst xs)" "\<And>k cs. (k, cs) \<in> set xs \<Longrightarrow> go_get sn k = Some cs"
      "\<And>k. go_get sn k = None \<Longrightarrow> go_get np' k = go_get np k" for xs np'
    using that
  proof (induction xs arbitrary: np')
    case (Cons x xs)
    obtain k' cs' where x: "x = (k', cs')" by (cases x)
    have k': "go_get sn k' = Some cs'" using Cons.prems(2) x by simp
    have b: "?best np' k' cs' = ?best np k' cs'"
    proof (rule best_candidate_cong)
      fix c
      assume "c \<in> set (ord_ip o' (RCandidates k') (go_keys cs'))"
      then have "c \<in> set (go_keys cs')" by (simp only: o)
      then show "via np' c = via np c"
        using host [OF k'] Cons.prems(3) [of "NewHostOnlySubnet c"] by (simp add: go_get_or_def)
    qed
    let ?np = "if ?best np k' cs' \<noteq> [] then go_set np' k' (?best np k' cs') else np'"
    have eq: "?step x np' = ?np" using b x by (simp add: subnet_step_def Let_def)
    have "map_of xs k' = None" using Cons.prems(1) x by (simp add: map_of_eq_None_iff)
    moreover have "go_get (fold ?step xs ?np) k = (case map_of xs k of None \<Rightarrow> go_get ?np k
      | Some cs \<Rightarrow> (let best = ?best np k cs in if best \<noteq> [] then Some best else go_get ?np k))"
      using Cons.prems k' by (intro Cons.IH) (auto simp: gomap_simps)
    ultimately show ?case
      by (cases "k = k'") (auto simp: x eq [unfolded x] gomap_simps Let_def split: option.split)
  qed simp
  from this [of ?xs np] xs show ?thesis
    using assms(1,2) by (simp add: subnet_policy_def in_range_by go_wf_def)
qed

section \<open>The policy\<close>

lemma wf_collected: "go_wf (snd (collect_links o' ns))"
proof -
  have add: "go_wf sn \<Longrightarrow> go_wf (fold (add_candidate ns node) cs sn)" for node cs sn
    by (induction cs arbitrary: sn) (simp_all add: add_candidate_def gomap_simps)
  have "go_wf sn \<Longrightarrow> go_wf (fold (node_subnets o' ns) xs sn)" for xs sn
    by (induction xs arbitrary: sn) (simp_all add: node_subnets_def add)
  then show ?thesis by (simp add: snd_collect_links)
qed

text \<open>The facts about a calculated policy that the statements below read off.\<close>

definition policy_facts ::
    "orders \<Rightarrow> ip \<Rightarrow> (ip, RoutingConns option) gomap \<Rightarrow> (ip, f32) gomap \<Rightarrow> (ip, ip) gomap \<Rightarrow> RoutingPolicy \<Rightarrow> bool" where
  "policy_facts o' me ns cost prev np \<longleftrightarrow>
     f32l.label_inv (link o' ns) me (set (go_keys ns)) [] {} {} (lab cost) (prd prev) \<and>
     (\<forall>v. v \<notin> set (go_keys ns) \<longrightarrow> lab cost v = f32_zero) \<and>
     (\<forall>v\<in>set (go_keys ns).
        if prd prev v = [] then go_get np (NewHostOnlySubnet v) = None
        else \<exists>p. go_get np (NewHostOnlySubnet v) = Some p \<and> p \<noteq> me
               \<and> walk_via f32_add f32_zero (link o' ns) me p v (lab cost v)) \<and>
     (\<forall>k. advertised ns k \<longrightarrow> (\<exists>cs. set cs = {v. offers ns k v} \<and>
        go_get np k = (let best = best_candidate cost np cs in if best \<noteq> [] then Some best else None)))"

context prio_queue
begin

lemma dijkstra_on_nodes:
  assumes "orders_ok o'" "costs_ok ns" "nodes_ok ns"
  shows "\<exists>cost prev. dijkstra pq o' (fst (collect_links o' ns)) 0 (init_labels pq o' me ns) = Some (cost, prev)
     \<and> f32l.label_inv (link o' ns) me (set (go_keys ns)) [] {} {} (lab cost) (prd prev)
     \<and> (\<forall>v. v \<notin> set (go_keys ns) \<longrightarrow> lab cost v = f32_zero)"
proof -
  let ?V = "set (go_keys ns)"
  note g = link_graph_ok [OF assms]
  obtain Q cost prev where i: "init_labels pq o' me ns = (Q, cost, prev)" "qinv Q" "elems Q = insert me ?V"
      "go_get cost = (\<lambda>v. if v \<in> ?V then Some (if v = me then f32_zero else f32_max) else None)"
      "\<forall>v. prd prev v = []"
    using init_labels_state [OF assms(1)] by blast
  have lab: "lab cost v = (if v \<in> ?V \<and> v \<noteq> me then f32_max else f32_zero)" for v
    unfolding go_get_or_def i(4) by simp
  have inv: "f32l.label_inv (link o' ns) me ?V [] (elems Q) {} (lab cost) (prd prev)"
    by (rule f32l.label_inv_init) (use i g lab f32_cost_consts in auto)
  show ?thesis
    unfolding i(1)
    by (rule dijkstra_labels [OF g _ assms(1) _ i(2)]) (use inv lab in \<open>simp_all add: link_def\<close>)
qed

lemma new_policy_facts:
  assumes "orders_ok o'" "costs_ok ns" "nodes_ok ns" "me \<noteq> []"
  shows "\<exists>cost prev np. new_policy pq o' me ns = Some np \<and> policy_facts o' me ns cost prev np"
proof -
  let ?V = "set (go_keys ns)"
  let ?sn = "snd (collect_links o' ns)"
  note g = link_graph_ok [OF assms(1-3)]
  obtain cost prev where d: "dijkstra pq o' (fst (collect_links o' ns)) 0 (init_labels pq o' me ns) = Some (cost, prev)"
      and inv: "f32l.label_inv (link o' ns) me ?V [] {} {} (lab cost) (prd prev)"
      and out: "\<forall>v. v \<notin> ?V \<longrightarrow> lab cost v = f32_zero"
    using dijkstra_on_nodes [OF assms(1-3)] by blast
  define f where "f v = the (first_hop me prev v)" for v
  have fh: "if prd prev v = [] then first_hop me prev v = Some None
      else \<exists>p. first_hop me prev v = Some (Some p) \<and> p \<noteq> me \<and> walk_via f32_add f32_zero (link o' ns) me p v (lab cost v)"
    if "v \<in> ?V" for v
    by (rule first_hop_returns [OF inv g _ assms(4) that]) simp
  have fv: "first_hop me prev v = Some (f v)" if "v \<in> ?V" for v
    using fh [OF that] unfolding f_def by (auto split: if_splits)
  obtain np0 where h: "host_policy me prev (ord_ip o' RDests (go_keys ns)) [] = Some np0"
      and hv: "\<And>v. v \<in> ?V \<Longrightarrow> go_get np0 (NewHostOnlySubnet v) = f v"
      and hk: "\<And>k. k \<notin> NewHostOnlySubnet ` ?V \<Longrightarrow> go_get np0 k = None"
    using host_policy_gen [of "ord_ip o' RDests (go_keys ns)" me prev f "[]"] assms(1) fv nodes_okD [OF assms(3)]
    by auto
  define np where "np = subnet_policy o' cost ?sn np0"
  have cand: "offers ns k v \<longleftrightarrow> (\<exists>cs. go_get ?sn k = Some cs \<and> v \<in> set (go_keys cs))" for k v
  proof (cases "go_get ?sn k")
    case (Some cs)
    then show ?thesis
      using candidates_offers [OF assms(1), of ns k v] go_get_None_iff [of cs v] by (simp add: go_get_or_def)
  qed (use candidates_offers [OF assms(1), of ns k v] in \<open>simp add: go_get_or_def\<close>)
  have host_sn: "go_get ?sn (NewHostOnlySubnet v) = None" if "v \<in> ?V" for v
    using collected_keys_advertised [OF assms(1)] host_not_advertised [OF assms(3) that] by blast
  have np: "go_get np k = (case go_get ?sn k of None \<Rightarrow> go_get np0 k
     | Some cs \<Rightarrow> (let best = best_candidate cost np0 (ord_ip o' (RCandidates k) (go_keys cs))
                  in if best \<noteq> [] then Some best else go_get np0 k))" for k
    unfolding np_def
  proof (rule subnet_policy_get [OF _ wf_collected])
    fix k cs c
    assume "go_get ?sn k = Some cs" "c \<in> set (go_keys cs)"
    then have "c \<in> ?V" using cand [of k c] unfolding offers_def by blast
    then show "go_get ?sn (NewHostOnlySubnet c) = None" by (rule host_sn)
  qed (use assms(1) in simp_all)
  have npv: "go_get np (NewHostOnlySubnet v) = f v" if "v \<in> ?V" for v
    using np host_sn [OF that] hv [OF that] by simp
  have "\<exists>cs. set cs = {v. offers ns k v} \<and>
      go_get np k = (let best = best_candidate cost np cs in if best \<noteq> [] then Some best else None)"
    if k: "advertised ns k" for k
  proof -
    have "k \<noteq> NewHostOnlySubnet v" if "v \<in> ?V" for v
      using k host_not_advertised [OF assms(3) that] by auto
    then have k0: "go_get np0 k = None" by (intro hk) blast
    show ?thesis
    proof (cases "go_get ?sn k")
      case None
      then show ?thesis using np [of k] k0 cand by (intro exI [of _ "[]"]) (simp add: best_candidate_def)
    next
      case (Some cs)
      let ?cs = "ord_ip o' (RCandidates k) (go_keys cs)"
      have "set ?cs = {v. offers ns k v}" using cand Some assms(1) by auto
      moreover have "best_candidate cost np ?cs = best_candidate cost np0 ?cs"
      proof (rule best_candidate_cong)
        fix c
        assume "c \<in> set ?cs"
        then have "c \<in> ?V" using \<open>set ?cs = _\<close> by (simp add: offers_def)
        then show "via np c = via np0 c" using npv hv by (simp add: go_get_or_def)
      qed
      ultimately show ?thesis using np [of k] Some k0 by (intro exI [of _ ?cs]) (simp add: Let_def)
    qed
  qed
  moreover have "if prd prev v = [] then go_get np (NewHostOnlySubnet v) = None
        else \<exists>p. go_get np (NewHostOnlySubnet v) = Some p \<and> p \<noteq> me
               \<and> walk_via f32_add f32_zero (link o' ns) me p v (lab cost v)" if "v \<in> ?V" for v
    using fh [OF that] fv [OF that] npv [OF that] by auto
  ultimately have "policy_facts o' me ns cost prev np"
    using inv out unfolding policy_facts_def by blast
  moreover have "new_policy pq o' me ns = Some np"
    using d h by (simp add: new_policy_def np_def case_prod_beta)
  ultimately show ?thesis by blast
qed

end

section \<open>Publishing and looking up\<close>

lemma wf_new_policy: "new_policy pq o' me ns = Some np \<Longrightarrow> go_wf np"
proof -
  have h: "go_wf np0 \<Longrightarrow> host_policy me prev ds np0 = Some np1 \<Longrightarrow> go_wf np1" for prev ds np0 np1
  proof (induction ds arbitrary: np0)
    case (Cons d ds)
    show ?case
      using Cons.prems Cons.IH [OF Cons.prems(1)] Cons.IH [OF gm.inv_put [OF Cons.prems(1)]]
      by (auto split: option.splits)
  qed simp
  have step: "go_wf np0 \<Longrightarrow> go_wf (subnet_step o' cost x np0)" for cost x np0
    by (cases x) (simp add: subnet_step_def Let_def gomap_simps)
  have "go_wf np0 \<Longrightarrow> go_wf (fold (subnet_step o' cost) xs np0)" for cost xs np0
    by (induction xs arbitrary: np0) (simp_all add: step)
  then show "new_policy pq o' me ns = Some np \<Longrightarrow> go_wf np"
    using h [of "[]"] by (auto simp: new_policy_def subnet_policy_def split: prod.splits option.splits)
qed

text \<open>The stored policy is left alone only when it already is the new one.\<close>

lemma unchanged_policy:
  assumes "go_wf old" "go_wf new" "\<not> policy_changed old new"
  shows "go_get old = go_get new"
proof
  fix k
  have sub: "set old \<subseteq> set new" and len: "length old = length new"
    using assms(2,3) by (auto simp: policy_changed_def list_ex_iff go_get_Some_iff)
  have "set old = set new"
    using sub len assms(1,2) by (intro card_subset_eq) (auto simp: go_wf_def distinct_card distinct_map)
  then show "go_get old k = go_get new k"
    using go_get_Some_iff [OF assms(1)] go_get_Some_iff [OF assms(2)] by (metis option.exhaust)
qed

lemma recalculate_policy:
  assumes "recalculate pq o' r = Some r'" "go_wf (policy r)"
  obtains np where "new_policy pq o' (myAddr r) (nodes r) = Some np" "go_get (policy r') = go_get np"
    "go_wf (policy r')" "updatesBroker r' = updatesBroker r @ [np]" "nodes r' = nodes r" "myAddr r' = myAddr r"
proof -
  from assms(1) obtain np where np: "new_policy pq o' (myAddr r) (nodes r) = Some np"
      and r': "r' = r\<lparr>policy := (if policy_changed (policy r) np then np else policy r),
                  updatesBroker := updatesBroker r @ [np]\<rparr>"
    by (auto simp: recalculate_def split: option.splits)
  note wf = wf_new_policy [OF np]
  show thesis
    by (rule that [OF np]) (use wf assms(2) unchanged_policy [OF assms(2) wf] in \<open>simp_all add: r'\<close>)
qed

definition hop_ok :: "ip \<Rightarrow> (subnet \<times> ip) set \<Rightarrow> ip \<times> int \<Rightarrow> bool" where
  "hop_ok dest S hl \<longleftrightarrow>
     (\<forall>(k, v)\<in>S. Subnet_Contains k dest \<longrightarrow> int (Subnet_Prefix k) \<le> snd hl) \<and>
     (if snd hl = - 1 then \<forall>(k, v)\<in>S. \<not> Subnet_Contains k dest
      else \<exists>k. (k, fst hl) \<in> S \<and> Subnet_Contains k dest \<and> int (Subnet_Prefix k) = snd hl)"

lemma next_hop_fold: "hop_ok dest (set ps) (fold (next_hop_step dest) ps ([], - 1))"
proof (induction ps rule: rev_induct)
  case (snoc x ps)
  obtain k v where x: "x = (k, v)" by (cases x)
  obtain h l where f: "fold (next_hop_step dest) ps ([], - 1) = (h, l)" by fastforce
  show ?case
  proof (cases "Subnet_Contains k dest \<and> int (Subnet_Prefix k) > l")
    case True
    with snoc f show ?thesis by (fastforce simp: x hop_ok_def next_hop_step_def split: if_splits)
  next
    case False
    have "l \<noteq> - 1" if "Subnet_Contains k dest" using False that by auto
    with False snoc f show ?thesis by (auto simp: x hop_ok_def next_hop_step_def split: if_splits)
  qed
qed (simp add: hop_ok_def)

lemma NextHop_cases:
  "case NextHop r dest of
     Inl err \<Rightarrow> err = ErrNoRouteToHost \<and> (\<forall>(k, v)\<in>set (policy r). \<not> Subnet_Contains k dest)
   | Inr h \<Rightarrow> \<exists>k. (k, h) \<in> set (policy r) \<and> Subnet_Contains k dest
       \<and> (\<forall>(k', v')\<in>set (policy r). Subnet_Contains k' dest \<longrightarrow> Subnet_Prefix k' \<le> Subnet_Prefix k)"
proof -
  obtain h l where f: "fold (next_hop_step dest) (policy r) ([], - 1) = (h, l)" by fastforce
  show ?thesis
    using next_hop_fold [of dest "policy r"] unfolding f
    by (fastforce simp: NextHop_def f hop_ok_def)
qed

text \<open>A host route is the longest match for its address.\<close>

lemma NextHop_host_route:
  assumes "go_wf (policy r)" "(NewHostOnlySubnet dest, hop) \<in> set (policy r)" "length dest = 16"
  shows "NextHop r dest = Inr hop"
proof -
  have c: "Subnet_Contains (NewHostOnlySubnet dest) dest"
    using host_only_contains_iff [of dest dest] assms(3) by (simp add: IP_Equal_def net_Equal_def)
  have "\<exists>k h. NextHop r dest = Inr h \<and> (k, h) \<in> set (policy r) \<and> Subnet_Contains k dest
      \<and> Subnet_Prefix (NewHostOnlySubnet dest) \<le> Subnet_Prefix k"
    using NextHop_cases [of r dest] assms(2) c by (cases "NextHop r dest") fastforce+
  then obtain k h where kh: "NextHop r dest = Inr h" "(k, h) \<in> set (policy r)" "Subnet_Contains k dest" "128 \<le> Subnet_Prefix k"
    by (auto simp: NewHostOnlySubnet_prefix assms(3))
  have "Subnet_IP k = dest"
    using host_only_contains_iff [of "Subnet_IP k" dest] Subnet_Prefix_128 [OF kh(4)] kh(3) assms(3)
    by (simp add: IP_Equal_def net_Equal_def)
  then have "k = NewHostOnlySubnet dest" using Subnet_Prefix_128 [OF kh(4)] by simp
  then have "h = hop" using kh(2) assms(1,2) by (metis go_get_Some_iff option.inject)
  then show ?thesis using kh(1) by simp
qed

section \<open>Theorems\<close>

lemma facts_inv:
  "policy_facts o' me ns cost prev np \<Longrightarrow>
     f32l.label_inv (link o' ns) me (set (go_keys ns)) [] {} {} (lab cost) (prd prev)"
  by (simp add: policy_facts_def)

lemma label_is_least:
  assumes "policy_facts o' me ns cost prev np" "f32l.graph_ok (link o' ns) (set (go_keys ns)) []"
    and "walk f32_add f32_zero (link o' ns) me v c"
  shows "\<not> f32_less c (lab cost v)"
  by (rule f32l.label_least [OF facts_inv [OF assms(1)] assms(2,3)])

lemma no_pred_top:
  assumes "policy_facts o' me ns cost prev np" "v \<in> set (go_keys ns)" "v \<noteq> me"
  shows "prd prev v = [] \<longleftrightarrow> \<not> f32_less (lab cost v) f32_max"
  using f32l.inv_no_pred [OF facts_inv [OF assms(1)] assms(2) _ assms(3)]
    f32l.inv_pred_top [OF facts_inv [OF assms(1)], of v] by auto

lemma host_route_facts:
  assumes "policy_facts o' me ns cost prev np" "f32l.graph_ok (link o' ns) (set (go_keys ns)) []"
    and "v \<in> set (go_keys ns)" "v \<noteq> me"
  shows "case go_get np (NewHostOnlySubnet v) of
      Some p \<Rightarrow> p \<noteq> me \<and> walk_via f32_add f32_zero (link o' ns) me p v (lab cost v) \<and> f32_less (lab cost v) f32_max
    | None \<Rightarrow> lab cost v = f32_max"
proof -
  note inv = facts_inv [OF assms(1)]
  show ?thesis
    using assms(1,3) no_pred_top [OF assms(1,3,4)] f32l.inv_no_pred [OF inv assms(3) _ assms(4)]
    by (fastforce simp: policy_facts_def split: option.splits if_splits)
qed


text \<open>
  The concrete network of the examples: A, B and C in a row with link costs 1, and a node D that
  nobody reaches. B advertises one subnet, C and D another.
\<close>

definition source_order :: orders where
  "source_order = \<lparr>ord_ip = \<lambda>_ ks. ks, ord_sn = \<lambda>_ ks. ks\<rparr>"

lemma source_order_ok: "orders_ok source_order"
  by (simp add: source_order_def orders_ok_def is_order_def)

definition ex_ip :: "byte \<Rightarrow> ip" where
  "ex_ip b = [0xfd, 0, 0, 0, 0, 0, 0, 0, 0, 0, 0, 0, 0, 0, 0, b]"

definition ex_subnet :: subnet where
  "ex_subnet = [0xfd, 1, 0, 0, 0, 0, 0, 0, 0, 0, 0, 0, 0, 0, 0, 0] @ cidr_bytes 64 16"

definition ex_subnet2 :: subnet where
  "ex_subnet2 = [0xfd, 2, 0, 0, 0, 0, 0, 0, 0, 0, 0, 0, 0, 0, 0, 0] @ cidr_bytes 64 16"

definition ex_nodes :: "(ip, RoutingConns option) gomap" where
  "ex_nodes =
     [(ex_ip 1, Some [(NewHostOnlySubnet (ex_ip 2), f32_one)]),
      (ex_ip 2, Some [(NewHostOnlySubnet (ex_ip 1), f32_one), (NewHostOnlySubnet (ex_ip 3), f32_one),
         (ex_subnet2, f32_one)]),
      (ex_ip 3, Some [(NewHostOnlySubnet (ex_ip 2), f32_one), (ex_subnet, f32_one)]),
      (ex_ip 4, Some [(ex_subnet, f32_one)])]"

definition ex_router :: router where
  "ex_router = (router_New (ex_ip 1) 0)\<lparr>nodes := ex_nodes\<rparr>"

lemma f32_cost_one: "f32_cost f32_one" "f32_less f32_zero f32_one" "f32_less f32_one f32_max"
proof -
  have "round_int (2 ^ 149) = 2 ^ 149"
    using round_nat_24bit [of 1 149] by (simp add: round_int_nonneg)
  then show "f32_cost f32_one" "f32_less f32_zero f32_one" "f32_less f32_one f32_max"
    by (simp_all add: f32_cost_def f32_one_def f32_zero_def f32_max_def f32_ok_Fin max_float32_def
        del: f32_ok.simps)
qed

lemma ex_nodes_ok: "nodes_ok ex_nodes" "costs_ok ex_nodes"
  by (simp_all add: nodes_ok_def go_wf_def costs_ok_def ex_nodes_def ex_ip_def f32_cost_one)

lemma ex_me: "ex_ip 1 \<noteq> []" "ex_ip 3 \<noteq> ex_ip 1" "ex_ip 3 \<in> set (go_keys ex_nodes)"
  by (simp_all add: ex_ip_def ex_nodes_def)


text \<open>
  C1. After a recalculation, \<open>NextHop\<close> for a known node that can be reached at a finite cost returns
  the first hop of a walk of least cost to it, whatever order the lookup ranges over the policy in
  and whatever other subnets the policy holds.
\<close>

theorem next_hop_follows_shortest_path:
  assumes "prio_queue pq elems qinv" "orders_ok o'" "costs_ok (nodes r)" "nodes_ok (nodes r)"
    and "myAddr r \<noteq> []" "go_wf (policy r)" "dest \<in> set (go_keys (nodes r))" "dest \<noteq> myAddr r"
    and "walk f32_add f32_zero (link o' (nodes r)) (myAddr r) dest c" "f32_less c f32_max"
  shows "\<exists>r'. recalculate pq o' r = Some r' \<and>
    (\<forall>p. mset p = mset (policy r') \<longrightarrow> (\<exists>hop c'. NextHop (r'\<lparr>policy := p\<rparr>) dest = Inr hop \<and>
       walk_via f32_add f32_zero (link o' (nodes r)) (myAddr r) hop dest c' \<and>
       (\<forall>c''. walk f32_add f32_zero (link o' (nodes r)) (myAddr r) dest c'' \<longrightarrow> \<not> f32_less c'' c')))"
proof -
  note g = link_graph_ok [OF assms(2-4)]
  obtain cost prev np where np: "new_policy pq o' (myAddr r) (nodes r) = Some np"
      and f: "policy_facts o' (myAddr r) (nodes r) cost prev np"
    using prio_queue.new_policy_facts [OF assms(1-5)] by blast
  have least: "\<not> f32_less c' (lab cost dest)"
    if "walk f32_add f32_zero (link o' (nodes r)) (myAddr r) dest c'" for c'
    by (rule label_is_least [OF f g that])
  have "lab cost dest \<noteq> f32_max" using least [OF assms(9)] assms(10) by auto
  then obtain hop where hop: "go_get np (NewHostOnlySubnet dest) = Some hop"
      "walk_via f32_add f32_zero (link o' (nodes r)) (myAddr r) hop dest (lab cost dest)"
    using host_route_facts [OF f g assms(7,8)] by (auto split: option.splits)
  from np obtain r' where r': "recalculate pq o' r = Some r'" by (simp add: recalculate_def)
  then obtain np' where pol: "new_policy pq o' (myAddr r) (nodes r) = Some np'"
      "go_get (policy r') = go_get np'" "go_wf (policy r')"
    using recalculate_policy [OF r' assms(6)] by metis
  have "NextHop (r'\<lparr>policy := p\<rparr>) dest = Inr hop" if p: "mset p = mset (policy r')" for p
  proof (rule NextHop_host_route)
    show "go_wf (policy (r'\<lparr>policy := p\<rparr>))" using pol(3) mset_eq_imp_distinct_iff [of "go_keys p" "go_keys (policy r')"] p
      by (simp add: go_wf_def mset_map)
    have "set p = set (policy r')" using p by (metis set_mset_mset)
    then show "(NewHostOnlySubnet dest, hop) \<in> set (policy (r'\<lparr>policy := p\<rparr>))"
      using hop(1) pol np go_get_Some_iff [OF pol(3)] by simp
  qed (rule nodes_okD [OF assms(4,7)])
  then show ?thesis using r' hop(2) least by blast
qed

lemma ex_walk:
  "walk f32_add f32_zero (link source_order ex_nodes) (ex_ip 1) (ex_ip 2) f32_one"
proof -
  have c: "Subnet_Contains (NewHostOnlySubnet (ex_ip 2)) (ex_ip 2)"
    using host_only_contains_iff [of "ex_ip 2" "ex_ip 2"] by (simp add: ex_ip_def IP_Equal_def net_Equal_def)
  have m: "conns_of ex_nodes (ex_ip 1) = [(NewHostOnlySubnet (ex_ip 2), f32_one)]"
    by (simp add: conns_of_def go_get_or_def ex_nodes_def ex_ip_def)
  have k: "ex_ip 1 \<in> set (go_keys ex_nodes)" "ex_ip 2 \<in> set (go_keys ex_nodes)"
    by (simp_all add: ex_nodes_def)
  obtain e where e: "link source_order ex_nodes (ex_ip 1) (ex_ip 2) = Some e"
    using link_complete [OF source_order_ok k _ c] m by fastforce
  have "e = f32_one" using link_sound(3) [OF source_order_ok e] by (auto simp: m split: if_splits)
  moreover have "f32_add f32_zero f32_one = f32_one"
    using f32_cost_one(1) by (simp add: f32_cost_def f32_zero_def f32_one_def)
  ultimately show ?thesis using walk_step [where edge = "link source_order ex_nodes", OF walk_start e, of f32_add f32_zero] by simp
qed

theorem next_hop_follows_shortest_path_witness:
  "\<exists>r'. recalculate list_pq source_order ex_router = Some r' \<and>
    (\<forall>p. mset p = mset (policy r') \<longrightarrow> (\<exists>hop c'. NextHop (r'\<lparr>policy := p\<rparr>) (ex_ip 2) = Inr hop \<and>
       walk_via f32_add f32_zero (link source_order (nodes ex_router)) (myAddr ex_router) hop (ex_ip 2) c' \<and>
       (\<forall>c''. walk f32_add f32_zero (link source_order (nodes ex_router)) (myAddr ex_router) (ex_ip 2) c'' \<longrightarrow>
          \<not> f32_less c'' c')))"
  by (rule next_hop_follows_shortest_path [OF lpq.prio_queue_axioms source_order_ok, where c = f32_one])
    (use ex_nodes_ok ex_me ex_walk f32_cost_one in
      \<open>simp_all add: ex_router_def router_New_def ex_nodes_def ex_ip_def\<close>)

text \<open>
  C15. \<open>NextHop\<close> is a longest-prefix match, in whatever order it sees the policy: it returns an
  entry whose subnet contains the address and whose prefix no other matching entry exceeds, and
  it fails, with \<open>ErrNoRouteToHost\<close>, exactly when no entry matches.
\<close>

theorem next_hop_longest_prefix:
  "case NextHop r dest of
     Inl err \<Rightarrow> err = ErrNoRouteToHost \<and> (\<forall>(k, v)\<in>set (policy r). \<not> Subnet_Contains k dest)
   | Inr h \<Rightarrow> \<exists>k. (k, h) \<in> set (policy r) \<and> Subnet_Contains k dest
       \<and> (\<forall>(k', v')\<in>set (policy r). Subnet_Contains k' dest \<longrightarrow> Subnet_Prefix k' \<le> Subnet_Prefix k)"
  by (rule NextHop_cases)

theorem next_hop_longest_prefix_witness:
  "NextHop (ex_router\<lparr>policy := [(NewHostOnlySubnet (ex_ip 2), ex_ip 2)]\<rparr>) (ex_ip 2) = Inr (ex_ip 2)"
proof -
  let ?r = "ex_router\<lparr>policy := [(NewHostOnlySubnet (ex_ip 2), ex_ip 2)]\<rparr>"
  have "Subnet_Contains (NewHostOnlySubnet (ex_ip 2)) (ex_ip 2)"
    using host_only_contains_iff [of "ex_ip 2" "ex_ip 2"] by (simp add: ex_ip_def IP_Equal_def net_Equal_def)
  then show ?thesis
    using next_hop_longest_prefix [of ?r "ex_ip 2"] by (auto split: sum.splits)
qed

lemma walk_cost_positive:
  assumes g: "f32l.graph_ok edge V []" and "\<And>v e. edge src v = Some e \<Longrightarrow> f32_less f32_zero e"
    and "walk f32_add f32_zero edge src v c"
  shows "v = src \<and> c = f32_zero \<or> f32_less f32_zero c"
  using assms(3)
proof (induction rule: walk.induct)
  case (walk_step u c v e)
  have e: "f32_cost e" using walk_step(2) g unfolding f32l.graph_ok_def by blast
  have c: "f32_cost c" by (rule f32l.walk_is_cost [OF g walk_step(1)])
  note ce = f32_cost_add [OF c e]
  from walk_step.IH show ?case
  proof
    assume u: "u = src \<and> c = f32_zero"
    then have "f32_less f32_zero e" using assms(2) walk_step(2) by blast
    moreover have "f32_add f32_zero e = e"
      using e by (cases e) (simp_all add: f32_cost_def f32_zero_def)
    ultimately show ?thesis using u by simp
  next
    assume "f32_less f32_zero c"
    then have "f32_less f32_zero (f32_add c e)"
      using f32c.less_not_less_trans [OF f32_cost_consts(1) c ce] f32_add_inflates [OF c e] by blast
    then show ?thesis by simp
  qed
qed simp

lemma walk_via_first:
  assumes g: "f32l.graph_ok edge V []" and "walk_via f32_add f32_zero edge src p v c"
  shows "\<exists>e. edge src p = Some e \<and> \<not> f32_less c (f32_add f32_zero e)"
  using assms(2)
proof (induction rule: walk_via.induct)
  case (via_step u c v e)
  then obtain e0 where e0: "edge src p = Some e0" "\<not> f32_less c (f32_add f32_zero e0)" by blast
  have e: "f32_cost e" "f32_cost e0" using via_step(2) e0(1) g unfolding f32l.graph_ok_def by blast+
  have c: "f32_cost c" using f32l.walk_is_cost [OF g walk_via_walk [OF via_step(1)]] .
  have "\<not> f32_less (f32_add c e) (f32_add f32_zero e0)"
    by (rule f32c.not_less_trans [OF f32_cost_add [OF f32_cost_consts(1) e(2)] c f32_cost_add [OF c e(1)] e0(2)
        f32_add_inflates [OF c e(1)]])
  then show ?case using e0(1) by blast
qed (auto simp: f32_less_irrefl)

text \<open>What the two statements about subnets share: the chosen candidate and its label.\<close>

lemma advertised_route:
  assumes "policy_facts o' me ns cost prev np" "offers ns k v"
  shows "\<exists>cs. set cs = {v. offers ns k v} \<and>
    go_get np k = (if best_candidate cost np cs \<noteq> [] then Some (best_candidate cost np cs) else None)"
proof -
  have "advertised ns k" using assms(2) by (simp add: offers_def)
  with assms(1) show ?thesis unfolding policy_facts_def Let_def by blast
qed

lemma self_unrouted:
  assumes "policy_facts o' me ns cost prev np" "me \<in> set (go_keys ns)"
  shows "go_get np (NewHostOnlySubnet me) = None"
proof -
  have "prd prev me = []" using f32l.inv_src(2) [OF facts_inv [OF assms(1)]] .
  moreover have "if prd prev me = [] then go_get np (NewHostOnlySubnet me) = None
      else \<exists>p. go_get np (NewHostOnlySubnet me) = Some p \<and> p \<noteq> me
        \<and> walk_via f32_add f32_zero (link o' ns) me p me (lab cost me)"
    using assms unfolding policy_facts_def by blast
  ultimately show ?thesis by simp
qed

lemma first_hop_label:
  assumes f: "policy_facts o' me ns cost prev np" and g: "f32l.graph_ok (link o' ns) (set (go_keys ns)) []"
    and v: "v \<in> set (go_keys ns)" "v \<noteq> me" and h: "go_get np (NewHostOnlySubnet v) = Some h"
  shows "h \<in> set (go_keys ns)" "f32_less (lab cost h) f32_max" "h \<noteq> []" "h \<noteq> me"
proof -
  from host_route_facts [OF f g v] h
  have w: "walk_via f32_add f32_zero (link o' ns) me h v (lab cost v)" and t: "f32_less (lab cost v) f32_max"
    and "h \<noteq> me" by simp_all
  then show "h \<noteq> me" by simp
  obtain e where e: "link o' ns me h = Some e" "\<not> f32_less (lab cost v) (f32_add f32_zero e)"
    using walk_via_first [OF g w] by blast
  have c: "f32_cost e" "h \<in> set (go_keys ns)" "h \<noteq> []" using e(1) g unfolding f32l.graph_ok_def by auto
  note k = f32l.inv_cost [OF facts_inv [OF f]]
  have "\<not> f32_less (f32_add f32_zero e) (lab cost h)"
    using label_is_least [OF f g walk_step [where edge = "link o' ns", OF walk_start e(1)]] by blast
  then have "\<not> f32_less (lab cost v) (lab cost h)"
    using f32c.not_less_trans [OF k f32_cost_add [OF f32_cost_consts(1) c(1)] k _ e(2)] by blast
  then show "f32_less (lab cost h) f32_max" "h \<in> set (go_keys ns)" "h \<noteq> []"
    using t c f32c.not_less_trans [OF f32_cost_consts(2) k k] by blast+
qed

text \<open>
  C36. A subnet that is not the host subnet of a known node is routed when every known node that
  advertises it is another node with a host route: its next hop is then the first hop of one of
  those nodes, and no first hop of another of them is cheaper to reach.
\<close>

theorem subnet_route_to_advertiser:
  assumes "prio_queue pq elems qinv" "orders_ok o'" "costs_ok ns" "nodes_ok ns" "me \<noteq> []"
    and "new_policy pq o' me ns = Some np" "offers ns k v0"
    and routed: "\<And>v. offers ns k v \<Longrightarrow> v \<noteq> me \<and> go_get np (NewHostOnlySubnet v) \<noteq> None"
  shows "\<exists>v h c. offers ns k v \<and> go_get np (NewHostOnlySubnet v) = Some h \<and> go_get np k = Some h
     \<and> walk f32_add f32_zero (link o' ns) me h c
     \<and> (\<forall>v' h' c'. offers ns k v' \<longrightarrow> go_get np (NewHostOnlySubnet v') = Some h' \<longrightarrow>
          walk f32_add f32_zero (link o' ns) me h' c' \<longrightarrow> \<not> f32_less c' c)"
proof -
  note g = link_graph_ok [OF assms(2-4)]
  obtain cost prev where f: "policy_facts o' me ns cost prev np"
    using prio_queue.new_policy_facts [OF assms(1-5)] assms(6) by auto
  note cc = f32l.inv_cost [OF facts_inv [OF f]]
  obtain cs where cs: "set cs = {v. offers ns k v}"
      and gk: "go_get np k = (if best_candidate cost np cs \<noteq> [] then Some (best_candidate cost np cs) else None)"
    using advertised_route [OF f assms(7)] by blast
  have hop: "\<exists>h. go_get np (NewHostOnlySubnet v) = Some h \<and> via np v = h \<and> h \<in> set (go_keys ns)
      \<and> f32_less (lab cost h) f32_max \<and> h \<noteq> []" if ov: "offers ns k v" for v
  proof -
    obtain h where h: "go_get np (NewHostOnlySubnet v) = Some h" "v \<noteq> me" using routed [OF ov] by auto
    have "v \<in> set (go_keys ns)" using ov by (simp add: offers_def)
    from first_hop_label [OF f g this h(2,1)] h show ?thesis by (simp add: go_get_or_def)
  qed
  have "\<exists>c\<in>set cs. f32_less (lab cost (via np c)) f32_max" using hop assms(7) cs(1) by fastforce
  with best_candidate_least [of cs cost np, OF cc] obtain v where v: "v \<in> set cs" "best_candidate cost np cs = via np v"
      "\<forall>c'\<in>set cs. \<not> f32_less (lab cost (via np c')) (lab cost (via np v))" by auto
  then obtain h where h: "offers ns k v" "go_get np (NewHostOnlySubnet v) = Some h" "via np v = h"
      "h \<in> set (go_keys ns)" "f32_less (lab cost h) f32_max" "h \<noteq> []"
    using hop cs(1) by blast
  have "walk f32_add f32_zero (link o' ns) me h (lab cost h)"
    using f32l.inv_walk [OF facts_inv [OF f] h(4,5)] .
  moreover have "\<not> f32_less c' (lab cost h)"
    if "offers ns k v'" "go_get np (NewHostOnlySubnet v') = Some h'"
      "walk f32_add f32_zero (link o' ns) me h' c'" for v' h' c'
  proof -
    have "\<not> f32_less (lab cost h') (lab cost h)"
      using v(3) that(1,2) cs(1) h(3) by (auto simp: go_get_or_def)
    note k = f32l.inv_cost [OF facts_inv [OF f]]
    show ?thesis
      by (rule f32c.not_less_trans [OF k k f32l.walk_is_cost [OF g that(3)] \<open>\<not> f32_less (lab cost h') _\<close>
          label_is_least [OF f g that(3)]])
  qed
  ultimately show ?thesis using h v(2) gk by (intro exI [of _ v] exI [of _ h] exI [of _ "lab cost h"]) auto
qed

text \<open>
  C37. One advertiser without a host route loses the subnet: when some known node that advertises
  it is unreachable, or is this node itself, and the links of this node have positive costs, the
  policy has no route for the subnet, even if other advertisers can be reached.
\<close>

theorem subnet_route_lost:
  assumes "prio_queue pq elems qinv" "orders_ok o'" "costs_ok ns" "nodes_ok ns" "me \<noteq> []"
    and "new_policy pq o' me ns = Some np" "offers ns k v0" "go_get np (NewHostOnlySubnet v0) = None"
    and pos: "\<And>u e. link o' ns me u = Some e \<Longrightarrow> f32_less f32_zero e"
  shows "go_get np k = None"
proof -
  note g = link_graph_ok [OF assms(2-4)]
  obtain cost prev where f: "policy_facts o' me ns cost prev np"
    using prio_queue.new_policy_facts [OF assms(1-5)] assms(6) by auto
  note cc = f32l.inv_cost [OF facts_inv [OF f]]
  obtain cs where cs: "set cs = {v. offers ns k v}"
      and gk: "go_get np k = (if best_candidate cost np cs \<noteq> [] then Some (best_candidate cost np cs) else None)"
    using advertised_route [OF f assms(7)] by blast
  have "[] \<notin> set (go_keys ns)" using nodes_okD [OF assms(4), of "[]"] by auto
  then have z: "lab cost [] = f32_zero" using f unfolding policy_facts_def by blast
  have v0: "v0 \<in> set cs" "via np v0 = []" using assms(7,8) cs(1) by (simp_all add: go_get_or_def)
  then have "\<exists>c\<in>set cs. f32_less (lab cost (via np c)) f32_max"
    using z f32l.zero_top by (metis)
  with best_candidate_least [of cs cost np, OF cc] obtain v where v: "v \<in> set cs" "best_candidate cost np cs = via np v"
      "\<forall>c'\<in>set cs. \<not> f32_less (lab cost (via np c')) (lab cost (via np v))" by auto
  have "via np v = []"
  proof (rule ccontr)
    assume n: "via np v \<noteq> []"
    then obtain h where h: "go_get np (NewHostOnlySubnet v) = Some h" "via np v = h"
      by (auto simp: go_get_or_def split: option.splits)
    have vk: "v \<in> set (go_keys ns)" using v(1) cs(1) by (simp add: offers_def)
    then have "v \<noteq> me" using self_unrouted [OF f] h(1) by (metis option.distinct(1))
    note hl = first_hop_label [OF f g vk this h(1)]
    have "h = me \<and> lab cost h = f32_zero \<or> f32_less f32_zero (lab cost h)"
      by (rule walk_cost_positive [OF g _ f32l.inv_walk [OF facts_inv [OF f] hl(1,2)]]) (rule pos)
    then have "f32_less f32_zero (lab cost h)" using hl(4) by blast
    then show False using v(3) v0 z h(2) by auto
  qed
  then show ?thesis using gk v(2) by simp
qed

lemma ex_advertised: "advertised ex_nodes ex_subnet" "advertised ex_nodes ex_subnet2"
  by code_simp+

lemma ex_conns: "go_get (conns_of ex_nodes u) k = Some e \<Longrightarrow>
    e = f32_one \<and> (k \<in> {ex_subnet, ex_subnet2} \<or> k \<in> NewHostOnlySubnet ` {ex_ip 1, ex_ip 2, ex_ip 3})"
  by (auto simp: conns_of_def go_get_or_def ex_nodes_def split: if_splits)

lemma ex_offers: "offers ex_nodes ex_subnet2 v \<longleftrightarrow> v = ex_ip 2" "offers ex_nodes ex_subnet (ex_ip 4)"
proof -
  have o: "offers ex_nodes k v \<longleftrightarrow> v \<in> set (go_keys ex_nodes) \<and> k \<in> set (go_keys (conns_of ex_nodes v))"
    if "k \<in> {ex_subnet, ex_subnet2}" for k v
    using that ex_advertised by (auto simp: offers_def)
  show "offers ex_nodes ex_subnet2 v \<longleftrightarrow> v = ex_ip 2" "offers ex_nodes ex_subnet (ex_ip 4)"
    by (auto simp: o) (auto simp: conns_of_def go_get_or_def ex_nodes_def ex_ip_def ex_subnet_def ex_subnet2_def
      NewHostOnlySubnet_def split: if_splits)
qed

lemma ex_no_contains:
  "\<not> Subnet_Contains ex_subnet (ex_ip 4)" "\<not> Subnet_Contains ex_subnet2 (ex_ip 4)"
  "\<not> Subnet_Contains (NewHostOnlySubnet (ex_ip 1)) (ex_ip 4)" "\<not> Subnet_Contains (NewHostOnlySubnet (ex_ip 2)) (ex_ip 4)"
  "\<not> Subnet_Contains (NewHostOnlySubnet (ex_ip 3)) (ex_ip 4)"
  by code_simp+

text \<open>In the example, the calculation succeeds, B is routed and D is not.\<close>

lemma ex_policy:
  "\<exists>np. new_policy list_pq source_order (ex_ip 1) ex_nodes = Some np
     \<and> go_get np (NewHostOnlySubnet (ex_ip 2)) \<noteq> None \<and> go_get np (NewHostOnlySubnet (ex_ip 4)) = None"
proof -
  obtain cost prev np where np: "new_policy list_pq source_order (ex_ip 1) ex_nodes = Some np"
      and f: "policy_facts source_order (ex_ip 1) ex_nodes cost prev np"
    using lpq.new_policy_facts [OF source_order_ok ex_nodes_ok(2,1) ex_me(1)] by blast
  note g = link_graph_ok [OF source_order_ok ex_nodes_ok(2,1)]
  have k: "ex_ip 2 \<in> set (go_keys ex_nodes)" "ex_ip 2 \<noteq> ex_ip 1" "ex_ip 4 \<in> set (go_keys ex_nodes)" "ex_ip 4 \<noteq> ex_ip 1"
    by (simp_all add: ex_nodes_def ex_ip_def)
  have "lab cost (ex_ip 2) \<noteq> f32_max"
    using label_is_least [OF f g ex_walk] f32_cost_one(3) by auto
  then have "go_get np (NewHostOnlySubnet (ex_ip 2)) \<noteq> None"
    using host_route_facts [OF f g k(1,2)] by (auto split: option.splits)
  moreover have "go_get np (NewHostOnlySubnet (ex_ip 4)) = None"
  proof (rule ccontr)
    assume "go_get np (NewHostOnlySubnet (ex_ip 4)) \<noteq> None"
    then obtain p where "walk_via f32_add f32_zero (link source_order ex_nodes) (ex_ip 1) p (ex_ip 4) (lab cost (ex_ip 4))"
      using host_route_facts [OF f g k(3,4)] by (auto split: option.splits)
    then have "walk f32_add f32_zero (link source_order ex_nodes) (ex_ip 1) (ex_ip 4) (lab cost (ex_ip 4))"
      by (rule walk_via_walk)
    then obtain u e where "link source_order ex_nodes u (ex_ip 4) = Some e"
      using k(4) by (cases rule: walk.cases) auto
    from link_sound(3) [OF source_order_ok this] obtain k where
      "go_get (conns_of ex_nodes u) k = Some e" "Subnet_Contains k (ex_ip 4)" by blast
    then show False using ex_conns [of u k e] ex_no_contains by auto
  qed
  ultimately show ?thesis using np by blast
qed

theorem subnet_route_lost_witness:
  "\<exists>np. new_policy list_pq source_order (ex_ip 1) ex_nodes = Some np \<and> go_get np ex_subnet = None"
proof -
  obtain np where np: "new_policy list_pq source_order (ex_ip 1) ex_nodes = Some np"
      "go_get np (NewHostOnlySubnet (ex_ip 4)) = None" using ex_policy by blast
  have "go_get np ex_subnet = None"
  proof (rule subnet_route_lost [OF lpq.prio_queue_axioms source_order_ok ex_nodes_ok(2,1) ex_me(1) np(1)
        ex_offers(2) np(2)])
    fix u e
    assume "link source_order ex_nodes (ex_ip 1) u = Some e"
    from link_sound(3) [OF source_order_ok this] show "f32_less f32_zero e"
      using ex_conns f32_cost_one(2) by blast
  qed
  then show ?thesis using np(1) by blast
qed

theorem subnet_route_to_advertiser_witness:
  "\<exists>np h. new_policy list_pq source_order (ex_ip 1) ex_nodes = Some np
     \<and> go_get np (NewHostOnlySubnet (ex_ip 2)) = Some h \<and> go_get np ex_subnet2 = Some h"
proof -
  obtain np where np: "new_policy list_pq source_order (ex_ip 1) ex_nodes = Some np"
      "go_get np (NewHostOnlySubnet (ex_ip 2)) \<noteq> None" using ex_policy by blast
  have "ex_ip 2 \<noteq> ex_ip 1" by (simp add: ex_ip_def)
  then show ?thesis
    using subnet_route_to_advertiser [OF lpq.prio_queue_axioms source_order_ok ex_nodes_ok(2,1) ex_me(1) np(1),
        of ex_subnet2 "ex_ip 2"] np ex_offers(1) by auto
qed

text \<open>
  C12. The main loop of the route calculation ends for every set of advertised costs, negative
  costs, infinities and NaNs included, since \<open>float32\<close> has finitely many values.
\<close>

theorem main_loop_terminates:
  assumes "prio_queue pq elems qinv" "orders_ok o'"
  shows "\<exists>cost prev. dijkstra pq o' (fst (collect_links o' ns)) 0 (init_labels pq o' me ns) = Some (cost, prev)"
proof -
  obtain Q cost prev where i: "init_labels pq o' me ns = (Q, cost, prev)" "qinv Q"
    using prio_queue.init_labels_state [OF assms] by blast
  have "v \<in> set (go_keys ns)" if "go_get (go_get_or [] (fst (collect_links o' ns)) u) v = Some e" for u v e
    using link_sound(2) [OF assms(2), of ns u v e] that by (simp add: link_def)
  then have "\<exists>Q' cost' prev'. dijkstra pq o' (fst (collect_links o' ns)) 0 (Q, cost, prev) = Some (cost', prev')
      \<and> elems Q' = {} \<and> True"
    by (intro prio_queue.dijkstra_rule [OF assms(1), where I = "\<lambda>_ _ _. True" and V = "set (go_keys ns)"])
      (use assms(2) i(2) in auto)
  then show ?thesis unfolding i(1) by blast
qed

theorem main_loop_terminates_witness:
  "\<exists>cost prev. dijkstra list_pq source_order
     (fst (collect_links source_order [(ex_ip 1, Some [(NewHostOnlySubnet (ex_ip 1), NInf)])])) 0
     (init_labels list_pq source_order (ex_ip 1) [(ex_ip 1, Some [(NewHostOnlySubnet (ex_ip 1), NInf)])]) = Some (cost, prev)"
  by (rule main_loop_terminates [OF lpq.prio_queue_axioms source_order_ok])

section \<open>Reachable routers\<close>

text \<open>
  The states a router can get into: created by \<open>New\<close>, then any interleaving of updates, removals and
  recalculations. The mutexes make each of them atomic.
\<close>

inductive router_reach :: "'q pq_ops \<Rightarrow> ip \<Rightarrow> time \<Rightarrow> router \<Rightarrow> bool" for pq addr wait where
  reach_New: "router_reach pq addr wait (router_New addr wait)"
| reach_Update: "router_reach pq addr wait r \<Longrightarrow> UpdateNode r node conns = Inr r' \<Longrightarrow> router_reach pq addr wait r'"
| reach_Remove: "router_reach pq addr wait r \<Longrightarrow> router_reach pq addr wait (RemoveNode r node)"
| reach_Recalculate: "router_reach pq addr wait r \<Longrightarrow> recalculate pq o' r = Some r' \<Longrightarrow> router_reach pq addr wait r'"

definition router_inv :: "router \<Rightarrow> bool" where
  "router_inv r \<longleftrightarrow> go_wf (nodes r) \<and> go_get (nodes r) [] = None \<and> go_wf (policy r)
     \<and> (if updatesBroker r = [] then policy r = [] else go_get (policy r) = go_get (last (updatesBroker r)))"

lemma UpdateNode_inv:
  assumes "UpdateNode r node conns = Inr r'"
  shows "router_inv r \<Longrightarrow> router_inv r'" "myAddr r' = myAddr r" "updateWait r' = updateWait r"
  using assms by (auto simp: router_inv_def UpdateNode_def gomap_simps split: if_splits)

lemma RemoveNode_inv:
  "router_inv r \<Longrightarrow> router_inv (RemoveNode r node)"
  "myAddr (RemoveNode r node) = myAddr r" "updateWait (RemoveNode r node) = updateWait r"
  by (simp_all add: router_inv_def RemoveNode_def gomap_simps)

lemma recalculate_inv:
  assumes "recalculate pq o' r = Some r'"
  shows "router_inv r \<Longrightarrow> router_inv r'" "myAddr r' = myAddr r" "updateWait r' = updateWait r"
proof -
  show "myAddr r' = myAddr r" "updateWait r' = updateWait r"
    using assms by (auto simp: recalculate_def split: option.splits)
  assume inv: "router_inv r"
  then have "go_wf (policy r)" by (simp add: router_inv_def)
  from recalculate_policy [OF assms this] obtain np where
    "new_policy pq o' (myAddr r) (nodes r) = Some np" "go_get (policy r') = go_get np" "go_wf (policy r')"
    "updatesBroker r' = updatesBroker r @ [np]" "nodes r' = nodes r" by metis
  then show "router_inv r'" using inv by (simp add: router_inv_def)
qed

text \<open>
  C33. In every state a router can reach, the node table and the policy have one entry per key, no
  node has the empty address, and the policy that lookups use is the last one published.
\<close>

theorem router_invariant:
  assumes "router_reach pq addr wait r"
  shows "router_inv r \<and> myAddr r = addr \<and> updateWait r = wait"
  using assms
proof (induction rule: router_reach.induct)
  case reach_New
  show ?case by (simp add: router_inv_def router_New_def)
next
  case (reach_Update r node conns r')
  then show ?case using UpdateNode_inv [OF reach_Update(2)] by simp
next
  case (reach_Remove r node)
  then show ?case by (simp add: RemoveNode_inv)
next
  case (reach_Recalculate r o' r')
  then show ?case using recalculate_inv [OF reach_Recalculate(2)] by simp
qed

theorem router_invariant_witness:
  "router_inv (RemoveNode (router_New (ex_ip 1) 5) (ex_ip 2)) \<and>
   myAddr (RemoveNode (router_New (ex_ip 1) 5) (ex_ip 2)) = ex_ip 1 \<and>
   updateWait (RemoveNode (router_New (ex_ip 1) 5) (ex_ip 2)) = 5"
  by (rule router_invariant [where pq = list_pq, OF reach_Remove [OF reach_New]])

end
