(* ===== verification/NodeState.thy ===== *)
theory NodeState
  imports Router
begin

text \<open>
  The state of one node, \<^verbatim>\<open>pkg/netopus/netopus.go\<close>: the struct \<open>netopus\<close>, its sessions
  (\<open>protoSession\<close>) and its out-of-band packet connections (\<open>OOBPacketConn\<close>).

  Pointers are numbers: \<open>sessionInfo\<close> maps a peer address to a session number and \<open>sessHeap\<close> the number
  to the session, so that two table entries can name the same session; \<open>oobPorts\<close> and \<open>opcHeap\<close> do the
  same for packet connections. Backend connections and stream connections are numbers that the
  effects refer to. A context is represented by whether it is done.

  What an operation does to the outside (a write on a connection, a packet handed to the IP stack,
  a callback) is appended to \<open>effects\<close>. A write that the code starts in a goroutine of its own is
  appended where the goroutine is started; its outcome is only logged by the code.
\<close>

section \<open>Records\<close>

record configInfo =
  ci_configVersion :: time
  ci_configData :: bytes
  ci_configSignature :: bytes

record externalRouteInfo =
  er_dest :: subnet
  er_cost :: f32
  er_outgoingPacketFunc :: "nat option"   \<comment> \<open>\<open>None\<close> is the nil function\<close>

record externalNameInfo =
  en_ip :: ip
  en_fromNode :: string

record nodeInfo =
  ni_name :: string
  ni_epoch :: "64 word"
  ni_sequence :: "64 word"
  ni_configVersion :: time
  ni_lastUpdate :: time

definition zero_nodeInfo :: nodeInfo where
  "zero_nodeInfo = \<lparr>ni_name = [], ni_epoch = 0, ni_sequence = 0, ni_configVersion = 0, ni_lastUpdate = 0\<rparr>"

definition connectionStateInit :: byte where "connectionStateInit = 0"
definition connectionStateConnecting :: byte where "connectionStateConnecting = 1"
definition connectionStateConnected :: byte where "connectionStateConnected = 2"

lemmas connectionState_defs =
  connectionStateInit_def connectionStateConnecting_def connectionStateConnected_def

text \<open>
  The goroutines that a session has started and that have not returned: waiting for the peer's
  routing stream, dialling it since a point in time, the five-second timer of an attempt, and the
  reader of routing updates. Attempts are numbered.
\<close>

datatype goroutine =
    GAccept nat ip
  | GDial nat ip time
  | GRouteTimer nat
  | GRouteReader

record protoSession =
  ps_done :: bool            \<comment> \<open>\<open>ctx.Err() != nil\<close>\<close>
  ps_conn :: nat             \<comment> \<open>the backend connection\<close>
  ps_isServer :: bool        \<comment> \<open>\<open>conn.IsServer()\<close>\<close>
  ps_cost :: f32
  ps_remoteAddr :: ip
  ps_connectionState :: byte
  ps_connStart :: time
  ps_lastInit :: time
  ps_oobRoutePacketConn :: "nat option"
  ps_oobRouteListener :: "nat option"
  ps_oobRouteConn :: "nat option"
  ps_lastActivity :: time    \<comment> \<open>a variable of \<open>protoLoop\<close>\<close>
  ps_attempts :: nat         \<comment> \<open>connection attempts so far\<close>
  ps_goroutines :: "goroutine list"

datatype send_func = SendFuncOOB | SendFuncRoutingOOB

record OOBPacketConn =
  opc_done :: bool
  opc_sendFunc :: send_func
  opc_closePort :: "16 word option"   \<comment> \<open>the port that \<open>closeFunc\<close> frees, \<open>None\<close> for a nil \<open>closeFunc\<close>\<close>
  opc_sourceAddr :: ip
  opc_sourcePort :: "16 word"
  opc_readDeadline :: time
  opc_inbound :: "OOBMessage list"    \<comment> \<open>messages whose senders wait at the unbuffered channel\<close>

datatype effect =
    StackSend bytes
  | ConnWrite nat bytes
  | RouteConnWrite nat bytes
  | OutgoingPacket nat bytes
  | NewConfig bytes bytes

record netopus =
  n_addr :: ip
  n_name :: string
  n_mtu :: "16 word"
  n_router :: router
  n_sessionInfo :: "(ip, nat) gomap"
  n_sessHeap :: "(nat, protoSession) gomap"
  n_epoch :: "64 word"
  n_sequence :: "64 word"
  n_knownNodeInfo :: "(ip, nodeInfo) gomap"
  n_externalRoutes :: "(string, externalRouteInfo) gomap"
  n_externalNames :: "(string, externalNameInfo) gomap"
  n_updateSender :: "time list"       \<comment> \<open>the durations passed to \<open>RunWithin\<close>\<close>
  n_oobPorts :: "(16 word, nat) gomap"
  n_opcHeap :: "(nat, OOBPacketConn) gomap"
  n_configInfo :: configInfo
  n_hasNewConfigFunc :: bool
  n_effects :: "effect list"

definition netopus_MTU :: "netopus \<Rightarrow> 16 word" where
  "netopus_MTU n = n_mtu n"

definition emit :: "effect \<Rightarrow> netopus \<Rightarrow> netopus" where
  "emit e n = n\<lparr>n_effects := n_effects n @ [e]\<rparr>"

definition updateSender_RunWithin :: "time \<Rightarrow> netopus \<Rightarrow> netopus" where
  "updateSender_RunWithin d n = n\<lparr>n_updateSender := n_updateSender n @ [d]\<rparr>"

definition upd_sess :: "nat \<Rightarrow> (protoSession \<Rightarrow> protoSession) \<Rightarrow> netopus \<Rightarrow> netopus" where
  "upd_sess s f n =
     (case go_get (n_sessHeap n) s of
        None \<Rightarrow> n
      | Some p \<Rightarrow> n\<lparr>n_sessHeap := go_set (n_sessHeap n) s (f p)\<rparr>)"

text \<open>\<open>sessionInfo[addr]\<close>: the session of a peer, \<open>None\<close> for the nil pointer.\<close>

definition session_of :: "netopus \<Rightarrow> ip \<Rightarrow> protoSession option" where
  "session_of n a = Option.bind (go_get (n_sessionInfo n) a) (go_get (n_sessHeap n))"

section \<open>Creating a node\<close>

record npOpts =
  o_mtu :: "16 word"
  o_ncf :: bool   \<comment> \<open>whether there is a function for new configurations\<close>

definition WithMTU :: "16 word \<Rightarrow> npOpts \<Rightarrow> npOpts" where
  "WithMTU mtu o' = o'\<lparr>o_mtu := mtu\<rparr>"

definition WithNewConfigFunc :: "bool \<Rightarrow> npOpts \<Rightarrow> npOpts" where
  "WithNewConfigFunc ncf o' = o'\<lparr>o_ncf := ncf\<rparr>"

text \<open>
  \<open>New\<close>: the options are applied in order, \<open>stack\<close> is what creating the IP stack returned and
  \<open>now\<close> the time. The goroutines it starts are the operations of the theories below.
\<close>

definition netopus_New ::
    "ip \<Rightarrow> string \<Rightarrow> (npOpts \<Rightarrow> npOpts) list \<Rightarrow> unit result \<Rightarrow> 64 word \<Rightarrow> netopus result" where
  "netopus_New addr name opts stack now =
     (let o' = fold (\<lambda>opt o'. opt o') opts \<lparr>o_mtu = 1500, o_ncf = False\<rparr> in
      if length addr \<noteq> 16 then Inl (Errorf ''address must be IPv6'')
      else case stack of
        Inl err \<Rightarrow> Inl err
      | Inr _ \<Rightarrow>
          Inr \<lparr>n_addr = addr, n_name = name, n_mtu = o_mtu o',
               n_router = router_New addr (100 * millisecond),
               n_sessionInfo = [], n_sessHeap = [], n_epoch = now, n_sequence = 0,
               n_knownNodeInfo = [], n_externalRoutes = [], n_externalNames = [], n_updateSender = [],
               n_oobPorts = [], n_opcHeap = [],
               n_configInfo = \<lparr>ci_configVersion = 0, ci_configData = [], ci_configSignature = []\<rparr>,
               n_hasNewConfigFunc = o_ncf o', n_effects = []\<rparr>)"

lemma emit_sel [simp]:
  "n_addr (emit e n) = n_addr n" "n_router (emit e n) = n_router n" "n_sessionInfo (emit e n) = n_sessionInfo n"
  "n_sessHeap (emit e n) = n_sessHeap n" "n_externalRoutes (emit e n) = n_externalRoutes n"
  "n_oobPorts (emit e n) = n_oobPorts n" "n_opcHeap (emit e n) = n_opcHeap n"
  "n_knownNodeInfo (emit e n) = n_knownNodeInfo n" "n_externalNames (emit e n) = n_externalNames n"
  "n_effects (emit e n) = n_effects n @ [e]" "n_updateSender (emit e n) = n_updateSender n"
  "n_epoch (emit e n) = n_epoch n" "n_sequence (emit e n) = n_sequence n" "n_name (emit e n) = n_name n"
  "n_configInfo (emit e n) = n_configInfo n" "n_hasNewConfigFunc (emit e n) = n_hasNewConfigFunc n"
  by (simp_all add: emit_def)

lemma RunWithin_sel [simp]:
  "n_addr (updateSender_RunWithin d n) = n_addr n" "n_router (updateSender_RunWithin d n) = n_router n"
  "n_sessionInfo (updateSender_RunWithin d n) = n_sessionInfo n"
  "n_sessHeap (updateSender_RunWithin d n) = n_sessHeap n"
  "n_externalRoutes (updateSender_RunWithin d n) = n_externalRoutes n"
  "n_oobPorts (updateSender_RunWithin d n) = n_oobPorts n" "n_opcHeap (updateSender_RunWithin d n) = n_opcHeap n"
  "n_knownNodeInfo (updateSender_RunWithin d n) = n_knownNodeInfo n"
  "n_externalNames (updateSender_RunWithin d n) = n_externalNames n"
  "n_effects (updateSender_RunWithin d n) = n_effects n"
  "n_updateSender (updateSender_RunWithin d n) = n_updateSender n @ [d]"
  "n_epoch (updateSender_RunWithin d n) = n_epoch n" "n_sequence (updateSender_RunWithin d n) = n_sequence n"
  "n_name (updateSender_RunWithin d n) = n_name n" "n_configInfo (updateSender_RunWithin d n) = n_configInfo n"
  "n_hasNewConfigFunc (updateSender_RunWithin d n) = n_hasNewConfigFunc n"
  by (simp_all add: updateSender_RunWithin_def)

lemma session_of_effect [simp]:
  "session_of (emit e n) a = session_of n a" "session_of (updateSender_RunWithin d n) a = session_of n a"
  by (simp_all add: session_of_def)

end
