(* ===== verification/Forwarding.thy ===== *)
theory Forwarding
  imports NodeState
begin

text \<open>
  \<^verbatim>\<open>pkg/netopus/netopus.go\<close>, the data path: \<open>SendPacket\<close> with \<open>sendICMPv6Error\<close>, \<open>SendOOB\<close> and
  \<open>sendRoutingOOB\<close>.

  The accessors of gVisor's \<open>header\<close> package are the argument \<open>h\<close>, used through the locale
  \<open>ipv6_header\<close> that states what they do to the fields of a packet; \<open>rfc_ipv6\<close> implements it on the
  layout of RFC 8200. What handing a packet to the IP stack or to the owner of an external route
  returns is the argument \<open>env\<close>.

  \<open>SendPacket\<close> and \<open>sendICMPv6Error\<close> call each other; they are one partial function here, whose value
  \<open>None\<close> is an endless recursion, and \<open>send_packet_returns\<close> shows that there is none.
\<close>

section \<open>gVisor headers\<close>

record IPv6Fields =
  f_PayloadLength :: "16 word"
  f_TransportProtocol :: byte
  f_HopLimit :: byte
  f_SrcAddr :: ip
  f_DstAddr :: ip

record ipv6_ops =
  DestinationAddress :: "bytes \<Rightarrow> ip"
  SourceAddress :: "bytes \<Rightarrow> ip"
  HopLimit :: "bytes \<Rightarrow> byte"
  SetHopLimit :: "byte \<Rightarrow> bytes \<Rightarrow> bytes"
  IsV6MulticastAddress :: "ip \<Rightarrow> bool"
  IPv6_Encode :: "IPv6Fields \<Rightarrow> bytes \<Rightarrow> bytes"
  ICMPv6_SetType :: "byte \<Rightarrow> bytes \<Rightarrow> bytes"
  ICMPv6_SetCode :: "byte \<Rightarrow> bytes \<Rightarrow> bytes"
  ICMPv6_SetChecksum :: "ip \<Rightarrow> ip \<Rightarrow> bytes \<Rightarrow> bytes"   \<comment> \<open>computed over source, destination and message\<close>

abbreviation IPv6MinimumSize :: nat where "IPv6MinimumSize \<equiv> 40"
abbreviation ICMPv6MinimumSize :: nat where "ICMPv6MinimumSize \<equiv> 8"
definition ICMPv6ProtocolNumber :: byte where "ICMPv6ProtocolNumber = 58"
definition ICMPv6DstUnreachable :: byte where "ICMPv6DstUnreachable = 1"
definition ICMPv6NetworkUnreachable :: byte where "ICMPv6NetworkUnreachable = 0"
definition ICMPv6TimeExceeded :: byte where "ICMPv6TimeExceeded = 3"
definition ICMPv6HopLimitExceeded :: byte where "ICMPv6HopLimitExceeded = 0"

locale ipv6_header =
  fixes h :: ipv6_ops
  assumes set_hop: "40 \<le> length p \<Longrightarrow> length (SetHopLimit h l p) = length p
      \<and> DestinationAddress h (SetHopLimit h l p) = DestinationAddress h p
      \<and> SourceAddress h (SetHopLimit h l p) = SourceAddress h p
      \<and> HopLimit h (SetHopLimit h l p) = l
      \<and> take 7 (SetHopLimit h l p) = take 7 p \<and> drop 8 (SetHopLimit h l p) = drop 8 p"
    and encode: "40 \<le> length p \<Longrightarrow> length (f_SrcAddr f) = 16 \<Longrightarrow> length (f_DstAddr f) = 16 \<Longrightarrow>
      length (IPv6_Encode h f p) = length p
      \<and> DestinationAddress h (IPv6_Encode h f p) = f_DstAddr f
      \<and> SourceAddress h (IPv6_Encode h f p) = f_SrcAddr f
      \<and> HopLimit h (IPv6_Encode h f p) = f_HopLimit f"
    and payload: "40 \<le> length p \<Longrightarrow> DestinationAddress h (take 40 p @ x) = DestinationAddress h p
      \<and> SourceAddress h (take 40 p @ x) = SourceAddress h p
      \<and> HopLimit h (take 40 p @ x) = HopLimit h p"
    and addr_len: "40 \<le> length p \<Longrightarrow> length (DestinationAddress h p) = 16 \<and> length (SourceAddress h p) = 16"

section \<open>Operations\<close>

record fwd_env =
  env_stack_SendPacket :: "bytes \<Rightarrow> go_error option"
  env_outgoingPacket :: "nat \<Rightarrow> bytes \<Rightarrow> go_error option"

text \<open>The packet that \<open>sendICMPv6Error\<close> sends.\<close>

definition icmp_reply :: "ipv6_ops \<Rightarrow> ip \<Rightarrow> bytes \<Rightarrow> byte \<Rightarrow> byte \<Rightarrow> bytes" where
  "icmp_reply h addr origPacket icmpType icmpCode =
     (let extraSize = IPv6MinimumSize + 8;
          extraSize = (if extraSize > length origPacket then length origPacket else extraSize);
          replyPkt = replicate (IPv6MinimumSize + ICMPv6MinimumSize + extraSize) 0;
          replyPkt = IPv6_Encode h
            \<lparr>f_PayloadLength = of_nat (ICMPv6MinimumSize + extraSize),
             f_TransportProtocol = ICMPv6ProtocolNumber, f_HopLimit = 30,
             f_SrcAddr = addr, f_DstAddr = SourceAddress h origPacket\<rparr> replyPkt;
          replyICMP = drop IPv6MinimumSize replyPkt;
          replyICMP = ICMPv6_SetType h icmpType replyICMP;
          replyICMP = ICMPv6_SetCode h icmpCode replyICMP;
          replyICMP = copy_into ICMPv6MinimumSize (length replyICMP) (take extraSize origPacket) replyICMP;
          replyICMP = ICMPv6_SetChecksum h (SourceAddress h replyPkt) (DestinationAddress h replyPkt) replyICMP
      in take IPv6MinimumSize replyPkt @ replyICMP)"

text \<open>The outgoing function of the first external route that contains the destination, if it has one.\<close>

definition external_route :: "netopus \<Rightarrow> ip \<Rightarrow> nat option" where
  "external_route n dest =
     (case find (\<lambda>(_, r). Subnet_Contains (er_dest r) dest) (n_externalRoutes n) of
        None \<Rightarrow> None
      | Some (_, r) \<Rightarrow> er_outgoingPacketFunc r)"

partial_function (option) SendPacket ::
    "ipv6_ops \<Rightarrow> fwd_env \<Rightarrow> netopus \<Rightarrow> bytes \<Rightarrow> (netopus \<times> go_error option) option" where
  [code]: "SendPacket h env n packet =
     (if length packet < IPv6MinimumSize then Some (n, Some (Errorf ''malformed packet: too small''))
      else let dest = DestinationAddress h packet in
      if IsV6MulticastAddress h dest then Some (n, None)
      else if IP_Equal dest (n_addr n)
      then Some (emit (StackSend packet) n, env_stack_SendPacket env packet)
      else let limit = HopLimit h packet in
      if limit \<le> 1
      then Option.bind
             (SendPacket h env n (icmp_reply h (n_addr n) packet ICMPv6TimeExceeded ICMPv6HopLimitExceeded))
             (\<lambda>(n', _). Some (n', None))
      else let packet = SetHopLimit h (limit - 1) packet in
      case external_route n dest of
        Some opf \<Rightarrow> Some (emit (OutgoingPacket opf packet) n, env_outgoingPacket env opf packet)
      | None \<Rightarrow>
          (case NextHop (n_router n) dest of
             Inl err \<Rightarrow>
               Option.bind
                 (SendPacket h env (updateSender_RunWithin (100 * millisecond) n)
                   (icmp_reply h (n_addr n) packet ICMPv6DstUnreachable ICMPv6NetworkUnreachable))
                 (\<lambda>(n', _). Some (n', Some (Errorf (''no route to host: '' @ IP_String dest))))
           | Inr nextHop \<Rightarrow>
               (case session_of n nextHop of
                  None \<Rightarrow> Some (n, Some (Errorf (''no connection to next hop '' @ IP_String nextHop)))
                | Some nextHopSess \<Rightarrow> Some (emit (ConnWrite (ps_conn nextHopSess) packet) n, None))))"

definition sendICMPv6Error ::
    "ipv6_ops \<Rightarrow> fwd_env \<Rightarrow> netopus \<Rightarrow> bytes \<Rightarrow> byte \<Rightarrow> byte \<Rightarrow> netopus option" where
  "sendICMPv6Error h env n origPacket icmpType icmpCode =
     map_option fst (SendPacket h env n (icmp_reply h (n_addr n) origPacket icmpType icmpCode))"

text \<open>
  \<open>SendOOB\<close>. Local delivery hands the message to the packet connection in a goroutine, which waits
  there until it is read.
\<close>

definition opc_offer :: "nat \<Rightarrow> OOBMessage \<Rightarrow> netopus \<Rightarrow> netopus" where
  "opc_offer c msg n =
     (case go_get (n_opcHeap n) c of
        None \<Rightarrow> n
      | Some opc \<Rightarrow>
          if opc_done opc then n
          else n\<lparr>n_opcHeap := go_set (n_opcHeap n) c (opc\<lparr>opc_inbound := opc_inbound opc @ [msg]\<rparr>)\<rparr>)"

definition SendOOB :: "netopus \<Rightarrow> OOBMessage \<Rightarrow> netopus \<times> go_error option" where
  "SendOOB n msg =
     (if IP_Equal (DestAddr msg) (n_addr n)
      then case go_get (n_oobPorts n) (DestPort msg) of
             None \<Rightarrow> (n, Some (Errorf ''OOB port unreachable''))
           | Some pc \<Rightarrow> (opc_offer pc msg n, None)
      else let msg = msg\<lparr>Hops := Hops msg + 1\<rparr> in
      if Hops msg \<ge> 30 then (n, Some (Errorf ''OOB message expired in transit''))
      else let nextHop = (case NextHop (n_router n) (DestAddr msg) of Inl err \<Rightarrow> DestAddr msg | Inr hop \<Rightarrow> hop) in
      case session_of n nextHop of
        None \<Rightarrow> (n, Some (Errorf (''OOB no connection to next hop '' @ IP_String nextHop)))
      | Some nextHopSess \<Rightarrow> (emit (ConnWrite (ps_conn nextHopSess) (OOBMessage_Marshal msg)) n, None))"

definition sendRoutingOOB :: "netopus \<Rightarrow> OOBMessage \<Rightarrow> netopus \<times> go_error option" where
  "sendRoutingOOB n msg =
     (case session_of n (DestAddr msg) of
        None \<Rightarrow> (n, None)
      | Some peerSess \<Rightarrow> (emit (ConnWrite (ps_conn peerSess) (RouteOOBMessage_Marshal msg)) n, None))"

section \<open>The RFC 8200 layout\<close>

definition rfc_ipv6 :: ipv6_ops where
  "rfc_ipv6 =
     \<lparr>DestinationAddress = byte_slice 24 40,
      SourceAddress = byte_slice 8 24,
      HopLimit = (\<lambda>p. p ! 7),
      SetHopLimit = (\<lambda>l p. p[7 := l]),
      IsV6MulticastAddress = (\<lambda>a. a ! 0 = 0xff),
      IPv6_Encode = (\<lambda>f p. [0x60, 0, 0, 0] @ uint16_bytes (f_PayloadLength f)
         @ [f_TransportProtocol f, f_HopLimit f] @ f_SrcAddr f @ f_DstAddr f @ drop 40 p),
      ICMPv6_SetType = (\<lambda>t p. p[0 := t]),
      ICMPv6_SetCode = (\<lambda>c p. p[1 := c]),
      ICMPv6_SetChecksum = (\<lambda>src dst p. p[2 := 0, 3 := 0])\<rparr>"

interpretation rfc: ipv6_header rfc_ipv6
proof
  fix p :: bytes and x l and f :: IPv6Fields
  assume p: "40 \<le> length p"
  then show "length (SetHopLimit rfc_ipv6 l p) = length p
      \<and> DestinationAddress rfc_ipv6 (SetHopLimit rfc_ipv6 l p) = DestinationAddress rfc_ipv6 p
      \<and> SourceAddress rfc_ipv6 (SetHopLimit rfc_ipv6 l p) = SourceAddress rfc_ipv6 p
      \<and> HopLimit rfc_ipv6 (SetHopLimit rfc_ipv6 l p) = l
      \<and> take 7 (SetHopLimit rfc_ipv6 l p) = take 7 p \<and> drop 8 (SetHopLimit rfc_ipv6 l p) = drop 8 p"
    by (simp add: rfc_ipv6_def byte_slice_def)
  from p show "DestinationAddress rfc_ipv6 (take 40 p @ x) = DestinationAddress rfc_ipv6 p
      \<and> SourceAddress rfc_ipv6 (take 40 p @ x) = SourceAddress rfc_ipv6 p
      \<and> HopLimit rfc_ipv6 (take 40 p @ x) = HopLimit rfc_ipv6 p"
    by (simp add: rfc_ipv6_def byte_slice_def take_drop nth_append)
  from p show "length (DestinationAddress rfc_ipv6 p) = 16 \<and> length (SourceAddress rfc_ipv6 p) = 16"
    by (simp add: rfc_ipv6_def)
  assume "length (f_SrcAddr f) = 16" "length (f_DstAddr f) = 16"
  with p show "length (IPv6_Encode rfc_ipv6 f p) = length p
      \<and> DestinationAddress rfc_ipv6 (IPv6_Encode rfc_ipv6 f p) = f_DstAddr f
      \<and> SourceAddress rfc_ipv6 (IPv6_Encode rfc_ipv6 f p) = f_SrcAddr f
      \<and> HopLimit rfc_ipv6 (IPv6_Encode rfc_ipv6 f p) = f_HopLimit f"
    by (simp add: rfc_ipv6_def byte_slice_def uint16_bytes_def numeral_eq_Suc)
qed

section \<open>Termination of the recursion\<close>

lemma IP_Equal_refl [simp]: "IP_Equal a a"
  by (simp add: IP_Equal_def net_Equal_def)

context ipv6_header
begin

lemma icmp_reply_header:
  assumes "length addr = 16" "40 \<le> length p"
  shows "40 \<le> length (icmp_reply h addr p t c)"
    "DestinationAddress h (icmp_reply h addr p t c) = SourceAddress h p"
    "SourceAddress h (icmp_reply h addr p t c) = addr"
    "HopLimit h (icmp_reply h addr p t c) = 30"
proof -
  define extra where "extra = (if 48 > length p then length p else 48)"
  define r where "r = IPv6_Encode h \<lparr>f_PayloadLength = of_nat (8 + extra), f_TransportProtocol = ICMPv6ProtocolNumber,
      f_HopLimit = 30, f_SrcAddr = addr, f_DstAddr = SourceAddress h p\<rparr> (replicate (40 + 8 + extra) 0)"
  obtain x where x: "icmp_reply h addr p t c = take 40 r @ x"
    unfolding icmp_reply_def Let_def r_def extra_def by (simp add: add.commute) 
  have r: "length r = 48 + extra" "DestinationAddress h r = SourceAddress h p" "SourceAddress h r = addr"
      "HopLimit h r = 30"
    using encode [of "replicate (40 + 8 + extra) 0"] assms addr_len [of p] unfolding r_def by simp_all
  then show "40 \<le> length (icmp_reply h addr p t c)"
    "DestinationAddress h (icmp_reply h addr p t c) = SourceAddress h p"
    "SourceAddress h (icmp_reply h addr p t c) = addr"
    "HopLimit h (icmp_reply h addr p t c) = 30"
    using payload [of r x] x by simp_all
qed

lemma SendPacket_to_self:
  assumes "DestinationAddress h p = n_addr n"
  shows "\<exists>n' e. SendPacket h env n p = Some (n', e)"
  by (subst SendPacket.simps) (simp add: assms Let_def)

lemma SendPacket_from_self:
  assumes "length (n_addr n) = 16" "40 \<le> length p" "SourceAddress h p = n_addr n" "1 < HopLimit h p"
  shows "\<exists>n' e. SendPacket h env n p = Some (n', e)"
proof -
  let ?p = "SetHopLimit h (HopLimit h p - 1) p"
  let ?r = "icmp_reply h (n_addr n) ?p ICMPv6DstUnreachable ICMPv6NetworkUnreachable"
  have p: "40 \<le> length ?p" "SourceAddress h ?p = n_addr n" using set_hop [OF assms(2)] assms(2,3) by simp_all
  have "\<exists>n' e. SendPacket h env (updateSender_RunWithin (100 * millisecond) n) ?r = Some (n', e)"
    by (rule SendPacket_to_self) (simp add: icmp_reply_header [OF assms(1) p(1)] p(2))
  then show ?thesis
    using assms(4) by (subst SendPacket.simps) (auto simp: Let_def split: option.split sum.split)
qed

lemma SendPacket_returns:
  assumes "length (n_addr n) = 16"
  shows "\<exists>n' e. SendPacket h env n p = Some (n', e)"
proof (cases "40 \<le> length p")
  case True
  let ?p = "SetHopLimit h (HopLimit h p - 1) p"
  have r: "\<exists>n' e. SendPacket h env m (icmp_reply h (n_addr n) q t c) = Some (n', e)"
    if "40 \<le> length q" "n_addr m = n_addr n" for q t c m
    by (rule SendPacket_from_self) (use that assms icmp_reply_header [OF assms that(1)] in simp_all)
  note r1 = r [OF True, of n ICMPv6TimeExceeded ICMPv6HopLimitExceeded]
  note r2 = r [of ?p "updateSender_RunWithin (100 * millisecond) n" ICMPv6DstUnreachable ICMPv6NetworkUnreachable]
  have "40 \<le> length ?p" using set_hop [OF True] True by simp
  with r1 r2 show ?thesis
    by (subst SendPacket.simps) (auto simp: Let_def split: option.split sum.split)
qed (subst SendPacket.simps, simp)

end

text \<open>
  C32. Sending a packet always returns: an ICMPv6 error that cannot be routed is answered by an
  error to this node itself, which is delivered locally, so errors about errors do not recurse
  further.
\<close>

theorem send_packet_returns:
  assumes "ipv6_header h" "length (n_addr n) = 16"
  shows "\<exists>n' err. SendPacket h env n packet = Some (n', err)"
  by (rule ipv6_header.SendPacket_returns [OF assms])

text \<open>A node for the examples: address A, with a host route to B and a session to B on connection 7.\<close>

definition ex_session :: protoSession where
  "ex_session =
     \<lparr>ps_done = False, ps_conn = 7, ps_isServer = True, ps_cost = f32_one, ps_remoteAddr = ex_ip 2,
      ps_connectionState = connectionStateConnected, ps_connStart = 1, ps_lastInit = 1,
      ps_oobRoutePacketConn = None, ps_oobRouteListener = None, ps_oobRouteConn = Some 9,
      ps_lastActivity = 1, ps_attempts = 1, ps_goroutines = [GRouteReader]\<rparr>"

definition ex_node :: netopus where
  "ex_node =
     \<lparr>n_addr = ex_ip 1, n_name = ''a'', n_mtu = 1500,
      n_router = (router_New (ex_ip 1) 0)\<lparr>policy := [(NewHostOnlySubnet (ex_ip 2), ex_ip 2)]\<rparr>,
      n_sessionInfo = [(ex_ip 2, 0)], n_sessHeap = [(0, ex_session)], n_epoch = 1, n_sequence = 0,
      n_knownNodeInfo = [], n_externalRoutes = [], n_externalNames = [], n_updateSender = [],
      n_oobPorts = [], n_opcHeap = [],
      n_configInfo = \<lparr>ci_configVersion = 0, ci_configData = [], ci_configSignature = []\<rparr>,
      n_hasNewConfigFunc = False, n_effects = []\<rparr>"

definition ex_env :: fwd_env where
  "ex_env = \<lparr>env_stack_SendPacket = \<lambda>_. None, env_outgoingPacket = \<lambda>_ _. None\<rparr>"

text \<open>A packet from \<open>src\<close> to \<open>dst\<close> with a hop limit and no payload.\<close>

definition ex_packet :: "ip \<Rightarrow> ip \<Rightarrow> byte \<Rightarrow> bytes" where
  "ex_packet src dst hops = [0x60, 0, 0, 0, 0, 0, 59, hops] @ src @ dst"

theorem send_packet_returns_witness:
  "\<exists>n' err. SendPacket rfc_ipv6 ex_env ex_node (ex_packet (ex_ip 3) (ex_ip 4) 1) = Some (n', err)"
  by (rule send_packet_returns [OF rfc.ipv6_header_axioms]) (simp add: ex_node_def ex_ip_def)

section \<open>Hop limits\<close>

text \<open>The packet is passed on to a peer: not expired, and written to a session's connection.\<close>

definition forwarded :: "ipv6_ops \<Rightarrow> fwd_env \<Rightarrow> netopus \<Rightarrow> bytes \<Rightarrow> nat \<Rightarrow> bytes \<Rightarrow> bool" where
  "forwarded h env n p c p' \<longleftrightarrow>
     1 < HopLimit h p \<and> SendPacket h env n p = Some (emit (ConnWrite c p') n, None)"

lemma emit_inject [simp]: "emit e n = emit e' n \<longleftrightarrow> e = e'" "n \<noteq> emit e n" "emit e n \<noteq> n"
proof -
  have "n_effects (emit e n) = n_effects n @ [e]" for e by simp
  then show "emit e n = emit e' n \<longleftrightarrow> e = e'" "n \<noteq> emit e n" "emit e n \<noteq> n"
    by (metis append1_eq_conv, metis append_self_conv not_Cons_self2, metis append_self_conv not_Cons_self2)
qed

lemma forwarded_hop:
  assumes "ipv6_header h" "forwarded h env n p c p'"
  shows "40 \<le> length p" "p' = SetHopLimit h (HopLimit h p - 1) p" "HopLimit h p' = HopLimit h p - 1"
proof -
  have f: "1 < HopLimit h p" "SendPacket h env n p = Some (emit (ConnWrite c p') n, None)"
    using assms(2) by (simp_all add: forwarded_def)
  show len: "40 \<le> length p"
    using f(2) by (subst (asm) SendPacket.simps) (simp split: if_splits)
  show p': "p' = SetHopLimit h (HopLimit h p - 1) p"
    using f(2,1) by (subst (asm) SendPacket.simps)
      (auto simp: Let_def bind_eq_Some_conv split: if_splits option.splits sum.splits)
  show "HopLimit h p' = HopLimit h p - 1"
    using ipv6_header.set_hop [OF assms(1) len] by (simp add: p')
qed


lemma ex_forwarded:
  "forwarded rfc_ipv6 ex_env ex_node (ex_packet (ex_ip 3) (ex_ip 2) 5) 7 (ex_packet (ex_ip 3) (ex_ip 2) 4)"
  by code_simp


text \<open>An out-of-band message is passed on: written to a session's connection and decoded at the other end.\<close>

definition oob_forwarded :: "netopus \<Rightarrow> OOBMessage \<Rightarrow> OOBMessage \<Rightarrow> bool" where
  "oob_forwarded n m m' \<longleftrightarrow>
     (\<exists>c b. SendOOB n m = (emit (ConnWrite c b) n, None) \<and> unmarshalOOB b = Inr m')"

lemma opc_offer_effects [simp]: "n_effects (opc_offer c m n) = n_effects n"
  by (simp add: opc_offer_def split: option.split)

lemma oob_forwarded_hops:
  assumes "oob_forwarded n m m'"
  shows "Hops m' = Hops m + 1" "Hops m' < 30" "Data m' = Data m" "DestPort m' = DestPort m"
    "SourcePort m' = SourcePort m" "DestAddr m' = pad16 (DestAddr m)" "SourceAddr m' = pad16 (SourceAddr m)"
proof -
  from assms obtain c b where f: "SendOOB n m = (emit (ConnWrite c b) n, None)" "unmarshalOOB b = Inr m'"
    by (auto simp: oob_forwarded_def)
  have "opc_offer pc m n \<noteq> emit (ConnWrite c b) n" for pc
    by (metis append_self_conv emit_sel(10) not_Cons_self2 opc_offer_effects)
  then have "b = OOBMessage_Marshal (m\<lparr>Hops := Hops m + 1\<rparr>) \<and> Hops m + 1 < 30"
    using f(1) by (auto simp: SendOOB_def Let_def split: if_splits option.splits)
  then show "Hops m' = Hops m + 1" "Hops m' < 30" "Data m' = Data m" "DestPort m' = DestPort m"
    "SourcePort m' = SourcePort m" "DestAddr m' = pad16 (DestAddr m)" "SourceAddr m' = pad16 (SourceAddr m)"
    using f(2) by (auto simp: unmarshalOOB_marshal)
qed

text \<open>
  C38. Hop counts bound the life of an out-of-band message in the same way: a message with count
  \<open>k\<close> is passed on at most \<open>29 - k\<close> times. The count is a byte, so 255 wraps to 0 and such a message
  is passed on up to 30 times.
\<close>

theorem oob_life_bounded:
  assumes "successively (\<lambda>m m'. \<exists>n. oob_forwarded n m m') (m # ms)"
  shows "length ms \<le> (if Hops m = 255 then 30 else 29 - unat (Hops m))"
  using assms
proof (induction ms arbitrary: m)
  case (Cons m' ms)
  then obtain n where "oob_forwarded n m m'" by auto
  note f = oob_forwarded_hops(1,2) [OF this]
  have IH: "length ms \<le> (if Hops m' = 255 then 30 else 29 - unat (Hops m'))"
    using Cons by simp
  have lt: "unat (Hops m') < 30" using f(2) by (simp add: word_less_nat_alt)
  show ?case
  proof (cases "Hops m = 255")
    case True
    then show ?thesis using IH f by simp
  next
    case False
    then have "1 + Hops m \<noteq> 0" by (metis add_eq_0_iff byte_ff)
    then have "unat (Hops m') = unat (Hops m) + 1"
      using f(1) unatSuc [of "Hops m"] by (simp add: add.commute)
    moreover have "Hops m' \<noteq> 255" using f(2) by auto
    ultimately show ?thesis using IH False lt by simp
  qed
qed simp

definition ex_oob :: "byte \<Rightarrow> OOBMessage" where
  "ex_oob hops =
     \<lparr>Hops = hops, SourceAddr = ex_ip 3, SourcePort = 1, DestAddr = ex_ip 2, DestPort = 8, Data = [42]\<rparr>"

theorem oob_life_bounded_witness:
  "length [ex_oob 1] \<le> (if Hops (ex_oob 0) = 255 then 30 else 29 - unat (Hops (ex_oob 0)))"
proof (rule oob_life_bounded)
  have "SendOOB ex_node (ex_oob 0) = (emit (ConnWrite 7 (OOBMessage_Marshal (ex_oob 1))) ex_node, None)"
    by code_simp
  moreover have "unmarshalOOB (OOBMessage_Marshal (ex_oob 1)) = Inr (ex_oob 1)"
    by (simp add: unmarshalOOB_marshal ex_oob_def ex_ip_def)
  ultimately show "successively (\<lambda>m m'. \<exists>n. oob_forwarded n m m') [ex_oob 0, ex_oob 1]"
    by (auto simp: oob_forwarded_def)
qed

section \<open>Expired packets\<close>

text \<open>
  A packet that expires at a forwarding node is dropped, and its sender is told: when the
  sender is routed to a peer, the only effect is an ICMPv6 Time Exceeded message written to that
  peer with hop limit 29. This does not depend on what the expired packet carries, so an expired
  ICMPv6 error is answered by another ICMPv6 error.
\<close>

theorem expired_packet_answered:
  assumes "ipv6_header h" "length (n_addr n) = 16" "40 \<le> length p" "HopLimit h p \<le> 1"
    and "\<not> IsV6MulticastAddress h (DestinationAddress h p)" "\<not> IP_Equal (DestinationAddress h p) (n_addr n)"
    and "\<not> IsV6MulticastAddress h (SourceAddress h p)" "\<not> IP_Equal (SourceAddress h p) (n_addr n)"
    and "external_route n (SourceAddress h p) = None"
    and "NextHop (n_router n) (SourceAddress h p) = Inr hop" "session_of n hop = Some s"
  shows "SendPacket h env n p = Some (emit (ConnWrite (ps_conn s)
           (SetHopLimit h 29 (icmp_reply h (n_addr n) p ICMPv6TimeExceeded ICMPv6HopLimitExceeded))) n, None)"
proof -
  note r = ipv6_header.icmp_reply_header [OF assms(1-3)]
  have nl: "\<not> (30 :: byte) \<le> 1" by code_simp
  have "SendPacket h env n (icmp_reply h (n_addr n) p ICMPv6TimeExceeded ICMPv6HopLimitExceeded)
      = Some (emit (ConnWrite (ps_conn s)
           (SetHopLimit h 29 (icmp_reply h (n_addr n) p ICMPv6TimeExceeded ICMPv6HopLimitExceeded))) n, None)"
    using r assms(7-) by (subst SendPacket.simps) (simp add: Let_def not_less nl)
  then show ?thesis
    using assms(3-6) by (subst SendPacket.simps) (simp add: Let_def)
qed

theorem expired_packet_answered_witness:
  "SendPacket rfc_ipv6 ex_env ex_node (ex_packet (ex_ip 2) (ex_ip 4) 1) =
     Some (emit (ConnWrite 7 (SetHopLimit rfc_ipv6 29
       (icmp_reply rfc_ipv6 (ex_ip 1) (ex_packet (ex_ip 2) (ex_ip 4) 1) ICMPv6TimeExceeded ICMPv6HopLimitExceeded))) ex_node, None)"
proof -
  let ?p = "ex_packet (ex_ip 2) (ex_ip 4) 1"
  have "SourceAddress rfc_ipv6 ?p = ex_ip 2" "DestinationAddress rfc_ipv6 ?p = ex_ip 4" "HopLimit rfc_ipv6 ?p = 1"
    "length ?p = 40" "n_addr ex_node = ex_ip 1" "length (ex_ip 1) = 16"
    "NextHop (n_router ex_node) (ex_ip 2) = Inr (ex_ip 2)" "session_of ex_node (ex_ip 2) = Some ex_session"
    "external_route ex_node (ex_ip 2) = None" "\<not> IsV6MulticastAddress rfc_ipv6 (ex_ip 4)"
    "\<not> IsV6MulticastAddress rfc_ipv6 (ex_ip 2)" "\<not> IP_Equal (ex_ip 4) (ex_ip 1)" "\<not> IP_Equal (ex_ip 2) (ex_ip 1)"
    by code_simp+
  moreover have "ps_conn ex_session = 7" by (simp add: ex_session_def)
  ultimately show ?thesis
    using expired_packet_answered [OF rfc.ipv6_header_axioms, of ex_node ?p "ex_ip 2" ex_session ex_env] by simp
qed

end
