(* ===== verification/RoutingUpdates.thy ===== *)
theory RoutingUpdates
  imports Forwarding
begin

text \<open>
  \<^verbatim>\<open>pkg/netopus/netopus.go\<close>, the control path: generating, flooding and handling routing updates,
  dead nodes, external routes and names, configuration versions, lookups and status.

  \<open>encoding/json\<close> for routing updates is the argument \<open>j\<close> of the operations that use it; the current
  time is an argument \<open>now\<close>. Loops over maps run in list order; the theorems hold for every list
  that represents the map.
\<close>

section \<open>Operations\<close>

record update_codec =
  enc_update :: "RoutingUpdate \<Rightarrow> bytes result"
  dec_update :: "bytes \<Rightarrow> RoutingUpdate result"

text \<open>\<open>floodRoutingUpdate\<close>: one write per session, each in a goroutine of its own.\<close>

definition flood_session ::
    "update_codec \<Rightarrow> RoutingUpdate \<Rightarrow> ip option \<Rightarrow> ip \<times> nat \<Rightarrow> netopus \<Rightarrow> netopus" where
  "flood_session j update except = (\<lambda>(node, sid) n.
     if except = Some node then n
     else case go_get (n_sessHeap n) sid of
       None \<Rightarrow> n
     | Some sess \<Rightarrow>
         if ps_connectionState sess = connectionStateConnected
         then case ps_oobRouteConn sess of
                None \<Rightarrow> n
              | Some orc \<Rightarrow>
                  (case enc_update j update of
                     Inl err \<Rightarrow> n
                   | Inr msgBytes \<Rightarrow> emit (RouteConnWrite orc (msgBytes @ [10])) n)
         else n)"

definition floodRoutingUpdate ::
    "update_codec \<Rightarrow> RoutingUpdate \<Rightarrow> ip option \<Rightarrow> netopus \<Rightarrow> netopus" where
  "floodRoutingUpdate j update except n = fold (flood_session j update except) (n_sessionInfo n) n"

definition checkConfigsConverged :: "netopus \<Rightarrow> time \<Rightarrow> bool" where
  "checkConfigsConverged n myVersion \<longleftrightarrow>
     list_all (\<lambda>(_, v). \<not> ni_configVersion v < myVersion) (n_knownNodeInfo n)"

definition own_conns :: "netopus \<Rightarrow> RoutingConns" where
  "own_conns n =
     (let conns = fold (\<lambda>(_, sid) conns.
              case go_get (n_sessHeap n) sid of
                None \<Rightarrow> conns
              | Some sess \<Rightarrow>
                  if ps_connectionState sess = connectionStateConnected
                  then go_set conns (NewSubnet (ps_remoteAddr sess) (CIDRMask 128 128)) (ps_cost sess)
                  else conns) (n_sessionInfo n) []
      in fold (\<lambda>(_, r) conns. go_set conns (er_dest r) (er_cost r)) (n_externalRoutes n) conns)"

definition own_names :: "netopus \<Rightarrow> (string, ip) gomap" where
  "own_names n = fold (\<lambda>(k, v) names. go_set names k (en_ip v)) (n_externalNames n) []"

definition generateRoutingUpdate :: "netopus \<Rightarrow> netopus \<times> RoutingUpdate" where
  "generateRoutingUpdate n =
     (let ci = n_configInfo n;
          send = \<not> checkConfigsConverged n (ci_configVersion ci);
          seq = n_sequence n + 1
      in (n\<lparr>n_sequence := seq\<rparr>,
          \<lparr>Origin = n_addr n, NodeName = n_name n, UpdateEpoch = n_epoch n, UpdateSequence = seq,
           Connections = Some (own_conns n), Names = own_names n, ConfigVersion = ci_configVersion ci,
           ConfigData = (if send then ci_configData ci else []),
           ConfigSignature = (if send then ci_configSignature ci else [])\<rparr>))"

text \<open>The function that the \<open>updateSender\<close> timer runs.\<close>

definition updateSender_run :: "update_codec \<Rightarrow> netopus \<Rightarrow> netopus result" where
  "updateSender_run j n =
     (let (n, ru) = generateRoutingUpdate n
      in case UpdateNode (n_router n) (n_addr n) (Connections ru) of
           Inl panic \<Rightarrow> Inl panic
         | Inr r \<Rightarrow> Inr (floodRoutingUpdate j ru None (n\<lparr>n_router := r\<rparr>)))"

text \<open>The goroutine of \<open>New\<close> that reacts to a new routing policy (its log lines apart).\<close>

definition routerUpdate_recv :: "netopus \<Rightarrow> netopus" where
  "routerUpdate_recv n = fold (\<lambda>_. updateSender_RunWithin (100 * millisecond)) (n_sessionInfo n) n"

definition update_outdated :: "RoutingUpdate \<Rightarrow> nodeInfo \<Rightarrow> bool" where
  "update_outdated ru ni \<longleftrightarrow>
     UpdateEpoch ru < ni_epoch ni \<or> (UpdateEpoch ru = ni_epoch ni \<and> UpdateSequence ru < ni_sequence ni)"

definition update_duplicate :: "RoutingUpdate \<Rightarrow> nodeInfo \<Rightarrow> bool" where
  "update_duplicate ru ni \<longleftrightarrow> UpdateEpoch ru = ni_epoch ni \<and> UpdateSequence ru = ni_sequence ni"

definition handleRoutingUpdate :: "time \<Rightarrow> RoutingUpdate \<Rightarrow> netopus \<Rightarrow> netopus \<times> bool" where
  "handleRoutingUpdate now ru n =
     (if IP_String (Origin ru) = IP_String (n_addr n) then (n, False)
      else let ok = (go_get (n_knownNodeInfo n) (Origin ru) \<noteq> None);
               ni = go_get_or zero_nodeInfo (n_knownNodeInfo n) (Origin ru)
      in if ok \<and> update_outdated ru ni then (n, False)
      else if update_duplicate ru ni then (n, False)
      else let n = n\<lparr>n_knownNodeInfo := go_set (n_knownNodeInfo n) (Origin ru)
                 \<lparr>ni_name = NodeName ru, ni_epoch = UpdateEpoch ru, ni_sequence = UpdateSequence ru,
                  ni_configVersion = ConfigVersion ru, ni_lastUpdate = now\<rparr>\<rparr>
      in if n_hasNewConfigFunc n \<and> length (ConfigData ru) > 0 \<and> length (ConfigSignature ru) > 0
              \<and> ci_configVersion (n_configInfo n) < ConfigVersion ru
         then (emit (NewConfig (ConfigData ru) (ConfigSignature ru)) n, True)
         else (n, True))"

definition learn_name :: "string \<Rightarrow> string \<times> ip \<Rightarrow> (string, externalNameInfo) gomap \<Rightarrow> (string, externalNameInfo) gomap" where
  "learn_name origin = (\<lambda>(k, v) en.
     case go_get en k of
       Some r \<Rightarrow> if en_fromNode r = [] then en else go_set en k \<lparr>en_ip = v, en_fromNode = origin\<rparr>
     | None \<Rightarrow> go_set en k \<lparr>en_ip = v, en_fromNode = origin\<rparr>)"

text \<open>
  One iteration of \<open>routeReader\<close> on session \<open>s\<close> with what reading a line returned. The flag tells
  whether the reader goes on; when it stops, its deferred call cancels the session. \<open>Inl\<close> is a panic.
\<close>

definition cancel_session :: "nat \<Rightarrow> netopus \<Rightarrow> netopus" where
  "cancel_session s = upd_sess s (\<lambda>p. p\<lparr>ps_done := True\<rparr>)"

definition routeReader_step ::
    "update_codec \<Rightarrow> time \<Rightarrow> nat \<Rightarrow> protoSession \<Rightarrow> bytes result \<Rightarrow> netopus \<Rightarrow> (netopus \<times> bool) result" where
  "routeReader_step j now s p line n =
     (if ps_done p then Inr (cancel_session s n, False)
      else case (case line of Inl err \<Rightarrow> Inl err | Inr msgBytes \<Rightarrow> dec_update j msgBytes) of
           Inl err \<Rightarrow> Inr (cancel_session s n, False)
         | Inr msg \<Rightarrow>
             let viaNode = ps_remoteAddr p;
                 (n, ok) = handleRoutingUpdate now msg n
             in if ok
                then case UpdateNode (n_router n) (Origin msg) (Connections msg) of
                       Inl panic \<Rightarrow> Inl panic
                     | Inr r \<Rightarrow>
                         let n = n\<lparr>n_router := r\<rparr>;
                             n = n\<lparr>n_externalNames := fold (learn_name (IP_String (Origin msg))) (Names msg) (n_externalNames n)\<rparr>
                         in Inr (floodRoutingUpdate j msg (Some viaNode) n, True)
                else Inr (n, True))"

text \<open>One round of \<open>monitorDeadNodes\<close>.\<close>

definition monitorDeadNodes_round :: "time \<Rightarrow> netopus \<Rightarrow> netopus" where
  "monitorDeadNodes_round now n =
     fold (\<lambda>(node, info) n.
         if ni_lastUpdate info < now - 60 * second
         then n\<lparr>n_knownNodeInfo := go_del (n_knownNodeInfo n) node, n_router := RemoveNode (n_router n) node\<rparr>
         else n) (n_knownNodeInfo n) n"

definition AddExternalRoute :: "netopus \<Rightarrow> string \<Rightarrow> subnet \<Rightarrow> f32 \<Rightarrow> nat option \<Rightarrow> netopus" where
  "AddExternalRoute n name dest cost opf =
     (let cost = (if f32_le cost f32_zero then f32_one else cost)
      in updateSender_RunWithin (500 * millisecond)
           (n\<lparr>n_externalRoutes := go_set (n_externalRoutes n) name
                \<lparr>er_dest = dest, er_cost = cost, er_outgoingPacketFunc = opf\<rparr>\<rparr>))"

definition DelExternalRoute :: "netopus \<Rightarrow> string \<Rightarrow> netopus" where
  "DelExternalRoute n name =
     updateSender_RunWithin (500 * millisecond) (n\<lparr>n_externalRoutes := go_del (n_externalRoutes n) name\<rparr>)"

definition AddExternalName :: "netopus \<Rightarrow> string \<Rightarrow> ip \<Rightarrow> netopus" where
  "AddExternalName n name a =
     updateSender_RunWithin (500 * millisecond)
       (n\<lparr>n_externalNames := go_set (n_externalNames n) name \<lparr>en_ip = a, en_fromNode = []\<rparr>\<rparr>)"

definition DelExternalName :: "netopus \<Rightarrow> string \<Rightarrow> netopus" where
  "DelExternalName n name =
     updateSender_RunWithin (500 * millisecond) (n\<lparr>n_externalNames := go_del (n_externalNames n) name\<rparr>)"

definition LookupName :: "netopus \<Rightarrow> string \<Rightarrow> ip" where
  "LookupName n name =
     (if name = n_name n then n_addr n
      else let foundIP = (case find (\<lambda>(k, v). ni_name v = name) (n_knownNodeInfo n) of None \<Rightarrow> [] | Some (k, v) \<Rightarrow> k)
      in if length foundIP > 0 then foundIP
         else case go_get (n_externalNames n) name of None \<Rightarrow> [] | Some v \<Rightarrow> en_ip v)"

definition LookupIP :: "netopus \<Rightarrow> ip \<Rightarrow> string" where
  "LookupIP n a =
     (if IP_Equal a (n_addr n) then n_name n
      else case go_get (n_knownNodeInfo n) a of
        Some ni \<Rightarrow> ni_name ni
      | None \<Rightarrow> (case find (\<lambda>(k, v). en_ip v = a) (n_externalNames n) of None \<Rightarrow> [] | Some (k, v) \<Rightarrow> k))"

definition UpdateConfig :: "netopus \<Rightarrow> bytes \<Rightarrow> bytes \<Rightarrow> time \<Rightarrow> netopus" where
  "UpdateConfig n cfg sig version =
     updateSender_RunWithin (100 * millisecond)
       (n\<lparr>n_configInfo := \<lparr>ci_configVersion = version, ci_configData = cfg, ci_configSignature = sig\<rparr>\<rparr>)"

record SessionStatus =
  ss_Connected :: bool
  ss_ConnStart :: time

record Status =
  st_Name :: string
  st_Addr :: ip
  st_NameToAddr :: "(string, string) gomap"
  st_AddrToName :: "(string, string) gomap"
  st_RouterNodes :: "(string, (string, f32) gomap) gomap"
  st_Sessions :: "(string, SessionStatus) gomap"

definition netopus_Status :: "netopus \<Rightarrow> Status" where
  "netopus_Status n =
     \<lparr>st_Name = n_name n, st_Addr = n_addr n,
      st_NameToAddr = fold (\<lambda>(k, v) m. go_set m (ni_name v) (IP_String k)) (n_knownNodeInfo n)
         [(n_name n, IP_String (n_addr n))],
      st_AddrToName = fold (\<lambda>(k, v) m. go_set m (IP_String k) (ni_name v)) (n_knownNodeInfo n)
         [(IP_String (n_addr n), n_name n)],
      st_RouterNodes = fold (\<lambda>(k, v) m. go_set m (IP_String k)
           (fold (\<lambda>(k2, v2) r. go_set r (Subnet_String k2) v2) v [])) (Nodes (n_router n)) [],
      st_Sessions = fold (\<lambda>(k, sid) m.
           case go_get (n_sessHeap n) sid of
             None \<Rightarrow> m
           | Some v \<Rightarrow> go_set m (IP_String k)
               \<lparr>ss_Connected = (ps_connectionState v = connectionStateConnected), ss_ConnStart = ps_connStart v\<rparr>)
         (n_sessionInfo n) []\<rparr>"

section \<open>Freshness\<close>

text \<open>The lexicographic order of (epoch, sequence) pairs.\<close>

definition newer :: "64 word \<times> 64 word \<Rightarrow> 64 word \<times> 64 word \<Rightarrow> bool" where
  "newer a b \<longleftrightarrow> fst b < fst a \<or> (fst b = fst a \<and> snd b < snd a)"

lemma newer_irrefl [simp]: "\<not> newer a a"
  by (simp add: newer_def)

lemma newer_trans: "newer a b \<Longrightarrow> newer b c \<Longrightarrow> newer a c"
  by (auto simp: newer_def)

definition ru_stamp :: "RoutingUpdate \<Rightarrow> 64 word \<times> 64 word" where
  "ru_stamp ru = (UpdateEpoch ru, UpdateSequence ru)"

definition known_stamp :: "netopus \<Rightarrow> ip \<Rightarrow> (64 word \<times> 64 word) option" where
  "known_stamp n a = map_option (\<lambda>ni. (ni_epoch ni, ni_sequence ni)) (go_get (n_knownNodeInfo n) a)"

definition fresh :: "netopus \<Rightarrow> RoutingUpdate \<Rightarrow> bool" where
  "fresh n ru \<longleftrightarrow> IP_String (Origin ru) \<noteq> IP_String (n_addr n) \<and>
     (case known_stamp n (Origin ru) of None \<Rightarrow> ru_stamp ru \<noteq> (0, 0) | Some st \<Rightarrow> newer (ru_stamp ru) st)"

lemma lex_less_alt:
  fixes e e' :: "'a :: linorder" and s s' :: "'b :: linorder"
  shows "e' < e \<or> (e' = e \<and> s' < s) \<longleftrightarrow> \<not> (e < e' \<or> (e = e' \<and> s < s')) \<and> \<not> (e = e' \<and> s = s')"
  by auto

lemma newer_alt: "newer (ru_stamp ru) (ni_epoch ni, ni_sequence ni) \<longleftrightarrow>
    \<not> update_outdated ru ni \<and> \<not> update_duplicate ru ni"
  unfolding newer_def ru_stamp_def update_outdated_def update_duplicate_def fst_conv snd_conv
  by (rule lex_less_alt)

lemma handle_accepts: "snd (handleRoutingUpdate now ru n) \<longleftrightarrow> fresh n ru"
proof (cases "go_get (n_knownNodeInfo n) (Origin ru)")
  case None
  then show ?thesis
    by (simp add: handleRoutingUpdate_def fresh_def known_stamp_def ru_stamp_def Let_def go_get_or_def
        zero_nodeInfo_def update_duplicate_def)
next
  case (Some ni)
  then show ?thesis
    by (simp add: handleRoutingUpdate_def fresh_def known_stamp_def Let_def go_get_or_def newer_alt)
qed

lemma handle_rejects: "\<not> fresh n ru \<Longrightarrow> fst (handleRoutingUpdate now ru n) = n"
  using handle_accepts [of now ru n] by (auto simp: handleRoutingUpdate_def Let_def split: if_splits)

lemma handle_state:
  assumes "fresh n ru"
  shows "n_knownNodeInfo (fst (handleRoutingUpdate now ru n)) = go_set (n_knownNodeInfo n) (Origin ru)
      \<lparr>ni_name = NodeName ru, ni_epoch = UpdateEpoch ru, ni_sequence = UpdateSequence ru,
       ni_configVersion = ConfigVersion ru, ni_lastUpdate = now\<rparr>"
    and "n_addr (fst (handleRoutingUpdate now ru n)) = n_addr n"
    and "n_router (fst (handleRoutingUpdate now ru n)) = n_router n"
    and "n_externalNames (fst (handleRoutingUpdate now ru n)) = n_externalNames n"
    and "n_sessionInfo (fst (handleRoutingUpdate now ru n)) = n_sessionInfo n"
    and "n_sessHeap (fst (handleRoutingUpdate now ru n)) = n_sessHeap n"
proof -
  have "snd (handleRoutingUpdate now ru n)" using assms by (simp add: handle_accepts)
  then show "n_knownNodeInfo (fst (handleRoutingUpdate now ru n)) = go_set (n_knownNodeInfo n) (Origin ru)
      \<lparr>ni_name = NodeName ru, ni_epoch = UpdateEpoch ru, ni_sequence = UpdateSequence ru,
       ni_configVersion = ConfigVersion ru, ni_lastUpdate = now\<rparr>"
    "n_addr (fst (handleRoutingUpdate now ru n)) = n_addr n"
    "n_router (fst (handleRoutingUpdate now ru n)) = n_router n"
    "n_externalNames (fst (handleRoutingUpdate now ru n)) = n_externalNames n"
    "n_sessionInfo (fst (handleRoutingUpdate now ru n)) = n_sessionInfo n"
    "n_sessHeap (fst (handleRoutingUpdate now ru n)) = n_sessHeap n"
    by (auto simp: handleRoutingUpdate_def Let_def split: if_splits)
qed

lemma known_stamp_handle:
  "known_stamp (fst (handleRoutingUpdate now ru n)) a
     = (if fresh n ru \<and> a = Origin ru then Some (ru_stamp ru) else known_stamp n a)"
  by (cases "fresh n ru")
    (simp_all add: handle_rejects known_stamp_def handle_state gomap_simps ru_stamp_def)

text \<open>
  A routing update is accepted exactly when it does not come from this node and its pair of
  epoch and sequence number is lexicographically above the pair recorded for its origin; for an
  origin without a record any pair but (0, 0) is accepted. A rejected update changes nothing.
\<close>

theorem routing_update_accepted_iff_fresh:
  "snd (handleRoutingUpdate now ru n) = fresh n ru \<and>
   (if fresh n ru
    then known_stamp (fst (handleRoutingUpdate now ru n)) (Origin ru) = Some (ru_stamp ru)
    else fst (handleRoutingUpdate now ru n) = n)"
  by (simp add: handle_accepts handle_rejects known_stamp_handle)

text \<open>Handling a sequence of updates, each with its time; the updates that are accepted, in order.\<close>

fun handle_all :: "(time \<times> RoutingUpdate) list \<Rightarrow> netopus \<Rightarrow> netopus \<times> RoutingUpdate list" where
  "handle_all [] n = (n, [])"
| "handle_all ((now, ru) # us) n =
     (let (n', ok) = handleRoutingUpdate now ru n; (n'', acc) = handle_all us n'
      in (n'', if ok then ru # acc else acc))"

lemma handle_all_newer:
  assumes "known_stamp n a = Some st" "ru \<in> set (snd (handle_all us n))" "Origin ru = a"
  shows "newer (ru_stamp ru) st"
  using assms
proof (induction us n arbitrary: st rule: handle_all.induct)
  case (2 now u us n)
  let ?n' = "fst (handleRoutingUpdate now u n)"
  have IH: "known_stamp ?n' a = Some st' \<Longrightarrow> ru \<in> set (snd (handle_all us ?n')) \<Longrightarrow> newer (ru_stamp ru) st'" for st'
    using 2(1) 2(4) by (metis prod.collapse)
  show ?case
  proof (cases "fresh n u \<and> Origin u = a")
    case True
    then have u: "newer (ru_stamp u) st" using 2(2) by (auto simp: fresh_def)
    have "known_stamp ?n' a = Some (ru_stamp u)" using True by (simp add: known_stamp_handle)
    then show ?thesis
      using IH [of "ru_stamp u"] 2(3) u newer_trans [of "ru_stamp ru", OF _ u]
      by (auto simp: case_prod_beta Let_def split: if_splits)
  next
    case False
    then have "known_stamp ?n' a = Some st" using 2(2) by (auto simp: known_stamp_handle)
    then show ?thesis
      using IH [of st] 2(3,4) False handle_accepts [of now u n]
      by (auto simp: case_prod_beta Let_def split: if_splits)
  qed
qed simp


text \<open>
  A node's own updates are accepted by its peers: a peer that has recorded an earlier update of
  this node, of the same epoch with at most the current sequence number or of an earlier epoch,
  accepts the next update the node generates, unless the 64-bit sequence number wraps around.
\<close>

theorem generated_update_accepted:
  assumes "known_stamp m (n_addr n) = Some (e, s)"
    and "e < n_epoch n \<or> (e = n_epoch n \<and> s \<le> n_sequence n)" "n_sequence n \<noteq> - 1"
    and "IP_String (n_addr n) \<noteq> IP_String (n_addr m)"
  shows "snd (handleRoutingUpdate now (snd (generateRoutingUpdate n)) m)
     \<and> n_sequence (fst (generateRoutingUpdate n)) = UpdateSequence (snd (generateRoutingUpdate n))"
proof -
  have "unat (1 + n_sequence n) = Suc (unat (n_sequence n))"
    by (rule unatSuc) (use assms(3) in \<open>metis add_eq_0_iff\<close>)
  then have "s < n_sequence n + 1" if "s \<le> n_sequence n"
    using that by (simp add: word_less_nat_alt word_le_nat_alt add.commute)
  then show ?thesis
    using assms by (auto simp: handle_accepts fresh_def generateRoutingUpdate_def Let_def ru_stamp_def newer_def)
qed

definition ex_known :: netopus where
  "ex_known = ex_node\<lparr>n_knownNodeInfo := [(ex_ip 2, \<lparr>ni_name = ''b'', ni_epoch = 5, ni_sequence = 3,
      ni_configVersion = 0, ni_lastUpdate = 100 * second\<rparr>)]\<rparr>"

definition ex_peer :: netopus where
  "ex_peer = ex_node\<lparr>n_addr := ex_ip 2, n_name := ''b'', n_epoch := 5, n_sequence := 3\<rparr>"

lemma ex_strings: "IP_String (ex_ip 1) = ''fd00::1''" "IP_String (ex_ip 2) = ''fd00::2''"
  by (simp_all add: ex_ip_def IP_String_eval)

theorem generated_update_accepted_witness:
  "snd (handleRoutingUpdate 7 (snd (generateRoutingUpdate ex_peer)) ex_known)
     \<and> n_sequence (fst (generateRoutingUpdate ex_peer)) = UpdateSequence (snd (generateRoutingUpdate ex_peer))"
  by (rule generated_update_accepted [of _ _ 5 3])
    (simp_all add: known_stamp_def ex_known_def ex_peer_def ex_node_def ex_strings)

section \<open>What is advertised\<close>

lemma NewSubnet_128: "length a = 16 \<Longrightarrow> NewSubnet a (CIDRMask 128 128) = NewHostOnlySubnet a"
  using CIDRMask_128 [of 128] cidr_bytes_full [of 16]
  by (simp add: NewSubnet_map2 NewHostOnlySubnet_full map2_and_full)

definition connected_sessions :: "netopus \<Rightarrow> protoSession list" where
  "connected_sessions n =
     filter (\<lambda>p. ps_connectionState p = connectionStateConnected)
       (List.map_filter (\<lambda>(_, sid). go_get (n_sessHeap n) sid) (n_sessionInfo n))"

text \<open>The connections as one list of entries, later entries overriding earlier ones.\<close>

lemma own_conns_entries:
  "own_conns n = fold (\<lambda>(k, v) m. go_set m k v)
     (map (\<lambda>p. (NewSubnet (ps_remoteAddr p) (CIDRMask 128 128), ps_cost p)) (connected_sessions n)
      @ map (\<lambda>(_, r). (er_dest r, er_cost r)) (n_externalRoutes n)) []"
proof -
  let ?e = "\<lambda>p. (NewSubnet (ps_remoteAddr p) (CIDRMask 128 128), ps_cost p)"
  let ?put = "\<lambda>(k, v) m. go_set m k v"
  have 1: "fold (\<lambda>(_, sid) conns. case go_get (n_sessHeap n) sid of None \<Rightarrow> conns
        | Some sess \<Rightarrow> if ps_connectionState sess = connectionStateConnected
            then go_set conns (NewSubnet (ps_remoteAddr sess) (CIDRMask 128 128)) (ps_cost sess) else conns) xs acc
      = fold ?put (map ?e (filter (\<lambda>p. ps_connectionState p = connectionStateConnected)
          (List.map_filter (\<lambda>(_, sid). go_get (n_sessHeap n) sid) xs))) acc" for xs :: "(ip \<times> nat) list" and acc
    by (induction xs arbitrary: acc) (auto simp: map_filter_simps split: option.split)
  have 2: "fold (\<lambda>(_, r) conns. go_set conns (er_dest r) (er_cost r)) xs acc
      = fold ?put (map (\<lambda>(_, r). (er_dest r, er_cost r)) xs) acc"
    for xs :: "(string \<times> externalRouteInfo) list" and acc
    by (induction xs arbitrary: acc) auto
  show ?thesis by (simp add: own_conns_def connected_sessions_def 1 2 Let_def)
qed

text \<open>
  A generated update advertises exactly the host subnets of the peers of connected sessions
  and the subnets of the external routes, each at the cost of such a session or route; the
  external route wins when both name the same subnet.
\<close>

theorem generated_connections:
  "case go_get (own_conns n) k of
     None \<Rightarrow> (\<forall>p\<in>set (connected_sessions n). NewSubnet (ps_remoteAddr p) (CIDRMask 128 128) \<noteq> k)
       \<and> (\<forall>(_, r)\<in>set (n_externalRoutes n). er_dest r \<noteq> k)
   | Some c \<Rightarrow>
       if \<exists>(_, r)\<in>set (n_externalRoutes n). er_dest r = k
       then \<exists>(_, r)\<in>set (n_externalRoutes n). er_dest r = k \<and> er_cost r = c
       else \<exists>p\<in>set (connected_sessions n). NewSubnet (ps_remoteAddr p) (CIDRMask 128 128) = k \<and> ps_cost p = c"
proof -
  let ?s = "map (\<lambda>p. (NewSubnet (ps_remoteAddr p) (CIDRMask 128 128), ps_cost p)) (connected_sessions n)"
  let ?r = "map (\<lambda>(_, r). (er_dest r, er_cost r)) (n_externalRoutes n)"
  have get: "go_get (own_conns n) k = (case map_of (rev ?r) k of Some c \<Rightarrow> Some c | None \<Rightarrow> map_of (rev ?s) k)"
    by (simp add: own_conns_entries gm.get_fold_put map_add_def split: option.split)
  show ?thesis
  proof (cases "map_of (rev ?r) k")
    case None
    then have "k \<notin> fst ` set ?r" by (simp only: map_of_eq_None_iff set_rev not_False_eq_True)
    then have r: "\<forall>(_, r)\<in>set (n_externalRoutes n). er_dest r \<noteq> k" by force
    show ?thesis
    proof (cases "map_of (rev ?s) k")
      case None': None
      then have "k \<notin> fst ` set ?s" by (simp only: map_of_eq_None_iff set_rev not_False_eq_True)
      then have "\<forall>p\<in>set (connected_sessions n). NewSubnet (ps_remoteAddr p) (CIDRMask 128 128) \<noteq> k" by force
      then show ?thesis using r None None' get by simp
    next
      case (Some c)
      have "(k, c) \<in> set ?s" using map_of_SomeD [OF Some] by (simp only: set_rev)
      then show ?thesis using r None get Some by auto
    qed
  next
    case (Some c)
    have "(k, c) \<in> set ?r" using map_of_SomeD [OF Some] by (simp only: set_rev)
    then show ?thesis using get Some by auto
  qed
qed

theorem generated_connections_witness:
  "\<exists>c. go_get (own_conns ex_node) (NewSubnet (ex_ip 2) (CIDRMask 128 128)) = Some c"
proof -
  have "connected_sessions ex_node = [ex_session]" "ps_remoteAddr ex_session = ex_ip 2"
    by (simp_all add: connected_sessions_def map_filter_simps ex_node_def ex_session_def)
  then show ?thesis
    using generated_connections [of ex_node "NewSubnet (ex_ip 2) (CIDRMask 128 128)"] by (auto split: option.splits)
qed

section \<open>Flooding\<close>

definition flood_targets :: "ip option \<Rightarrow> netopus \<Rightarrow> nat list" where
  "flood_targets except n =
     List.map_filter (\<lambda>(node, sid).
         case go_get (n_sessHeap n) sid of
           Some sess \<Rightarrow>
             if except \<noteq> Some node \<and> ps_connectionState sess = connectionStateConnected
             then ps_oobRouteConn sess else None
         | None \<Rightarrow> None)
       (n_sessionInfo n)"

lemma flood_effects:
  assumes "enc_update j u = Inr b"
  shows "floodRoutingUpdate j u except n =
     n\<lparr>n_effects := n_effects n @ map (\<lambda>orc. RouteConnWrite orc (b @ [10])) (flood_targets except n)\<rparr>"
proof -
  let ?t = "\<lambda>(node, sid). case go_get (n_sessHeap n) sid of
           Some sess \<Rightarrow>
             if except \<noteq> Some node \<and> ps_connectionState sess = connectionStateConnected
             then ps_oobRouteConn sess else None
         | None \<Rightarrow> None"
  have "fold (flood_session j u except) xs m =
      m\<lparr>n_effects := n_effects m @ map (\<lambda>orc. RouteConnWrite orc (b @ [10])) (List.map_filter ?t xs)\<rparr>"
    if "n_sessHeap m = n_sessHeap n" for xs m
    using that
  proof (induction xs arbitrary: m)
    case (Cons x xs)
    obtain node sid where x: "x = (node, sid)" by (cases x)
    have s: "flood_session j u except x m = (case ?t x of None \<Rightarrow> m | Some orc \<Rightarrow> emit (RouteConnWrite orc (b @ [10])) m)"
      using Cons.prems assms by (auto simp: x flood_session_def split: option.split)
    show ?case
    proof (cases "?t x")
      case None
      then show ?thesis using Cons s by (simp add: map_filter_simps)
    next
      case (Some orc)
      have "n_sessHeap (emit (RouteConnWrite orc (b @ [10])) m) = n_sessHeap n" using Cons.prems by simp
      from Cons.IH [OF this] show ?thesis using s Some by (simp add: map_filter_simps emit_def)
    qed
  qed (simp add: map_filter_simps)
  then show ?thesis by (simp add: floodRoutingUpdate_def flood_targets_def)
qed

text \<open>
  Flooding writes the encoded update, followed by a newline, once to the routing connection of
  every connected session other than the one it came from, in the order of the session table, and
  does nothing else.
\<close>

theorem flood_writes_to_other_peers:
  assumes "enc_update j u = Inr b"
  shows "floodRoutingUpdate j u except n =
     n\<lparr>n_effects := n_effects n @ map (\<lambda>orc. RouteConnWrite orc (b @ [10])) (flood_targets except n)\<rparr>"
  by (rule flood_effects [OF assms])

definition ex_codec :: update_codec where
  "ex_codec = \<lparr>enc_update = \<lambda>u. Inr (Origin u), dec_update = \<lambda>b. Inl (Errorf ''unexpected end of JSON input'')\<rparr>"

theorem flood_writes_to_other_peers_witness:
  "n_effects (floodRoutingUpdate ex_codec (snd (generateRoutingUpdate ex_node)) None ex_node)
     = [RouteConnWrite 9 (ex_ip 1 @ [10])]"
proof -
  have "enc_update ex_codec (snd (generateRoutingUpdate ex_node)) = Inr (ex_ip 1)"
    by (simp add: ex_codec_def generateRoutingUpdate_def ex_node_def Let_def)
  from flood_writes_to_other_peers [OF this] show ?thesis
    by (simp add: flood_targets_def map_filter_simps ex_node_def ex_session_def)
qed

section \<open>Dead nodes\<close>

definition expired :: "time \<Rightarrow> nodeInfo \<Rightarrow> bool" where
  "expired now info \<longleftrightarrow> ni_lastUpdate info < now - 60 * second"

lemma RemoveNode_get: "go_get (nodes (RemoveNode r a)) b = (if b = a then None else go_get (nodes r) b)"
  by (auto simp: RemoveNode_def gomap_simps)

lemma RemoveNode_sel [simp]: "myAddr (RemoveNode r a) = myAddr r" "policy (RemoveNode r a) = policy r"
  by (simp_all add: RemoveNode_def)

text \<open>
  A round of dead-node monitoring forgets exactly the nodes whose last update is more than a
  minute old, in the table of known nodes and in the router alike, and keeps everything else.
\<close>

theorem dead_nodes_removed:
  assumes "go_wf (n_knownNodeInfo n)"
  shows "go_get (n_knownNodeInfo (monitorDeadNodes_round now n)) a
           = (case go_get (n_knownNodeInfo n) a of
                None \<Rightarrow> None | Some info \<Rightarrow> if expired now info then None else Some info)
     \<and> go_get (nodes (n_router (monitorDeadNodes_round now n))) a
           = (case go_get (n_knownNodeInfo n) a of
                None \<Rightarrow> go_get (nodes (n_router n)) a
              | Some info \<Rightarrow> if expired now info then None else go_get (nodes (n_router n)) a)"
proof -
  let ?step = "\<lambda>(node, info) n. if ni_lastUpdate info < now - 60 * second
         then n\<lparr>n_knownNodeInfo := go_del (n_knownNodeInfo n) node, n_router := RemoveNode (n_router n) node\<rparr>
         else n"
  have "go_get (n_knownNodeInfo (fold ?step xs m)) a
           = (if \<exists>info. (a, info) \<in> set xs \<and> expired now info then None else go_get (n_knownNodeInfo m) a)
     \<and> go_get (nodes (n_router (fold ?step xs m))) a
           = (if \<exists>info. (a, info) \<in> set xs \<and> expired now info then None else go_get (nodes (n_router m)) a)"
    for xs m
    by (induction xs arbitrary: m) (auto simp: expired_def gomap_simps RemoveNode_get)
  note f = this [of "n_knownNodeInfo n" n, folded monitorDeadNodes_round_def]
  have "(\<exists>info. (a, info) \<in> set (n_knownNodeInfo n) \<and> expired now info)
      \<longleftrightarrow> (case go_get (n_knownNodeInfo n) a of None \<Rightarrow> False | Some info \<Rightarrow> expired now info)"
    unfolding go_get_Some_iff [OF assms, symmetric] by (simp split: option.split)
  then show ?thesis using f by (simp split: option.split)
qed

theorem dead_nodes_removed_witness:
  "go_get (n_knownNodeInfo (monitorDeadNodes_round (161 * second) ex_known)) (ex_ip 2) = None
   \<and> go_get (n_knownNodeInfo (monitorDeadNodes_round (160 * second) ex_known)) (ex_ip 2) \<noteq> None"
  using dead_nodes_removed [of ex_known "161 * second" "ex_ip 2"] dead_nodes_removed [of ex_known "160 * second" "ex_ip 2"]
  by (simp add: ex_known_def go_wf_def expired_def)

section \<open>Names\<close>

lemma learn_name_local:
  "go_get en k = Some r \<Longrightarrow> en_fromNode r = [] \<Longrightarrow> go_get (fold (learn_name origin) names en) k = Some r"
proof (induction names arbitrary: en)
  case (Cons x names)
  have "go_get (learn_name origin x en) k = Some r"
    using Cons.prems by (cases x) (auto simp: learn_name_def gomap_simps split: option.split)
  then show ?case using Cons by simp
qed simp

lemma learn_name_new:
  "go_wf names \<Longrightarrow> go_get names k = Some v \<Longrightarrow>
     (case go_get en k of None \<Rightarrow> True | Some r \<Rightarrow> en_fromNode r \<noteq> []) \<Longrightarrow>
     go_get (fold (learn_name origin) names en) k = Some \<lparr>en_ip = v, en_fromNode = origin\<rparr>"
proof (induction names arbitrary: en)
  case (Cons x names)
  obtain k' v' where x: "x = (k', v')" by (cases x)
  have keep: "k \<notin> fst ` set xs \<Longrightarrow> go_get (fold (learn_name origin) xs en) k = go_get en k" for xs en
    by (induction xs arbitrary: en) (auto simp: learn_name_def gomap_simps split: option.split)
  show ?case
  proof (cases "k = k'")
    case True
    then have "go_get (learn_name origin x en) k = Some \<lparr>en_ip = v, en_fromNode = origin\<rparr>"
      using Cons.prems x by (auto simp: learn_name_def gomap_simps split: option.split)
    moreover have "k \<notin> fst ` set names" using Cons.prems(1) True x by (simp add: go_wf_def)
    ultimately show ?thesis by (simp add: keep)
  next
    case False
    then have "go_get (learn_name origin x en) k = go_get en k"
      using x by (auto simp: learn_name_def gomap_simps split: option.split)
    then show ?thesis using Cons False x by (simp add: go_wf_def)
  qed
qed simp

lemma flood_session_keeps:
  "n_externalNames (flood_session j u ex x n) = n_externalNames n"
  "n_knownNodeInfo (flood_session j u ex x n) = n_knownNodeInfo n"
  "n_router (flood_session j u ex x n) = n_router n"
  by (auto simp: flood_session_def split: prod.split option.split sum.split)

lemma flood_keeps [simp]:
  "n_externalNames (floodRoutingUpdate j u ex n) = n_externalNames n"
  "n_knownNodeInfo (floodRoutingUpdate j u ex n) = n_knownNodeInfo n"
  "n_router (floodRoutingUpdate j u ex n) = n_router n"
proof -
  have "n_externalNames (fold (flood_session j u ex) xs n) = n_externalNames n
      \<and> n_knownNodeInfo (fold (flood_session j u ex) xs n) = n_knownNodeInfo n
      \<and> n_router (fold (flood_session j u ex) xs n) = n_router n" for xs n
    by (induction xs arbitrary: n) (simp_all add: flood_session_keeps)
  then show "n_externalNames (floodRoutingUpdate j u ex n) = n_externalNames n"
    "n_knownNodeInfo (floodRoutingUpdate j u ex n) = n_knownNodeInfo n"
    "n_router (floodRoutingUpdate j u ex n) = n_router n"
    by (simp_all add: floodRoutingUpdate_def)
qed

lemma cancel_session_keeps [simp]:
  "n_externalNames (cancel_session s n) = n_externalNames n" "n_knownNodeInfo (cancel_session s n) = n_knownNodeInfo n"
  "n_router (cancel_session s n) = n_router n" "n_addr (cancel_session s n) = n_addr n"
  by (simp_all add: cancel_session_def upd_sess_def split: option.split)

lemma UpdateNode_total: "node \<noteq> [] \<Longrightarrow> \<exists>r'. UpdateNode r node conns = Inr r'"
  by (simp add: UpdateNode_def)

lemma routeReader_returns:
  assumes "dec_update j line = Inr msg" "Origin msg \<noteq> []"
  shows "\<exists>n' go. routeReader_step j now s p (Inr line) n = Inr (n', go)"
proof -
  obtain m ok where h: "handleRoutingUpdate now msg n = (m, ok)" by fastforce
  obtain r where "UpdateNode (n_router m) (Origin msg) (Connections msg) = Inr r"
    using UpdateNode_total [OF assms(2)] by blast
  then show ?thesis using assms(1) by (auto simp: routeReader_step_def h Let_def)
qed

lemma routeReader_names:
  assumes "routeReader_step j now s p line n = Inr (n', go)"
  shows "n_externalNames n' =
    (case line of
       Inl _ \<Rightarrow> n_externalNames n
     | Inr b \<Rightarrow> (case dec_update j b of
         Inl _ \<Rightarrow> n_externalNames n
       | Inr msg \<Rightarrow> if \<not> ps_done p \<and> fresh n msg
                   then fold (learn_name (IP_String (Origin msg))) (Names msg) (n_externalNames n)
                   else n_externalNames n))"
  using assms handle_accepts [of now _ n] handle_state(4) [of n _ now] handle_rejects [of n _ now]
  by (auto simp: routeReader_step_def case_prod_beta Let_def split: if_splits sum.splits)

text \<open>
  Names added on this node are never overridden by names received from other nodes, whatever
  a peer sends.
\<close>

theorem local_names_protected:
  assumes "routeReader_step j now s p line n = Inr (n', go)"
    and "go_get (n_externalNames n) k = Some r" "en_fromNode r = []"
  shows "go_get (n_externalNames n') k = Some r"
  using routeReader_names [OF assms(1)] learn_name_local [OF assms(2,3)] assms(2)
  by (simp split: sum.splits)

text \<open>A codec for the examples that decodes every line to one update.\<close>

definition const_codec :: "RoutingUpdate \<Rightarrow> update_codec" where
  "const_codec u = \<lparr>enc_update = \<lambda>_. Inr [], dec_update = \<lambda>_. Inr u\<rparr>"

definition ex_update :: "ip \<Rightarrow> (string, ip) gomap \<Rightarrow> RoutingUpdate" where
  "ex_update origin names =
     \<lparr>Origin = origin, NodeName = ''b'', UpdateEpoch = 5, UpdateSequence = 4, Connections = Some [],
      Names = names, ConfigVersion = 0, ConfigData = [], ConfigSignature = []\<rparr>"

definition ex_named :: netopus where
  "ex_named = ex_node\<lparr>n_externalNames := [(''web'', \<lparr>en_ip = ex_ip 1, en_fromNode = []\<rparr>)]\<rparr>"

theorem local_names_protected_witness:
  "\<exists>n' go. routeReader_step (const_codec (ex_update (ex_ip 2) [(''web'', ex_ip 2)])) 7 0 ex_session (Inr []) ex_named = Inr (n', go)
     \<and> go_get (n_externalNames n') ''web'' = Some \<lparr>en_ip = ex_ip 1, en_fromNode = []\<rparr>"
proof -
  let ?j = "const_codec (ex_update (ex_ip 2) [(''web'', ex_ip 2)])"
  obtain n' go where r: "routeReader_step ?j 7 0 ex_session (Inr []) ex_named = Inr (n', go)"
    using routeReader_returns [of ?j "[]" "ex_update (ex_ip 2) [(''web'', ex_ip 2)]" 7 0 ex_session ex_named]
    by (auto simp: const_codec_def ex_update_def ex_ip_def)
  then show ?thesis
    using local_names_protected [OF r, of "''web''"] by (simp add: ex_named_def)
qed

text \<open>
  A deleted name comes back: names learnt from other nodes are advertised like own names, so
  when a node no longer has a name but a peer has learnt it, the peer's next update that the node
  accepts makes it learn the name again, now from the peer.
\<close>

theorem deleted_name_comes_back:
  assumes "go_wf (n_externalNames b)" "go_get (n_externalNames b) k = Some r"
    and "go_get (n_externalNames a) k = None" "\<not> ps_done p" "n_addr b \<noteq> []"
    and "dec_update j line = Inr (snd (generateRoutingUpdate b))" "fresh a (snd (generateRoutingUpdate b))"
  shows "\<exists>a' go. routeReader_step j now s p (Inr line) a = Inr (a', go)
     \<and> go_get (n_externalNames a') k = Some \<lparr>en_ip = en_ip r, en_fromNode = IP_String (n_addr b)\<rparr>"
proof -
  let ?ru = "snd (generateRoutingUpdate b)"
  have o: "Origin ?ru = n_addr b" "Names ?ru = own_names b" by (simp_all add: generateRoutingUpdate_def Let_def)
  have wf: "go_wf (own_names b)"
    unfolding own_names_def
    by (rule fold_invariant [where P = go_wf and Q = "\<lambda>_. True"]) (auto simp: gomap_simps)
  have entries: "own_names b = fold (\<lambda>(k, v) m. go_set m k v) (map (\<lambda>(k, v). (k, en_ip v)) (n_externalNames b)) []"
  proof -
    have "fold (\<lambda>(k, v) names. go_set names k (en_ip v)) xs acc
        = fold (\<lambda>(k, v) m. go_set m k v) (map (\<lambda>(k, v). (k, en_ip v)) xs) acc"
      for xs :: "(string \<times> externalNameInfo) list" and acc
      by (induction xs arbitrary: acc) auto
    then show ?thesis by (simp add: own_names_def)
  qed
  have "(k, en_ip r) \<in> set (map (\<lambda>(k, v). (k, en_ip v)) (n_externalNames b))"
    using assms(1,2) by (force simp: go_get_Some_iff)
  moreover have "distinct (map fst (rev (map (\<lambda>(k, v). (k, en_ip v)) (n_externalNames b))))"
    using assms(1) by (simp add: go_wf_def rev_map [symmetric] comp_def case_prod_beta)
  ultimately have "map_of (rev (map (\<lambda>(k, v). (k, en_ip v)) (n_externalNames b))) k = Some (en_ip r)"
    by (simp only: map_of_eq_Some_iff set_rev)
  then have nm: "go_get (own_names b) k = Some (en_ip r)" by (simp only: entries gm.get_fold_put) simp
  obtain a' go where st: "routeReader_step j now s p (Inr line) a = Inr (a', go)"
    using routeReader_returns [OF assms(6), of now s p a] assms(5) o(1) by auto
  from routeReader_names [OF this] have "n_externalNames a'
      = fold (learn_name (IP_String (n_addr b))) (own_names b) (n_externalNames a)"
    using assms(4,6,7) by (simp add: o)
  with learn_name_new [OF wf nm, of "n_externalNames a"] assms(3) st show ?thesis by auto
qed

theorem deleted_name_comes_back_witness:
  "\<exists>a' go. routeReader_step (const_codec (snd (generateRoutingUpdate (ex_named\<lparr>n_addr := ex_ip 2\<rparr>)))) 7 0 ex_session (Inr []) ex_node
       = Inr (a', go)
     \<and> go_get (n_externalNames a') ''web'' = Some \<lparr>en_ip = ex_ip 1, en_fromNode = ''fd00::2''\<rparr>"
proof -
  let ?b = "ex_named\<lparr>n_addr := ex_ip 2\<rparr>"
  have "fresh ex_node (snd (generateRoutingUpdate ?b))"
    by (simp add: fresh_def generateRoutingUpdate_def Let_def ru_stamp_def known_stamp_def ex_node_def ex_named_def
        ex_strings)
  moreover have "go_wf (n_externalNames ?b)" "go_get (n_externalNames ex_node) ''web'' = None" "\<not> ps_done ex_session"
    "go_get (n_externalNames ?b) ''web'' = Some \<lparr>en_ip = ex_ip 1, en_fromNode = []\<rparr>" "n_addr ?b \<noteq> []"
    "dec_update (const_codec (snd (generateRoutingUpdate ?b))) [] = Inr (snd (generateRoutingUpdate ?b))"
    by (simp_all add: const_codec_def ex_named_def go_wf_def ex_node_def ex_session_def ex_ip_def)
  moreover have "n_addr ?b = ex_ip 2" by simp
  ultimately show ?thesis
    using deleted_name_comes_back [of ?b "''web''" "\<lparr>en_ip = ex_ip 1, en_fromNode = []\<rparr>" ex_node ex_session
        "const_codec (snd (generateRoutingUpdate ?b))" "[]" 7 0] by (simp add: ex_strings)
qed

section \<open>Malformed updates\<close>

lemma hex_digit_ne: "d < 16 \<Longrightarrow> hex_digit d \<noteq> CHR ''<''"
proof -
  have "list_all (\<lambda>d. hex_digit d \<noteq> CHR ''<'') [0..<16]" by code_simp
  then show "d < 16 \<Longrightarrow> hex_digit d \<noteq> CHR ''<''" by (simp add: list_all_iff)
qed

lemma IP_String_ne_nil:
  assumes "length a = 16"
  shows "IP_String a \<noteq> ''<nil>''"
proof -
  have h16: "hd (hex16 n) \<noteq> CHR ''<'' \<and> hex16 n \<noteq> []" if "n < 65536" for n
    using that hex_digit_ne [of "n div 4096"] hex_digit_ne [of "n div 256 mod 16"]
      hex_digit_ne [of "n div 16 mod 16"] hex_digit_ne [of "n mod 16"]
    by (auto simp: hex16_def)
  have d8: "hd (dec8 n) \<noteq> CHR ''<'' \<and> dec8 n \<noteq> []" if "n < 256" for n
  proof -
    have m: "n div 10 mod 10 < 16" "n mod 10 < 16" "n div 100 < 16" using that by (simp_all add: less_mult_imp_div_less)
    show ?thesis using hex_digit_ne [OF m(1)] hex_digit_ne [OF m(2)] hex_digit_ne [OF m(3)]
      hex_digit_ne [of n] hex_digit_ne [of "n div 10"]
      by (simp add: dec8_def)
  qed
  have u: "unat (b :: byte) < 256" for b using unsigned_less [of b, where ?'a = nat] by simp
  have g: "v6u16 a i < 65536" for i using u [of "a ! (2 * i)"] u [of "a ! (2 * i + 1)"] by (simp add: v6u16_def)
  have "hd (IP_String a) \<noteq> CHR ''<''"
  proof (cases "net_To4 a")
    case None
    obtain zs ze where z: "v6_zero_run a = (zs, ze)" by fastforce
    show ?thesis
      using None assms h16 [OF g] by (auto simp: IP_String_def net_IP_String_def v6_String_def z upt8)
  next
    case (Some b)
    then show ?thesis
      using assms d8 [OF u] by (auto simp: IP_String_def net_IP_String_def v4_String_def)
  qed
  then show ?thesis by auto
qed

text \<open>
  C40. A routing update without an origin brings the node down: when a line decodes to an update
  whose origin is empty (the field may be missing) and whose epoch or sequence number is not zero,
  the update passes the freshness check and the router panics on it.
\<close>

theorem update_without_origin_panics:
  assumes "\<not> ps_done p" "dec_update j line = Inr msg" "Origin msg = []" "ru_stamp msg \<noteq> (0, 0)"
    and "length (n_addr n) = 16" "go_get (n_knownNodeInfo n) [] = None"
  shows "routeReader_step j now s p (Inr line) n = Inl (Errorf ''router node cannot be empty string'')"
proof -
  have "fresh n msg"
    using assms(3-6) IP_String_ne_nil [OF assms(5)]
    by (simp add: fresh_def known_stamp_def IP_String_def net_IP_String_def)
  then have "snd (handleRoutingUpdate now msg n)" by (simp add: handle_accepts)
  then show ?thesis
    using assms(1-3) by (simp add: routeReader_step_def case_prod_beta Let_def UpdateNode_def)
qed

theorem update_without_origin_panics_witness:
  "routeReader_step (const_codec (ex_update [] [])) 7 0 ex_session (Inr []) ex_node
     = Inl (Errorf ''router node cannot be empty string'')"
  by (rule update_without_origin_panics [of _ _ _ "ex_update [] []"])
    (simp_all add: const_codec_def ex_update_def ex_session_def ex_node_def ex_ip_def ru_stamp_def)

end
