(* ===== verification/OOBConn.thy ===== *)
theory OOBConn
  imports Forwarding
begin

text \<open>
  \<^verbatim>\<open>pkg/netopus/oob_conn.go\<close>: packet connections for out-of-band messages, the datagram layer
  under the reliable streams of \<open>kcp-go\<close>.

  A packet connection is a number in the node's heap. Creating one may draw random ports
  (\<open>rnd i\<close> is the \<open>i\<close>-th value of \<open>rand.Int\<close>). \<open>ReadFrom\<close> waits for one of three events; the event that
  its \<open>select\<close> takes is an argument, and the result is \<open>None\<close> when that event is not ready. The
  goroutine that each connection starts calls \<open>Close\<close> once its context is done, so a connection can
  be closed a second time at any later moment.
\<close>

section \<open>Operations\<close>

definition ErrPortInUse :: go_error where "ErrPortInUse = Errorf ''port in use''"
definition ErrTimeout :: go_error where "ErrTimeout = Errorf ''timeout''"
definition ErrNotImplemented :: go_error where "ErrNotImplemented = Errorf ''not implemented''"

text \<open>A pointer that no connection has.\<close>

definition new_ptr :: "(nat, 'a) gomap \<Rightarrow> nat" where
  "new_ptr heap = foldr max (go_keys heap) 0 + 1"

lemma new_ptr_fresh: "go_get heap (new_ptr heap) = None"
proof -
  have "k \<in> set ks \<Longrightarrow> k \<le> foldr max ks 0" for k :: nat and ks
    by (induction ks) auto
  then show ?thesis unfolding go_get_None_iff new_ptr_def by fastforce
qed

text \<open>The loop that draws ports from 32768 to 65535 until one is free.\<close>

definition random_port :: "nat \<Rightarrow> 16 word" where
  "random_port x = of_nat (32768 + x mod 32768)"

partial_function (option) pick_port ::
    "(nat \<Rightarrow> nat) \<Rightarrow> (16 word, nat) gomap \<Rightarrow> nat \<Rightarrow> 16 word option" where
  [code]: "pick_port rnd m i =
     (let port = random_port (rnd i)
      in if go_get m port = None then Some port else pick_port rnd m (Suc i))"

definition NewOOBPacketConn ::
    "(nat \<Rightarrow> nat) \<Rightarrow> netopus \<Rightarrow> 16 word \<Rightarrow> (netopus \<times> nat) result option" where
  "NewOOBPacketConn rnd n port =
     Option.bind (if port = 0 then pick_port rnd (n_oobPorts n) 0 else Some port) (\<lambda>port.
       Some (if go_get (n_oobPorts n) port \<noteq> None then Inl ErrPortInUse
             else let c = new_ptr (n_opcHeap n);
                      opc = \<lparr>opc_done = False, opc_sendFunc = SendFuncOOB, opc_closePort = Some port,
                             opc_sourceAddr = n_addr n, opc_sourcePort = port, opc_readDeadline = 0,
                             opc_inbound = []\<rparr>
                  in Inr (n\<lparr>n_oobPorts := go_set (n_oobPorts n) port c,
                            n_opcHeap := go_set (n_opcHeap n) c opc\<rparr>, c)))"

definition NewPacketConn :: "netopus \<Rightarrow> send_func \<Rightarrow> ip \<Rightarrow> 16 word \<Rightarrow> netopus \<times> nat" where
  "NewPacketConn n sendFunc sourceAddr sourcePort =
     (let c = new_ptr (n_opcHeap n);
          opc = \<lparr>opc_done = False, opc_sendFunc = sendFunc, opc_closePort = None,
                 opc_sourceAddr = sourceAddr, opc_sourcePort = sourcePort, opc_readDeadline = 0,
                 opc_inbound = []\<rparr>
      in (n\<lparr>n_opcHeap := go_set (n_opcHeap n) c opc\<rparr>, c))"

text \<open>A nil connection is \<open>None\<close>.\<close>

definition IncomingPacket :: "nat option \<Rightarrow> OOBMessage \<Rightarrow> netopus \<Rightarrow> netopus \<times> go_error option" where
  "IncomingPacket c msg n =
     (case c of
        None \<Rightarrow> (n, Some (Errorf ''attempt to inject packet to nil connection''))
      | Some c \<Rightarrow> (opc_offer c msg n, None))"

datatype read_event = EvDone | EvTimer | EvMessage

definition upd_opc :: "nat \<Rightarrow> (OOBPacketConn \<Rightarrow> OOBPacketConn) \<Rightarrow> netopus \<Rightarrow> netopus" where
  "upd_opc c f n =
     (case go_get (n_opcHeap n) c of
        None \<Rightarrow> n
      | Some opc \<Rightarrow> n\<lparr>n_opcHeap := go_set (n_opcHeap n) c (f opc)\<rparr>)"

definition ReadFrom ::
    "time \<Rightarrow> read_event \<Rightarrow> nat \<Rightarrow> nat \<Rightarrow> netopus \<Rightarrow> (netopus \<times> (bytes \<times> ip \<times> 16 word) result) option" where
  "ReadFrom now ev c len_p n =
     (case go_get (n_opcHeap n) c of
        None \<Rightarrow> None
      | Some opc \<Rightarrow>
          (case ev of
             EvDone \<Rightarrow> if opc_done opc then Some (n, Inl (Errorf ''context canceled'')) else None
           | EvTimer \<Rightarrow>
               if opc_readDeadline opc \<noteq> 0 \<and> opc_readDeadline opc \<le> now then Some (n, Inl ErrTimeout) else None
           | EvMessage \<Rightarrow>
               (case opc_inbound opc of
                  [] \<Rightarrow> None
                | msg # rest \<Rightarrow>
                    let n = upd_opc c (\<lambda>opc. opc\<lparr>opc_inbound := rest\<rparr>) n
                    in Some (n, if length (Data msg) > len_p then Inl (Errorf ''buffer size too small'')
                                else Inr (Data msg, SourceAddr msg, SourcePort msg)))))"

text \<open>\<open>addr\<close> is \<open>None\<close> for an address of another network.\<close>

definition WriteTo :: "nat \<Rightarrow> bytes \<Rightarrow> (ip \<times> 16 word) option \<Rightarrow> netopus \<Rightarrow> netopus \<times> nat result" where
  "WriteTo c p addr n =
     (case addr of
        None \<Rightarrow> (n, Inl (Errorf ''address not an OOB address''))
      | Some (host, port) \<Rightarrow>
          (case go_get (n_opcHeap n) c of
             None \<Rightarrow> (n, Inl (Errorf ''nil pointer''))
           | Some opc \<Rightarrow>
               let msg = \<lparr>Hops = 0, SourceAddr = opc_sourceAddr opc, SourcePort = opc_sourcePort opc,
                          DestAddr = host, DestPort = port, Data = p\<rparr>;
                   (n, err) = (case opc_sendFunc opc of
                                 SendFuncOOB \<Rightarrow> SendOOB n msg
                               | SendFuncRoutingOOB \<Rightarrow> sendRoutingOOB n msg)
               in (n, case err of Some e \<Rightarrow> Inl e | None \<Rightarrow> Inr (length p))))"

definition opc_Close :: "nat \<Rightarrow> netopus \<Rightarrow> netopus" where
  "opc_Close c n =
     (case go_get (n_opcHeap n) c of
        None \<Rightarrow> n
      | Some opc \<Rightarrow>
          let n = upd_opc c (\<lambda>opc. opc\<lparr>opc_done := True, opc_inbound := []\<rparr>) n
          in case opc_closePort opc of
               None \<Rightarrow> n
             | Some port \<Rightarrow> n\<lparr>n_oobPorts := go_del (n_oobPorts n) port\<rparr>)"

definition opc_SetReadDeadline :: "nat \<Rightarrow> time \<Rightarrow> netopus \<Rightarrow> netopus" where
  "opc_SetReadDeadline c t = upd_opc c (\<lambda>opc. opc\<lparr>opc_readDeadline := t\<rparr>)"

definition opc_SetWriteDeadline :: "nat \<Rightarrow> time \<Rightarrow> go_error option" where
  "opc_SetWriteDeadline c t = Some ErrNotImplemented"

definition opc_LocalAddr :: "OOBPacketConn \<Rightarrow> ip \<times> 16 word" where
  "opc_LocalAddr c = (opc_sourceAddr c, opc_sourcePort c)"

text \<open>
  Dialling and listening: \<open>kcp\<close> is what \<open>kcp.NewConn2\<close> or \<open>kcp.ServeConn\<close> returned for the packet
  connection, a number for the stream or the listener.
\<close>

definition DialOOB :: "nat option \<Rightarrow> nat result \<Rightarrow> nat result" where
  "DialOOB pc kcp = (case pc of None \<Rightarrow> Inl (Errorf ''pc cannot be nil'') | Some _ \<Rightarrow> kcp)"

definition ListenOOB :: "nat option \<Rightarrow> nat result \<Rightarrow> nat result" where
  "ListenOOB pc kcp = (case pc of None \<Rightarrow> Inl (Errorf ''pc cannot be nil'') | Some _ \<Rightarrow> kcp)"

definition netopus_DialOOB ::
    "(nat \<Rightarrow> nat) \<Rightarrow> netopus \<Rightarrow> (nat \<Rightarrow> nat result) \<Rightarrow> (netopus \<times> nat result) option" where
  "netopus_DialOOB rnd n kcp =
     map_option (\<lambda>r. case r of Inl err \<Rightarrow> (n, Inl err) | Inr (n, pc) \<Rightarrow> (n, DialOOB (Some pc) (kcp pc)))
       (NewOOBPacketConn rnd n 0)"

definition netopus_ListenOOB ::
    "(nat \<Rightarrow> nat) \<Rightarrow> netopus \<Rightarrow> 16 word \<Rightarrow> (nat \<Rightarrow> nat result) \<Rightarrow> (netopus \<times> nat result) option" where
  "netopus_ListenOOB rnd n port kcp =
     map_option (\<lambda>r. case r of Inl err \<Rightarrow> (n, Inl err) | Inr (n, pc) \<Rightarrow> (n, ListenOOB (Some pc) (kcp pc)))
       (NewOOBPacketConn rnd n port)"

section \<open>Ports\<close>

lemma random_port_range: "32768 \<le> random_port x"
proof -
  have "x mod 32768 < 32768" by simp
  then have "32768 + x mod 32768 < 2 ^ 16" by (simp del: mod_less_divisor)
  then have "unat (random_port x) = 32768 + x mod 32768"
    unfolding random_port_def unat_of_nat by simp
  then show ?thesis by (simp add: word_le_nat_alt)
qed

text \<open>The drawing of ports ends as soon as a free one comes up.\<close>

lemma pick_port_returns:
  assumes "go_get m (random_port (rnd (i + k))) = None"
  shows "\<exists>port. pick_port rnd m i = Some port \<and> go_get m port = None \<and> 32768 \<le> port"
  using assms
proof (induction k arbitrary: i)
  case 0
  then show ?case by (subst pick_port.simps) (simp add: random_port_range)
next
  case (Suc k)
  show ?case
  proof (cases "go_get m (random_port (rnd i)) = None")
    case True
    then show ?thesis by (subst pick_port.simps) (simp add: random_port_range)
  next
    case False
    then have "pick_port rnd m i = pick_port rnd m (Suc i)"
      by (subst pick_port.simps) (auto simp: Let_def)
    then show ?thesis using Suc.IH [of "Suc i"] Suc.prems by simp
  qed
qed

text \<open>
  Every registered port belongs to a connection of that port. A closed connection has no pending
  messages.
\<close>

definition ports_inv :: "netopus \<Rightarrow> bool" where
  "ports_inv n \<longleftrightarrow>
     (\<forall>port c. go_get (n_oobPorts n) port = Some c \<longrightarrow>
        (\<exists>opc. go_get (n_opcHeap n) c = Some opc \<and> opc_sourcePort opc = port
           \<and> opc_closePort opc = Some port \<and> opc_sendFunc opc = SendFuncOOB)) \<and>
     (\<forall>c opc. go_get (n_opcHeap n) c = Some opc \<longrightarrow> opc_done opc \<longrightarrow> opc_inbound opc = [])"

lemma upd_opc_sel [simp]:
  "n_oobPorts (upd_opc c f n) = n_oobPorts n" "n_addr (upd_opc c f n) = n_addr n"
  "n_effects (upd_opc c f n) = n_effects n"
  by (simp_all add: upd_opc_def split: option.split)

lemma upd_opc_get:
  "go_get (n_opcHeap (upd_opc c f n)) c' = (if c' = c then map_option f (go_get (n_opcHeap n) c) else go_get (n_opcHeap n) c')"
  by (auto simp: upd_opc_def gomap_simps split: option.split)

lemma ports_inv_upd:
  assumes "ports_inv n" "\<And>opc. opc_sourcePort (f opc) = opc_sourcePort opc \<and> opc_closePort (f opc) = opc_closePort opc
      \<and> opc_sendFunc (f opc) = opc_sendFunc opc"
    and "\<And>opc. go_get (n_opcHeap n) c = Some opc \<Longrightarrow> opc_done (f opc) \<Longrightarrow> opc_inbound (f opc) = []"
  shows "ports_inv (upd_opc c f n)"
  unfolding ports_inv_def
proof (intro conjI allI impI)
  fix port c'
  assume "go_get (n_oobPorts (upd_opc c f n)) port = Some c'"
  then obtain opc where "go_get (n_opcHeap n) c' = Some opc" "opc_sourcePort opc = port"
      "opc_closePort opc = Some port" "opc_sendFunc opc = SendFuncOOB"
    using assms(1) unfolding ports_inv_def upd_opc_sel by blast
  then show "\<exists>opc. go_get (n_opcHeap (upd_opc c f n)) c' = Some opc \<and> opc_sourcePort opc = port
           \<and> opc_closePort opc = Some port \<and> opc_sendFunc opc = SendFuncOOB"
    using assms(2) [of opc] by (cases "c' = c") (auto simp: upd_opc_get)
next
  fix c' opc'
  assume "go_get (n_opcHeap (upd_opc c f n)) c' = Some opc'" "opc_done opc'"
  then show "opc_inbound opc' = []"
    using assms(1,3) unfolding ports_inv_def by (auto simp: upd_opc_get split: if_splits)
qed

text \<open>
  Registering a port. With a given port, the call fails exactly when the port is taken; with
  port 0 it takes a free port of at least 32768 as soon as the random numbers offer one. The new
  connection gets the port, every other registration stays, and the tables stay consistent.
\<close>

theorem port_registration:
  assumes "ports_inv n" "port \<noteq> 0 \<or> (\<exists>i. go_get (n_oobPorts n) (random_port (rnd i)) = None)"
  shows "\<exists>r. NewOOBPacketConn rnd n port = Some r \<and>
    (case r of
       Inl err \<Rightarrow> err = ErrPortInUse \<and> port \<noteq> 0 \<and> go_get (n_oobPorts n) port \<noteq> None
     | Inr (n', c) \<Rightarrow> \<exists>port' opc. (if port = 0 then 32768 \<le> port' else port' = port)
         \<and> go_get (n_oobPorts n) port' = None
         \<and> go_get (n_opcHeap n') c = Some opc \<and> opc_LocalAddr opc = (n_addr n, port')
         \<and> go_get (n_oobPorts n') = (go_get (n_oobPorts n))(port' \<mapsto> c) \<and> ports_inv n')"
proof -
  obtain port' where p: "(if port = 0 then pick_port rnd (n_oobPorts n) 0 else Some port) = Some port'"
      "if port = 0 then 32768 \<le> port' \<and> go_get (n_oobPorts n) port' = None else port' = port"
    using assms(2) pick_port_returns [of "n_oobPorts n" rnd 0] by (cases "port = 0") auto
  let ?c = "new_ptr (n_opcHeap n)"
  let ?opc = "\<lparr>opc_done = False, opc_sendFunc = SendFuncOOB, opc_closePort = Some port',
      opc_sourceAddr = n_addr n, opc_sourcePort = port', opc_readDeadline = 0, opc_inbound = []\<rparr>"
  let ?n = "n\<lparr>n_oobPorts := go_set (n_oobPorts n) port' ?c, n_opcHeap := go_set (n_opcHeap n) ?c ?opc\<rparr>"
  have new: "NewOOBPacketConn rnd n port = Some (if go_get (n_oobPorts n) port' \<noteq> None then Inl ErrPortInUse else Inr (?n, ?c))"
    unfolding NewOOBPacketConn_def p(1) by (simp add: Let_def)
  have "go_get (n_oobPorts n) q \<noteq> Some ?c" for q
    using assms(1) new_ptr_fresh [of "n_opcHeap n"] unfolding ports_inv_def by fastforce
  then have "ports_inv ?n" using assms(1) unfolding ports_inv_def by (auto simp: gomap_simps)
  moreover have "go_get (n_oobPorts ?n) = (go_get (n_oobPorts n))(port' \<mapsto> ?c)" by (simp add: update_conv')
  moreover have "go_get (n_opcHeap ?n) ?c = Some ?opc" by (simp add: gomap_simps)
  ultimately show ?thesis
    using new p(2) by (cases "go_get (n_oobPorts n) port'") (auto simp: opc_LocalAddr_def split: if_splits)
qed

theorem port_registration_witness:
  "\<exists>r. NewOOBPacketConn (\<lambda>_. 0) ex_node 7 = Some r \<and>
    (case r of
       Inl err \<Rightarrow> err = ErrPortInUse \<and> (7 :: 16 word) \<noteq> 0 \<and> go_get (n_oobPorts ex_node) 7 \<noteq> None
     | Inr (n', c) \<Rightarrow> \<exists>port' opc. (if (7 :: 16 word) = 0 then 32768 \<le> port' else port' = 7)
         \<and> go_get (n_oobPorts ex_node) port' = None
         \<and> go_get (n_opcHeap n') c = Some opc \<and> opc_LocalAddr opc = (n_addr ex_node, port')
         \<and> go_get (n_oobPorts n') = (go_get (n_oobPorts ex_node))(port' \<mapsto> c) \<and> ports_inv n')"
  by (rule port_registration) (simp_all add: ports_inv_def ex_node_def)

lemma opc_Close_inv: "ports_inv n \<Longrightarrow> ports_inv (opc_Close c n)"
proof (cases "go_get (n_opcHeap n) c")
  case (Some opc)
  assume inv: "ports_inv n"
  let ?n = "upd_opc c (\<lambda>opc. opc\<lparr>opc_done := True, opc_inbound := []\<rparr>) n"
  have "ports_inv ?n" by (rule ports_inv_upd [OF inv]) simp_all
  moreover have "ports_inv (m\<lparr>n_oobPorts := go_del ps port\<rparr>)" if "ports_inv m" "n_oobPorts m = ps" for m ps port
    using that unfolding ports_inv_def by (auto simp: gomap_simps split: if_splits)
  ultimately show ?thesis by (simp add: opc_Close_def Some Let_def split: option.split)
qed (simp add: opc_Close_def)

text \<open>
  C39. Closing a connection twice takes the port away from its successor: a connection that was
  closed may be closed again by its goroutine after the port has been registered anew, and then
  the new connection, still open, is no longer registered.
\<close>

theorem second_close_unregisters_successor:
  assumes "ports_inv n" "go_get (n_oobPorts n) port = Some c" "port \<noteq> 0"
  shows "\<exists>n' d opc. NewOOBPacketConn rnd (opc_Close c n) port = Some (Inr (n', d))
     \<and> go_get (n_oobPorts n') port = Some d
     \<and> go_get (n_opcHeap (opc_Close c n')) d = Some opc \<and> \<not> opc_done opc
     \<and> go_get (n_oobPorts (opc_Close c n')) port = None"
proof -
  obtain opc where opc: "go_get (n_opcHeap n) c = Some opc" "opc_closePort opc = Some port"
    using assms(1,2) unfolding ports_inv_def by blast
  let ?n = "opc_Close c n"
  have n: "go_get (n_oobPorts ?n) port = None"
    "go_get (n_opcHeap ?n) c = Some (opc\<lparr>opc_done := True, opc_inbound := []\<rparr>)"
    by (simp_all add: opc_Close_def opc Let_def gomap_simps upd_opc_get)
  let ?d = "new_ptr (n_opcHeap ?n)"
  let ?opc = "\<lparr>opc_done = False, opc_sendFunc = SendFuncOOB, opc_closePort = Some port,
      opc_sourceAddr = n_addr ?n, opc_sourcePort = port, opc_readDeadline = 0, opc_inbound = []\<rparr>"
  define n' where "n' = ?n\<lparr>n_oobPorts := go_set (n_oobPorts ?n) port ?d, n_opcHeap := go_set (n_opcHeap ?n) ?d ?opc\<rparr>"
  have d: "?d \<noteq> c" using n(2) new_ptr_fresh [of "n_opcHeap ?n"] by auto
  have new: "NewOOBPacketConn rnd ?n port = Some (Inr (n', ?d))"
    using n(1) assms(3) by (simp add: NewOOBPacketConn_def Let_def n'_def)
  have heap: "go_get (n_opcHeap n') c = Some (opc\<lparr>opc_done := True, opc_inbound := []\<rparr>)"
    "go_get (n_opcHeap n') ?d = Some ?opc" "go_get (n_oobPorts n') port = Some ?d"
    using n(2) d by (simp_all add: n'_def gomap_simps)
  have closed: "opc_Close c n' = (upd_opc c (\<lambda>opc. opc\<lparr>opc_done := True, opc_inbound := []\<rparr>) n')
      \<lparr>n_oobPorts := go_del (n_oobPorts n') port\<rparr>"
    using heap(1) opc(2) by (simp add: opc_Close_def Let_def)
  have "go_get (n_opcHeap (opc_Close c n')) ?d = Some ?opc" "go_get (n_oobPorts (opc_Close c n')) port = None"
    using heap(2) d by (simp_all add: closed upd_opc_get gomap_simps)
  then show ?thesis using new heap(3) by (intro exI [of _ n'] exI [of _ ?d] exI [of _ ?opc]) simp
qed

definition ex_open :: netopus where
  "ex_open = ex_node\<lparr>n_oobPorts := [(8, 1)], n_opcHeap := [(1,
     \<lparr>opc_done = False, opc_sendFunc = SendFuncOOB, opc_closePort = Some 8, opc_sourceAddr = ex_ip 1,
      opc_sourcePort = 8, opc_readDeadline = 0, opc_inbound = []\<rparr>)]\<rparr>"

lemma ex_open_inv: "ports_inv ex_open"
  by (simp add: ports_inv_def ex_open_def)

theorem second_close_unregisters_successor_witness:
  "\<exists>n' d opc. NewOOBPacketConn (\<lambda>_. 0) (opc_Close 1 ex_open) 8 = Some (Inr (n', d))
     \<and> go_get (n_oobPorts n') 8 = Some d
     \<and> go_get (n_opcHeap (opc_Close 1 n')) d = Some opc \<and> \<not> opc_done opc
     \<and> go_get (n_oobPorts (opc_Close 1 n')) 8 = None"
  by (rule second_close_unregisters_successor [OF ex_open_inv]) (simp_all add: ex_open_def)

section \<open>Delivery\<close>

text \<open>
  C30. Datagrams arrive: when a connection of node \<open>a\<close> writes to a registered port of another node
  \<open>b\<close> and \<open>a\<close> has a session to the next hop towards \<open>b\<close>, the bytes put on that session's connection,
  decoded and handled at \<open>b\<close>, make a read of \<open>b\<close>'s connection return the data together with the
  sender's address and port, provided no earlier message waits and the buffer is large enough.
\<close>

theorem oob_datagram_delivered:
  assumes a: "go_get (n_opcHeap a) ca = Some opa" "opc_sendFunc opa = SendFuncOOB" "length (opc_sourceAddr opa) = 16"
    and route: "\<not> IP_Equal (n_addr b) (n_addr a)" "length (n_addr b) = 16"
      "session_of a (case NextHop (n_router a) (n_addr b) of Inl err \<Rightarrow> n_addr b | Inr hop \<Rightarrow> hop) = Some sess"
    and b: "go_get (n_oobPorts b) port = Some cb" "go_get (n_opcHeap b) cb = Some opb" "\<not> opc_done opb"
      "opc_inbound opb = []" "length data \<le> len_p"
  shows "\<exists>a' bs msg b' b''. WriteTo ca data (Some (n_addr b, port)) a = (a', Inr (length data))
     \<and> n_effects a' = n_effects a @ [ConnWrite (ps_conn sess) bs]
     \<and> unmarshalOOB bs = Inr msg \<and> SendOOB b msg = (b', None)
     \<and> ReadFrom now EvMessage cb len_p b' = Some (b'', Inr (data, opc_LocalAddr opa))"
proof -
  let ?m = "\<lparr>Hops = 1, SourceAddr = opc_sourceAddr opa, SourcePort = opc_sourcePort opa,
      DestAddr = n_addr b, DestPort = port, Data = data\<rparr>"
  let ?a = "emit (ConnWrite (ps_conn sess) (OOBMessage_Marshal ?m)) a"
  have lt: "\<not> (30 :: byte) \<le> 1" by code_simp
  have "WriteTo ca data (Some (n_addr b, port)) a = (?a, Inr (length data))"
    using a route(1,3) lt
    by (cases "NextHop (n_router a) (n_addr b)") (simp_all add: WriteTo_def SendOOB_def Let_def)
  moreover have "unmarshalOOB (OOBMessage_Marshal ?m) = Inr ?m"
    using a(3) route(2) by (simp add: unmarshalOOB_marshal)
  moreover have "SendOOB b ?m = (opc_offer cb ?m b, None)" using b(1) by (simp add: SendOOB_def)
  moreover have "go_get (n_opcHeap (opc_offer cb ?m b)) cb = Some (opb\<lparr>opc_inbound := [?m]\<rparr>)"
    using b(2-4) by (simp add: opc_offer_def gomap_simps)
  then have "\<exists>b''. ReadFrom now EvMessage cb len_p (opc_offer cb ?m b) = Some (b'', Inr (data, opc_LocalAddr opa))"
    using b(5) by (simp add: ReadFrom_def Let_def opc_LocalAddr_def)
  ultimately show ?thesis by fastforce
qed

theorem oob_datagram_delivered_witness:
  "\<exists>a' bs msg b' b''. WriteTo 1 [42] (Some (ex_ip 2, 8)) ex_open = (a', Inr (length [42 :: byte]))
     \<and> n_effects a' = n_effects ex_open @ [ConnWrite 7 bs]
     \<and> unmarshalOOB bs = Inr msg \<and> SendOOB (ex_open\<lparr>n_addr := ex_ip 2\<rparr>) msg = (b', None)
     \<and> ReadFrom 0 EvMessage 1 100 b' = Some (b'', Inr ([42], ex_ip 1, 8))"
proof -
  let ?b = "ex_open\<lparr>n_addr := ex_ip 2\<rparr>"
  let ?opc = "\<lparr>opc_done = False, opc_sendFunc = SendFuncOOB, opc_closePort = Some 8, opc_sourceAddr = ex_ip 1,
      opc_sourcePort = 8, opc_readDeadline = 0, opc_inbound = []\<rparr>"
  have h: "NextHop (n_router ex_open) (n_addr ?b) = Inr (ex_ip 2)" "session_of ex_open (ex_ip 2) = Some ex_session"
    "\<not> IP_Equal (n_addr ?b) (n_addr ex_open)" by code_simp+
  have g: "go_get (n_opcHeap ex_open) 1 = Some ?opc" "go_get (n_oobPorts ?b) 8 = Some 1" "go_get (n_opcHeap ?b) 1 = Some ?opc"
    "n_addr ?b = ex_ip 2" "ps_conn ex_session = 7" "length (ex_ip 1) = 16" "length (ex_ip 2) = 16"
    by (simp_all add: ex_open_def ex_session_def ex_ip_def)
  show ?thesis
    using oob_datagram_delivered [of ex_open 1 ?opc ?b ex_session 8 1 ?opc "[42]" 100 0] h g
    by (simp add: opc_LocalAddr_def)
qed

end
