(* ===== verification/Sessions.thy ===== *)
theory Sessions
  imports RoutingUpdates OOBConn
begin

text \<open>
  \<^verbatim>\<open>pkg/netopus/netopus.go\<close>, the session protocol: \<open>RunProtocol\<close>, \<open>protoLoop\<close>, \<open>initSelect\<close>,
  \<open>mainSelect\<close>, \<open>sendInit\<close> and the goroutines they start.

  Each atomic section of the code is a function on the node's state: entering \<open>initSelect\<close>, handling a
  received message in either mode, the outcome of accepting or dialling the routing stream, the
  expiry of an attempt's timer, a keepalive tick, and the start and the end of \<open>RunProtocol\<close>.
  \<open>sess_step\<close> is the relation of all of them, in any interleaving, over all sessions of a node.

  What the environment decides in a step is in its arguments: the time, random numbers, results of
  writes, of \<open>kcp\<close> calls and of reads.
\<close>

section \<open>Operations\<close>

record sess_env =
  se_now :: time
  se_rand :: "nat result"              \<comment> \<open>what \<open>rand.Read\<close> returned: the number of bytes\<close>
  se_write :: "go_error option"        \<comment> \<open>what \<open>WriteMessage\<close> returned\<close>

definition sendInit :: "json_codec \<Rightarrow> sess_env \<Rightarrow> nat \<Rightarrow> protoSession \<Rightarrow> netopus \<Rightarrow> netopus" where
  "sendInit j env s p n =
     (case se_rand env of
        Inl err \<Rightarrow> n
      | Inr k \<Rightarrow>
          if k \<noteq> 8 then n
          else case InitMsg_Marshal j (n_addr n) of
            Inl err \<Rightarrow> n
          | Inr im \<Rightarrow>
              let n = emit (ConnWrite (ps_conn p) im) n
              in case se_write env of
                   Some err \<Rightarrow> n
                 | None \<Rightarrow> upd_sess s (\<lambda>p. p\<lparr>ps_lastInit := se_now env\<rparr>) n)"

text \<open>What \<open>initSelect\<close> does before it waits; \<open>kcp\<close> is what \<open>kcp.ServeConn\<close> returned.\<close>

definition initSelect_enter ::
    "json_codec \<Rightarrow> sess_env \<Rightarrow> nat result \<Rightarrow> nat \<Rightarrow> protoSession \<Rightarrow> netopus \<Rightarrow> netopus" where
  "initSelect_enter j env kcp s p n =
     (if ps_connectionState p = connectionStateInit
      then let n = sendInit j env s p n in
           if ps_isServer p \<and> ps_oobRouteListener p = None
           then let (n, opc) = NewPacketConn n SendFuncRoutingOOB (n_addr n) 0;
                    n = upd_sess s (\<lambda>p. p\<lparr>ps_oobRoutePacketConn := Some opc\<rparr>) n
                in case ListenOOB (Some opc) kcp of
                     Inl err \<Rightarrow> cancel_session s n
                   | Inr li \<Rightarrow> upd_sess s (\<lambda>p. p\<lparr>ps_oobRouteListener := Some li\<rparr>) n
           else n
      else n)"

definition keepalive_reply :: "json_codec \<Rightarrow> protoSession \<Rightarrow> netopus \<Rightarrow> netopus" where
  "keepalive_reply j p n =
     (case KeepaliveReplyMsg_Marshal j of
        Inl err \<Rightarrow> emit (ConnWrite (ps_conn p) []) n
      | Inr ka \<Rightarrow> emit (ConnWrite (ps_conn p) ka) n)"

definition route_oob_recv :: "protoSession \<Rightarrow> OOBMessage \<Rightarrow> netopus \<Rightarrow> netopus" where
  "route_oob_recv p msg n =
     (case ps_oobRoutePacketConn p of
        None \<Rightarrow> n
      | Some opc \<Rightarrow> fst (IncomingPacket (Some opc) msg n))"

text \<open>
  The peer's init message in init mode: the session becomes the session of that peer, an older one
  is cancelled, and the attempt to set up the routing stream is started.
\<close>

definition start_attempt :: "time \<Rightarrow> nat \<Rightarrow> protoSession \<Rightarrow> ip \<Rightarrow> netopus \<Rightarrow> netopus" where
  "start_attempt now s p peer n =
     (let n = upd_sess s (\<lambda>p. p\<lparr>ps_connectionState := connectionStateConnecting, ps_remoteAddr := peer\<rparr>) n;
          n = (case go_get (n_sessionInfo n) peer of
                 Some old \<Rightarrow> if old \<noteq> s then cancel_session old n else n
               | None \<Rightarrow> n);
          n = n\<lparr>n_sessionInfo := go_set (n_sessionInfo n) peer s\<rparr>;
          k = ps_attempts p;
          g = (if ps_isServer p
               then (if ps_oobRouteListener p \<noteq> None then [GAccept k peer] else [])
               else [GDial k peer now])
      in upd_sess s (\<lambda>p. p\<lparr>ps_attempts := k + 1, ps_goroutines := ps_goroutines p @ GRouteTimer k # g\<rparr>) n)"

definition initSelect_recv ::
    "json_codec \<Rightarrow> time \<Rightarrow> nat \<Rightarrow> protoSession \<Rightarrow> bytes \<Rightarrow> netopus \<Rightarrow> netopus \<times> bool" where
  "initSelect_recv j now s p data n =
     (case Msg_Unmarshal j data of
        Inl err \<Rightarrow> (n, False)
      | Inr msg \<Rightarrow>
          (case msg of
             InitMsg peer \<Rightarrow>
               if ps_connectionState p \<noteq> connectionStateInit then (n, False)
               else (start_attempt now s p peer n, True)
           | RouteOOBMessage m \<Rightarrow> (route_oob_recv p m n, True)
           | KeepaliveMsg \<Rightarrow> (keepalive_reply j p n, True)
           | KeepaliveReplyMsg \<Rightarrow> (n, True)
           | _ \<Rightarrow> (n, False)))"

text \<open>The routing stream is up.\<close>

definition finalizeConn :: "time \<Rightarrow> nat \<Rightarrow> nat \<Rightarrow> nat \<Rightarrow> netopus \<Rightarrow> netopus" where
  "finalizeConn now s k orc n =
     updateSender_RunWithin (100 * millisecond)
       (upd_sess s (\<lambda>p. p\<lparr>ps_oobRouteConn := Some orc, ps_connectionState := connectionStateConnected,
          ps_connStart := now, ps_goroutines := remove1 (GRouteTimer k) (ps_goroutines p) @ [GRouteReader]\<rparr>) n)"

definition drop_goroutine :: "goroutine \<Rightarrow> protoSession \<Rightarrow> protoSession" where
  "drop_goroutine g p = p\<lparr>ps_goroutines := remove1 g (ps_goroutines p)\<rparr>"

definition accept_result ::
    "time \<Rightarrow> nat \<Rightarrow> protoSession \<Rightarrow> nat \<Rightarrow> ip \<Rightarrow> nat result \<Rightarrow> netopus \<Rightarrow> netopus" where
  "accept_result now s p k peer res n =
     (let n = upd_sess s (drop_goroutine (GAccept k peer)) n in
      if ps_done p then upd_sess s (\<lambda>p. p\<lparr>ps_connectionState := connectionStateInit\<rparr>) n
      else case res of
        Inl err \<Rightarrow> upd_sess s (\<lambda>p. p\<lparr>ps_connectionState := connectionStateInit\<rparr>) (cancel_session s n)
      | Inr orc \<Rightarrow> finalizeConn now s k orc n)"

text \<open>
  One iteration of the dialling loop: a fresh packet connection, the result of \<open>kcp.NewConn2\<close>, and
  after a failure a pause that ends with the context (\<open>ctxDone\<close>) or with the 100 ms timer at time \<open>later\<close>.
\<close>

definition dial_result ::
    "time \<Rightarrow> time \<Rightarrow> bool \<Rightarrow> nat \<Rightarrow> nat \<Rightarrow> ip \<Rightarrow> time \<Rightarrow> nat result \<Rightarrow> netopus \<Rightarrow> netopus" where
  "dial_result now later ctxDone s k peer startTime kcp n =
     (let (n, opc) = NewPacketConn n SendFuncRoutingOOB (n_addr n) 0 in
      case DialOOB (Some opc) kcp of
        Inr orc \<Rightarrow>
          finalizeConn now s k orc
            (upd_sess s (\<lambda>p. drop_goroutine (GDial k peer startTime) (p\<lparr>ps_oobRoutePacketConn := Some opc\<rparr>)) n)
      | Inl err \<Rightarrow>
          if ctxDone \<or> later > startTime + 5 * second
          then upd_sess s (\<lambda>p. drop_goroutine (GDial k peer startTime) (p\<lparr>ps_connectionState := connectionStateInit\<rparr>)) n
          else n)"

definition mainSelect_recv ::
    "json_codec \<Rightarrow> ipv6_ops \<Rightarrow> fwd_env \<Rightarrow> time \<Rightarrow> nat \<Rightarrow> protoSession \<Rightarrow> bytes \<Rightarrow> netopus \<Rightarrow> (netopus \<times> bool) option" where
  "mainSelect_recv j h fenv now s p data n =
     (case Msg_Unmarshal j data of
        Inl err \<Rightarrow> Some (n, False)
      | Inr msg \<Rightarrow>
          (case msg of
             DataMsg _ \<Rightarrow> map_option (\<lambda>(n, err). (n, True)) (SendPacket h fenv n data)
           | InitMsg _ \<Rightarrow>
               Some (if now - ps_lastInit p > 2 * second
                     then upd_sess s (\<lambda>p. p\<lparr>ps_connectionState := connectionStateInit\<rparr>) n else n, False)
           | OOBMsg m \<Rightarrow> Some (fst (SendOOB n m), True)
           | RouteOOBMessage m \<Rightarrow> Some (route_oob_recv p m n, True)
           | KeepaliveMsg \<Rightarrow> Some (keepalive_reply j p n, True)
           | KeepaliveReplyMsg \<Rightarrow> Some (n, True)))"

text \<open>
  One turn of \<open>protoLoop\<close> that receives a message. \<open>connected\<close> is whether the session was connected when
  the turn began: a turn that began before the routing stream was up handles its message in init mode.
\<close>

definition protoLoop_recv ::
    "json_codec \<Rightarrow> ipv6_ops \<Rightarrow> fwd_env \<Rightarrow> time \<Rightarrow> bool \<Rightarrow> nat \<Rightarrow> protoSession \<Rightarrow> bytes \<Rightarrow> netopus \<Rightarrow> netopus option" where
  "protoLoop_recv j h fenv now connected s p data n =
     map_option (\<lambda>(n, activity). if activity then upd_sess s (\<lambda>p. p\<lparr>ps_lastActivity := now\<rparr>) n else n)
       (if connected
        then mainSelect_recv j h fenv now s p data n
        else Some (initSelect_recv j now s p data n))"

text \<open>The keepalive goroutine of \<open>protoLoop\<close>, once a second.\<close>

definition keepalive_tick :: "json_codec \<Rightarrow> time \<Rightarrow> nat \<Rightarrow> protoSession \<Rightarrow> netopus \<Rightarrow> netopus" where
  "keepalive_tick j now s p n =
     (let lA = now - ps_lastActivity p in
      if lA > 7 * second then cancel_session s n
      else if lA > 3 * second
      then (case KeepaliveMsg_Marshal j of
              Inl err \<Rightarrow> emit (ConnWrite (ps_conn p) []) n
            | Inr ka \<Rightarrow> emit (ConnWrite (ps_conn p) ka) n)
      else n)"

text \<open>
  One turn of \<open>backendReadLoop\<close>: \<open>res\<close> is what \<open>ReadMessage\<close> returned and \<open>ctxDone\<close> whether the context was
  done by then; the result is the message that goes to \<open>protoLoop\<close>, if any, and the loop ends without one.
\<close>

definition backendReadLoop_step :: "bool \<Rightarrow> bytes result \<Rightarrow> nat \<Rightarrow> netopus \<Rightarrow> netopus \<times> bytes option" where
  "backendReadLoop_step ctxDone res s n =
     (if ctxDone then (cancel_session s n, None)
      else case res of
        Inl err \<Rightarrow> (cancel_session s n, None)
      | Inr data \<Rightarrow> (n, Some data))"

text \<open>One turn of \<open>netStackReadLoop\<close>; the flag tells whether it goes on.\<close>

definition netStackReadLoop_step ::
    "ipv6_ops \<Rightarrow> fwd_env \<Rightarrow> bool \<Rightarrow> bytes \<Rightarrow> netopus \<Rightarrow> (netopus \<times> bool) option" where
  "netStackReadLoop_step h fenv ctxDone packet n =
     map_option (\<lambda>(n, err). (n, \<not> ctxDone)) (SendPacket h fenv n packet)"

definition RunProtocol_start :: "f32 \<Rightarrow> nat \<Rightarrow> bool \<Rightarrow> netopus \<Rightarrow> netopus \<times> nat" where
  "RunProtocol_start cost conn isServer n =
     (let cost = (if f32_le cost f32_zero then f32_one else cost);
          s = new_ptr (n_sessHeap n)
      in (n\<lparr>n_sessHeap := go_set (n_sessHeap n) s
            \<lparr>ps_done = False, ps_conn = conn, ps_isServer = isServer, ps_cost = cost, ps_remoteAddr = [],
             ps_connectionState = connectionStateInit, ps_connStart = 0, ps_lastInit = 0,
             ps_oobRoutePacketConn = None, ps_oobRouteListener = None, ps_oobRouteConn = None,
             ps_lastActivity = 0, ps_attempts = 0, ps_goroutines = []\<rparr>\<rparr>, s))"

text \<open>The deferred part of \<open>RunProtocol\<close>, once the session's context is done.\<close>

definition RunProtocol_end :: "nat \<Rightarrow> netopus \<Rightarrow> netopus" where
  "RunProtocol_end s n =
     updateSender_RunWithin (100 * millisecond)
       (n\<lparr>n_sessionInfo := fold (\<lambda>(k, v) si. if v = s then go_del si k else si) (n_sessionInfo n) (n_sessionInfo n)\<rparr>)"

text \<open>The timer of an attempt expires.\<close>

definition route_timer_fires :: "nat \<Rightarrow> nat \<Rightarrow> netopus \<Rightarrow> netopus" where
  "route_timer_fires s k n = cancel_session s (upd_sess s (drop_goroutine (GRouteTimer k)) n)"

section \<open>The step relation\<close>

text \<open>
  Every step of the sessions of a node, of its routing updates and of its administration, with the
  guards under which the code can take it. \<open>rx\<close> is the set of lines that a routing stream can deliver.
\<close>

inductive sess_step :: "'q pq_ops \<Rightarrow> json_codec \<Rightarrow> update_codec \<Rightarrow> ipv6_ops \<Rightarrow> bytes set \<Rightarrow> netopus \<Rightarrow> netopus \<Rightarrow> bool" for pq j uj h rx where
  st_start: "sess_step pq j uj h rx n (fst (RunProtocol_start cost conn srv n))"
| st_enter: "go_get (n_sessHeap n) s = Some p \<Longrightarrow>
    ps_connectionState p \<noteq> connectionStateConnected \<Longrightarrow> sess_step pq j uj h rx n (initSelect_enter j env kcp s p n)"
| st_recv: "go_get (n_sessHeap n) s = Some p \<Longrightarrow>
    (connected \<longrightarrow> ps_connectionState p = connectionStateConnected) \<Longrightarrow>
    protoLoop_recv j h fenv now connected s p data n = Some n' \<Longrightarrow> sess_step pq j uj h rx n n'"
| st_accept: "go_get (n_sessHeap n) s = Some p \<Longrightarrow> GAccept k peer \<in> set (ps_goroutines p) \<Longrightarrow>
    sess_step pq j uj h rx n (accept_result now s p k peer res n)"
| st_dial: "go_get (n_sessHeap n) s = Some p \<Longrightarrow> GDial k peer t \<in> set (ps_goroutines p) \<Longrightarrow>
    (ctxDone \<longrightarrow> ps_done p) \<Longrightarrow> sess_step pq j uj h rx n (dial_result now later ctxDone s k peer t kcp n)"
| st_timer: "go_get (n_sessHeap n) s = Some p \<Longrightarrow> GRouteTimer k \<in> set (ps_goroutines p) \<Longrightarrow>
    sess_step pq j uj h rx n (route_timer_fires s k n)"
| st_timer_stop: "go_get (n_sessHeap n) s = Some p \<Longrightarrow> ps_done p \<Longrightarrow>
    sess_step pq j uj h rx n (upd_sess s (drop_goroutine (GRouteTimer k)) n)"
| st_reader: "go_get (n_sessHeap n) s = Some p \<Longrightarrow> GRouteReader \<in> set (ps_goroutines p) \<Longrightarrow>
    (\<forall>b. line = Inr b \<longrightarrow> b \<in> rx) \<Longrightarrow> routeReader_step uj now s p line n = Inr (n', go) \<Longrightarrow>
    sess_step pq j uj h rx n (if go then n' else upd_sess s (drop_goroutine GRouteReader) n')"
| st_tick: "go_get (n_sessHeap n) s = Some p \<Longrightarrow> sess_step pq j uj h rx n (keepalive_tick j now s p n)"
| st_cancel: "sess_step pq j uj h rx n (cancel_session s n)"
| st_end: "go_get (n_sessHeap n) s = Some p \<Longrightarrow> ps_done p \<Longrightarrow> sess_step pq j uj h rx n (RunProtocol_end s n)"
| st_update: "updateSender_run uj n = Inr n' \<Longrightarrow> sess_step pq j uj h rx n n'"
| st_router: "sess_step pq j uj h rx n (routerUpdate_recv n)"
| st_recalculate: "recalculate pq o' (n_router n) = Some r' \<Longrightarrow> sess_step pq j uj h rx n (n\<lparr>n_router := r'\<rparr>)"
| st_dead: "sess_step pq j uj h rx n (monitorDeadNodes_round now n)"
| st_add_route: "sess_step pq j uj h rx n (AddExternalRoute n name dest cost opf)"
| st_del_route: "sess_step pq j uj h rx n (DelExternalRoute n name)"
| st_add_name: "sess_step pq j uj h rx n (AddExternalName n name a)"
| st_del_name: "sess_step pq j uj h rx n (DelExternalName n name)"
| st_config: "sess_step pq j uj h rx n (UpdateConfig n cfg sig version)"
| st_send: "SendPacket h fenv n packet = Some (n', err) \<Longrightarrow> sess_step pq j uj h rx n n'"
| st_stack: "netStackReadLoop_step h fenv ctxDone packet n = Some (n', go) \<Longrightarrow> sess_step pq j uj h rx n n'"
| st_read: "sess_step pq j uj h rx n (fst (backendReadLoop_step ctxDone res s n))"
| st_send_oob: "SendOOB n m = (n', err) \<Longrightarrow> sess_step pq j uj h rx n n'"
| st_new_oob: "NewOOBPacketConn rnd n port = Some (Inr (n', c)) \<Longrightarrow> sess_step pq j uj h rx n n'"
| st_close: "sess_step pq j uj h rx n (opc_Close c n)"

section \<open>The session invariant\<close>

definition is_conn_goroutine :: "goroutine \<Rightarrow> bool" where
  "is_conn_goroutine g = (case g of GAccept _ _ \<Rightarrow> True | GDial _ _ _ \<Rightarrow> True | _ \<Rightarrow> False)"

definition cost_positive :: "f32 \<Rightarrow> bool" where
  "cost_positive c \<longleftrightarrow> \<not> f32_le c f32_zero"

text \<open>
  A single session: one of three states, with a routing stream once connected, at most one attempt
  under way, and that only while connecting, and a cost that is not zero or negative.
\<close>

definition sess_ok :: "protoSession \<Rightarrow> bool" where
  "sess_ok p \<longleftrightarrow>
     ps_connectionState p \<in> {connectionStateInit, connectionStateConnecting, connectionStateConnected} \<and>
     (ps_connectionState p = connectionStateConnected \<longrightarrow> ps_oobRouteConn p \<noteq> None) \<and>
     length (filter is_conn_goroutine (ps_goroutines p))
       \<le> (if ps_connectionState p = connectionStateConnecting then 1 else 0) \<and>
     cost_positive (ps_cost p)"

definition routes_ok :: "(string, externalRouteInfo) gomap \<Rightarrow> bool" where
  "routes_ok m \<longleftrightarrow> go_wf m \<and> (\<forall>k r. go_get m k = Some r \<longrightarrow> cost_positive (er_cost r))"

text \<open>
  All sessions: the table names existing sessions, and a live session that knows its peer is the one
  the table has for that peer.
\<close>

definition node_inv :: "netopus \<Rightarrow> bool" where
  "node_inv n \<longleftrightarrow>
     go_wf (n_sessionInfo n) \<and>
     (\<forall>a s. go_get (n_sessionInfo n) a = Some s \<longrightarrow> go_get (n_sessHeap n) s \<noteq> None) \<and>
     (\<forall>s p. go_get (n_sessHeap n) s = Some p \<longrightarrow> sess_ok p) \<and>
     (\<forall>s p. go_get (n_sessHeap n) s = Some p \<longrightarrow> \<not> ps_done p \<longrightarrow> ps_remoteAddr p \<noteq> [] \<longrightarrow>
        go_get (n_sessionInfo n) (ps_remoteAddr p) = Some s) \<and>
     routes_ok (n_externalRoutes n)"

lemma node_invI:
  assumes "go_wf (n_sessionInfo n)"
    and "\<And>a s. go_get (n_sessionInfo n) a = Some s \<Longrightarrow> go_get (n_sessHeap n) s \<noteq> None"
    and "\<And>s p. go_get (n_sessHeap n) s = Some p \<Longrightarrow> sess_ok p"
    and "\<And>s p. go_get (n_sessHeap n) s = Some p \<Longrightarrow> \<not> ps_done p \<Longrightarrow> ps_remoteAddr p \<noteq> [] \<Longrightarrow>
        go_get (n_sessionInfo n) (ps_remoteAddr p) = Some s"
    and "routes_ok (n_externalRoutes n)"
  shows "node_inv n"
  using assms unfolding node_inv_def by simp

lemma node_invD:
  assumes "node_inv n"
  shows inv_wf: "go_wf (n_sessionInfo n)"
    and inv_table: "\<And>a s. go_get (n_sessionInfo n) a = Some s \<Longrightarrow> go_get (n_sessHeap n) s \<noteq> None"
    and inv_sess: "\<And>s p. go_get (n_sessHeap n) s = Some p \<Longrightarrow> sess_ok p"
    and inv_live: "\<And>s p. go_get (n_sessHeap n) s = Some p \<Longrightarrow> \<not> ps_done p \<Longrightarrow> ps_remoteAddr p \<noteq> [] \<Longrightarrow>
        go_get (n_sessionInfo n) (ps_remoteAddr p) = Some s"
    and inv_routes: "routes_ok (n_externalRoutes n)"
  using assms unfolding node_inv_def by simp_all

text \<open>Steps that leave sessions and external routes alone keep the invariant.\<close>

definition same_sess :: "netopus \<Rightarrow> netopus \<Rightarrow> bool" where
  "same_sess n n' \<longleftrightarrow> n_sessHeap n' = n_sessHeap n \<and> n_sessionInfo n' = n_sessionInfo n
     \<and> n_externalRoutes n' = n_externalRoutes n"

lemma same_sess_refl [simp]: "same_sess n n"
  by (simp add: same_sess_def)

lemma same_sess_trans: "same_sess a b \<Longrightarrow> same_sess b c \<Longrightarrow> same_sess a c"
  by (simp add: same_sess_def)

lemma node_inv_same: "same_sess n n' \<Longrightarrow> node_inv n' = node_inv n"
  by (simp add: same_sess_def node_inv_def)

lemma same_sess_fold: "(\<And>x m. same_sess m (f x m)) \<Longrightarrow> same_sess n (fold f xs n)"
  by (induction xs arbitrary: n) (auto intro: same_sess_trans)

lemma same_sess_emit [simp]: "same_sess n (emit e n)" "same_sess n (updateSender_RunWithin d n)"
  by (simp_all add: same_sess_def)

lemma node_inv_effect [simp]:
  "node_inv (emit e n) = node_inv n" "node_inv (updateSender_RunWithin d n) = node_inv n"
  by (simp_all add: node_inv_same [OF same_sess_emit(1)] node_inv_same [OF same_sess_emit(2)])

lemma SendPacket_same:
  assumes "SendPacket h fenv n p = Some (n', err)"
  shows "same_sess n n'"
proof -
  have "same_sess n (fst res)" if "SendPacket h fenv n p = Some res" for res
    using that
  proof (induction h fenv n p res rule: SendPacket.raw_induct [rotated, consumes 1, case_names step])
    case (step SendPacket' h env n packet res)
    have RW: "same_sess n (fst r)" if "SendPacket' h env (updateSender_RunWithin d n) q = Some r" for d q r
      using step(1) [OF that] by (simp add: same_sess_def)
    from step(2) show ?case
      by (auto simp: Let_def bind_eq_Some_conv split: if_splits option.splits sum.splits prod.splits
          dest!: step(1) RW)
  qed
  from this [OF assms] show ?thesis by simp
qed

lemma upd_sess_sel [simp]:
  "n_sessionInfo (upd_sess s f n) = n_sessionInfo n" "n_externalRoutes (upd_sess s f n) = n_externalRoutes n"
  "n_addr (upd_sess s f n) = n_addr n" "n_opcHeap (upd_sess s f n) = n_opcHeap n"
  by (simp_all add: upd_sess_def split: option.split)

lemma upd_sess_get:
  "go_get (n_sessHeap (upd_sess s f n)) s' =
     (if s' = s then map_option f (go_get (n_sessHeap n) s) else go_get (n_sessHeap n) s')"
  by (auto simp: upd_sess_def gomap_simps split: option.split)

lemma node_inv_upd:
  assumes inv: "node_inv n"
    and f: "\<And>p. go_get (n_sessHeap n) s = Some p \<Longrightarrow> sess_ok (f p)"
      "\<And>p. ps_done p \<Longrightarrow> ps_done (f p)" "\<And>p. ps_remoteAddr (f p) = ps_remoteAddr p"
  shows "node_inv (upd_sess s f n)"
proof (rule node_invI)
  show "go_wf (n_sessionInfo (upd_sess s f n))" using inv_wf [OF inv] by simp
  show "go_get (n_sessHeap (upd_sess s f n)) s' \<noteq> None" if "go_get (n_sessionInfo (upd_sess s f n)) a = Some s'" for a s'
    using inv_table [OF inv] that by (auto simp: upd_sess_get)
  show "sess_ok p" if "go_get (n_sessHeap (upd_sess s f n)) s' = Some p" for s' p
    using that f(1) inv_sess [OF inv, of s'] by (auto simp: upd_sess_get split: if_splits)
  show "go_get (n_sessionInfo (upd_sess s f n)) (ps_remoteAddr p) = Some s'"
    if live: "go_get (n_sessHeap (upd_sess s f n)) s' = Some p" "\<not> ps_done p" "ps_remoteAddr p \<noteq> []" for s' p
  proof (cases "s' = s")
    case True
    then obtain z where z: "go_get (n_sessHeap n) s = Some z" "p = f z" using live(1) by (auto simp: upd_sess_get)
    have "\<not> ps_done z" using f(2) [of z] live(2) z(2) by blast
    then show ?thesis using inv_live [OF inv z(1)] live(3) by (simp add: z(2) f(3) True)
  next
    case False
    then show ?thesis using live inv_live [OF inv, of s' p] by (simp add: upd_sess_get)
  qed
qed (use inv_routes [OF inv] in simp)

lemma sess_ok_cong:
  "ps_connectionState q = ps_connectionState p \<Longrightarrow> ps_oobRouteConn q = ps_oobRouteConn p \<Longrightarrow>
   ps_goroutines q = ps_goroutines p \<Longrightarrow> ps_cost q = ps_cost p \<Longrightarrow> sess_ok q = sess_ok p"
  by (simp add: sess_ok_def)

lemma node_inv_upd_irrelevant:
  assumes "node_inv n"
    and "\<And>p. ps_connectionState (f p) = ps_connectionState p" "\<And>p. ps_oobRouteConn (f p) = ps_oobRouteConn p"
      "\<And>p. ps_goroutines (f p) = ps_goroutines p" "\<And>p. ps_cost (f p) = ps_cost p"
      "\<And>p. ps_done p \<Longrightarrow> ps_done (f p)" "\<And>p. ps_remoteAddr (f p) = ps_remoteAddr p"
  shows "node_inv (upd_sess s f n)"
proof (rule node_inv_upd [OF assms(1)])
  show "sess_ok (f p)" if "go_get (n_sessHeap n) s = Some p" for p
    using inv_sess [OF assms(1) that] sess_ok_cong [of "f p" p, OF assms(2-5)] by simp
qed (use assms(6,7) in simp_all)

lemma cancel_inv: "node_inv n \<Longrightarrow> node_inv (cancel_session s n)"
  unfolding cancel_session_def by (rule node_inv_upd_irrelevant) simp_all

lemma NewPacketConn_same: "same_sess n (fst (NewPacketConn n f a p))"
  by (simp add: NewPacketConn_def Let_def same_sess_def)

lemma sendInit_inv: "node_inv n \<Longrightarrow> node_inv (sendInit j env s p n)"
  by (auto simp: sendInit_def Let_def split: sum.split option.split
      intro!: node_inv_upd_irrelevant)

lemma enter_inv: "node_inv n \<Longrightarrow> node_inv (initSelect_enter j env kcp s p n)"
proof -
  assume "node_inv n"
  then have a: "node_inv (sendInit j env s p n)" by (rule sendInit_inv)
  let ?m = "sendInit j env s p n"
  obtain m opc where m: "NewPacketConn ?m SendFuncRoutingOOB (n_addr ?m) 0 = (m, opc)" by fastforce
  have "same_sess ?m m" using NewPacketConn_same [of ?m] m by (metis fst_conv)
  then have "node_inv m" using a by (simp add: node_inv_same)
  then have b: "node_inv (upd_sess s (\<lambda>p. p\<lparr>ps_oobRoutePacketConn := Some opc\<rparr>) m)"
    by (rule node_inv_upd_irrelevant) simp_all
  then have "node_inv (upd_sess s (\<lambda>p. p\<lparr>ps_oobRouteListener := Some li\<rparr>)
      (upd_sess s (\<lambda>p. p\<lparr>ps_oobRoutePacketConn := Some opc\<rparr>) m))" for li
    by (rule node_inv_upd_irrelevant) simp_all
  then show ?thesis
    using a b cancel_inv [OF b] \<open>node_inv n\<close> by (simp add: initSelect_enter_def Let_def m split: sum.split)
qed

lemma start_attempt_heap:
  assumes "go_get (n_sessHeap n) s = Some p"
  shows "go_get (n_sessHeap (start_attempt now s p peer n)) s' =
    (if s' = s then Some (p\<lparr>ps_connectionState := connectionStateConnecting, ps_remoteAddr := peer,
       ps_attempts := ps_attempts p + 1, ps_goroutines := ps_goroutines p @ GRouteTimer (ps_attempts p) #
         (if ps_isServer p then (if ps_oobRouteListener p \<noteq> None then [GAccept (ps_attempts p) peer] else [])
          else [GDial (ps_attempts p) peer now])\<rparr>)
     else if go_get (n_sessionInfo n) peer = Some s'
     then map_option (\<lambda>q. q\<lparr>ps_done := True\<rparr>) (go_get (n_sessHeap n) s')
     else go_get (n_sessHeap n) s')"
    and "n_sessionInfo (start_attempt now s p peer n) = go_set (n_sessionInfo n) peer s"
    and "n_externalRoutes (start_attempt now s p peer n) = n_externalRoutes n"
  using assms
  by (auto simp: start_attempt_def Let_def upd_sess_get cancel_session_def split: option.split)

lemma start_attempt_inv:
  assumes inv: "node_inv n" and p: "go_get (n_sessHeap n) s = Some p" "ps_connectionState p = connectionStateInit"
  shows "node_inv (start_attempt now s p peer n)"
proof (rule node_invI)
  let ?n = "start_attempt now s p peer n"
  note h = start_attempt_heap [OF p(1), of now peer]
  show "go_wf (n_sessionInfo ?n)" using inv_wf [OF inv] by (simp add: h gomap_simps)
  show "go_get (n_sessHeap ?n) s' \<noteq> None" if "go_get (n_sessionInfo ?n) a = Some s'" for a s'
    using that inv_table [OF inv, of a s'] by (auto simp: h gomap_simps split: if_splits)
  show "sess_ok q" if "go_get (n_sessHeap ?n) s' = Some q" for s' q
  proof (cases "s' = s")
    case True
    have "sess_ok p" by (rule inv_sess [OF inv p(1)])
    then show ?thesis
      using that p(2) unfolding h True by (auto simp: sess_ok_def connectionState_defs is_conn_goroutine_def)
  next
    case False
    then show ?thesis
      using that inv_sess [OF inv, of s'] unfolding h by (auto simp: sess_ok_def split: if_splits)
  qed
  show "go_get (n_sessionInfo ?n) (ps_remoteAddr q) = Some s'"
    if "go_get (n_sessHeap ?n) s' = Some q" "\<not> ps_done q" "ps_remoteAddr q \<noteq> []" for s' q
    using that inv_live [OF inv, of s'] by (auto simp: h gomap_simps split: if_splits)
qed (use inv_routes [OF inv] in \<open>simp add: start_attempt_heap [OF p(1)]\<close>)

text \<open>Two updates of one session are one.\<close>

lemma go_set_set: "go_set (go_set m k v) k v' = go_set m k v'"
  by (induction m) auto

lemma upd_sess_upd_sess: "upd_sess s f (upd_sess s g n) = upd_sess s (\<lambda>p. f (g p)) n"
  by (simp add: upd_sess_def gomap_simps go_set_set split: option.split)

lemma conn_goroutine_gone:
  assumes "sess_ok p" "g \<in> set (ps_goroutines p)" "is_conn_goroutine g"
  shows "filter is_conn_goroutine (remove1 g (ps_goroutines p)) = []"
    and "ps_connectionState p = connectionStateConnecting"
proof -
  have g: "g \<in> set (filter is_conn_goroutine (ps_goroutines p))" using assms by simp
  then have "length (filter is_conn_goroutine (ps_goroutines p)) \<noteq> 0" by (metis length_0_conv empty_iff empty_set)
  then have l: "length (filter is_conn_goroutine (ps_goroutines p)) = 1" and "ps_connectionState p = connectionStateConnecting"
    using assms(1) by (auto simp: sess_ok_def le_Suc_eq split: if_splits)
  have "length (remove1 g (filter is_conn_goroutine (ps_goroutines p))) = 0"
    using l g by (simp add: length_remove1)
  then show "filter is_conn_goroutine (remove1 g (ps_goroutines p)) = []" using assms(3) by (simp add: filter_remove1)
  show "ps_connectionState p = connectionStateConnecting" by fact
qed

text \<open>The end of an attempt, with the session back in init state or connected.\<close>

lemma attempt_fails_inv:
  assumes inv: "node_inv n" and p: "go_get (n_sessHeap n) s = Some p" and g: "g \<in> set (ps_goroutines p)" "is_conn_goroutine g"
    and f: "\<And>q. ps_connectionState (f q) = connectionStateInit" "\<And>q. ps_cost (f q) = ps_cost q"
      "\<And>q. ps_goroutines (f q) = remove1 g (ps_goroutines q)"
      "\<And>q. ps_done q \<Longrightarrow> ps_done (f q)" "\<And>q. ps_remoteAddr (f q) = ps_remoteAddr q"
  shows "node_inv (upd_sess s f n)"
proof (rule node_inv_upd [OF inv])
  fix q assume "go_get (n_sessHeap n) s = Some q"
  then have q: "q = p" using p by simp
  have ok: "sess_ok p" using inv_sess [OF inv p] .
  then show "sess_ok (f q)"
    using conn_goroutine_gone(1) [OF ok g] unfolding q sess_ok_def f by (simp add: connectionState_defs)
qed (simp_all add: f)

lemma attempt_succeeds_inv:
  assumes inv: "node_inv n" and p: "go_get (n_sessHeap n) s = Some p" and g: "g \<in> set (ps_goroutines p)" "is_conn_goroutine g"
    and f: "\<And>q. ps_cost (f q) = ps_cost q" "\<And>q. ps_goroutines (f q) = remove1 g (ps_goroutines q)"
      "\<And>q. ps_done q \<Longrightarrow> ps_done (f q)" "\<And>q. ps_remoteAddr (f q) = ps_remoteAddr q"
  shows "node_inv (finalizeConn now s k orc (upd_sess s f n))"
proof -
  have "node_inv (upd_sess s (\<lambda>q. (f q)\<lparr>ps_oobRouteConn := Some orc, ps_connectionState := connectionStateConnected,
          ps_connStart := now, ps_goroutines := remove1 (GRouteTimer k) (ps_goroutines (f q)) @ [GRouteReader]\<rparr>) n)"
  proof (rule node_inv_upd [OF inv])
    fix q assume "go_get (n_sessHeap n) s = Some q"
    then have q: "q = p" using p by simp
    have ok: "sess_ok p" using inv_sess [OF inv p] .
    have "filter is_conn_goroutine (remove1 (GRouteTimer k) (remove1 g (ps_goroutines p)) @ [GRouteReader]) = []"
      using conn_goroutine_gone(1) [OF ok g] by (simp add: filter_remove1 is_conn_goroutine_def)
    then show "sess_ok ((f q)\<lparr>ps_oobRouteConn := Some orc, ps_connectionState := connectionStateConnected,
          ps_connStart := now, ps_goroutines := remove1 (GRouteTimer k) (ps_goroutines (f q)) @ [GRouteReader]\<rparr>)"
      using ok unfolding q sess_ok_def by (simp add: connectionState_defs f)
  qed (simp_all add: f)
  then show ?thesis
    by (simp add: finalizeConn_def upd_sess_upd_sess)
qed

lemma accept_inv:
  assumes inv: "node_inv n" and p: "go_get (n_sessHeap n) s = Some p" and g: "GAccept k peer \<in> set (ps_goroutines p)"
  shows "node_inv (accept_result now s p k peer res n)"
proof -
  have c: "is_conn_goroutine (GAccept k peer)" by (simp add: is_conn_goroutine_def)
  have "node_inv (upd_sess s (\<lambda>q. drop_goroutine (GAccept k peer) q\<lparr>ps_connectionState := connectionStateInit\<rparr>) n)"
    "node_inv (upd_sess s (\<lambda>q. (drop_goroutine (GAccept k peer) q)\<lparr>ps_done := True, ps_connectionState := connectionStateInit\<rparr>) n)"
    by (rule attempt_fails_inv [OF inv p g c]; simp add: drop_goroutine_def)+
  moreover have "node_inv (finalizeConn now s k orc (upd_sess s (drop_goroutine (GAccept k peer)) n))" for orc
    by (rule attempt_succeeds_inv [OF inv p g c]) (simp_all add: drop_goroutine_def)
  ultimately show ?thesis
    by (simp add: accept_result_def Let_def cancel_session_def upd_sess_upd_sess split: sum.split)
qed

lemma dial_inv:
  assumes inv: "node_inv n" and p: "go_get (n_sessHeap n) s = Some p" and g: "GDial k peer t \<in> set (ps_goroutines p)"
  shows "node_inv (dial_result now later ctxDone s k peer t kcp n)"
proof -
  have c: "is_conn_goroutine (GDial k peer t)" by (simp add: is_conn_goroutine_def)
  obtain m opc where m: "NewPacketConn n SendFuncRoutingOOB (n_addr n) 0 = (m, opc)" by fastforce
  have same: "same_sess n m" using NewPacketConn_same [of n] m by (metis fst_conv)
  then have inv': "node_inv m" and p': "go_get (n_sessHeap m) s = Some p"
    using inv p by (simp_all add: node_inv_same) (simp add: same_sess_def)
  have "node_inv (upd_sess s (\<lambda>p. drop_goroutine (GDial k peer t) (p\<lparr>ps_connectionState := connectionStateInit\<rparr>)) m)"
    by (rule attempt_fails_inv [OF inv' p' g c]) (simp_all add: drop_goroutine_def)
  moreover have "node_inv (finalizeConn now s k orc
      (upd_sess s (\<lambda>p. drop_goroutine (GDial k peer t) (p\<lparr>ps_oobRoutePacketConn := Some opc\<rparr>)) m))" for orc
    by (rule attempt_succeeds_inv [OF inv' p' g c]) (simp_all add: drop_goroutine_def)
  ultimately show ?thesis
    using inv' by (simp add: dial_result_def m split: sum.split)
qed

text \<open>Ends of goroutines that are not attempts.\<close>

lemma drop_inv:
  assumes "node_inv n" "\<not> is_conn_goroutine g"
  shows "node_inv (upd_sess s (drop_goroutine g) n)"
proof (rule node_inv_upd [OF assms(1)])
  fix p assume "go_get (n_sessHeap n) s = Some p"
  from inv_sess [OF assms(1) this] show "sess_ok (drop_goroutine g p)"
    using assms(2) by (simp add: sess_ok_def drop_goroutine_def filter_remove1 remove1_idem)
qed (simp_all add: drop_goroutine_def)

lemma timer_inv: "node_inv n \<Longrightarrow> node_inv (upd_sess s (drop_goroutine (GRouteTimer k)) n)"
  "node_inv n \<Longrightarrow> node_inv (route_timer_fires s k n)"
  "node_inv n \<Longrightarrow> node_inv (upd_sess s (drop_goroutine GRouteReader) n)"
  by (simp_all add: route_timer_fires_def cancel_inv drop_inv is_conn_goroutine_def)

text \<open>Received messages.\<close>

lemma opc_offer_same: "same_sess n (opc_offer c msg n)"
  by (simp add: opc_offer_def same_sess_def split: option.split)

lemma SendOOB_same: "same_sess n (fst (SendOOB n m))"
  by (simp add: SendOOB_def Let_def opc_offer_same split: option.split sum.split)

lemma recv_same: "same_sess n (keepalive_reply j p n)" "same_sess n (route_oob_recv p m n)"
  by (simp_all add: keepalive_reply_def route_oob_recv_def IncomingPacket_def opc_offer_same split: sum.split option.split)

lemma initSelect_inv:
  assumes inv: "node_inv n" and p: "go_get (n_sessHeap n) s = Some p"
  shows "node_inv (fst (initSelect_recv j now s p data n))"
  using inv start_attempt_inv [OF inv p] node_inv_same [OF recv_same(1)] node_inv_same [OF recv_same(2)]
  by (simp add: initSelect_recv_def split: sum.split any_msg.split)

lemma leave_connected_inv:
  assumes inv: "node_inv n" and p: "go_get (n_sessHeap n) s = Some p" "ps_connectionState p = connectionStateConnected"
  shows "node_inv (upd_sess s (\<lambda>p. p\<lparr>ps_connectionState := connectionStateInit\<rparr>) n)"
proof (rule node_inv_upd [OF inv])
  fix q assume "go_get (n_sessHeap n) s = Some q"
  then show "sess_ok (q\<lparr>ps_connectionState := connectionStateInit\<rparr>)"
    using inv_sess [OF inv p(1)] p by (simp add: sess_ok_def connectionState_defs)
qed simp_all

lemma mainSelect_inv:
  assumes inv: "node_inv n" and p: "go_get (n_sessHeap n) s = Some p" "ps_connectionState p = connectionStateConnected"
    and r: "mainSelect_recv j h fenv now s p data n = Some (n', act)"
  shows "node_inv n'"
proof (cases "Msg_Unmarshal j data")
  case (Inl err)
  then show ?thesis using inv r by (simp add: mainSelect_recv_def)
next
  case (Inr msg)
  note r' = r [unfolded mainSelect_recv_def Inr sum.case]
  show ?thesis
  proof (cases msg)
    case DataMsg
    then obtain err where "SendPacket h fenv n data = Some (n', err)" using r' by auto
    then show ?thesis using inv node_inv_same [OF SendPacket_same] by blast
  next
    case InitMsg
    then show ?thesis using r' inv leave_connected_inv [OF inv p] by (auto split: if_splits)
  qed (use r' inv node_inv_same [OF SendOOB_same] node_inv_same [OF recv_same(1)] node_inv_same [OF recv_same(2)] in auto)
qed

lemma protoLoop_inv:
  assumes inv: "node_inv n" and p: "go_get (n_sessHeap n) s = Some p"
    and c: "connected \<longrightarrow> ps_connectionState p = connectionStateConnected"
    and r: "protoLoop_recv j h fenv now connected s p data n = Some n'"
  shows "node_inv n'"
proof -
  obtain m act where m: "(if connected then mainSelect_recv j h fenv now s p data n
      else Some (initSelect_recv j now s p data n)) = Some (m, act)"
      and n': "n' = (if act then upd_sess s (\<lambda>p. p\<lparr>ps_lastActivity := now\<rparr>) m else m)"
    using r unfolding protoLoop_recv_def by auto
  have "node_inv m"
  proof (cases connected)
    case True
    then show ?thesis using mainSelect_inv [OF inv p] c m by simp
  next
    case False
    then show ?thesis using initSelect_inv [OF inv p, of j now data] m by simp
  qed
  then have "node_inv (upd_sess s (\<lambda>p. p\<lparr>ps_lastActivity := now\<rparr>) m)" by (rule node_inv_upd_irrelevant) simp_all
  then show ?thesis using n' \<open>node_inv m\<close> by simp
qed

lemma tick_inv: "node_inv n \<Longrightarrow> node_inv (keepalive_tick j now s p n)"
  by (simp add: keepalive_tick_def Let_def cancel_inv split: sum.split)

text \<open>Routing updates.\<close>

lemma flood_same: "same_sess n (floodRoutingUpdate j ru ex n)"
  unfolding floodRoutingUpdate_def
  by (rule same_sess_fold) (simp add: flood_session_def split: option.split sum.split prod.split)

lemma handle_same: "same_sess n (fst (handleRoutingUpdate now ru n))"
  by (simp add: handleRoutingUpdate_def Let_def same_sess_def)

lemma router_field_same: "same_sess n (n\<lparr>n_router := r\<rparr>)" "same_sess n (n\<lparr>n_externalNames := en\<rparr>)"
    "same_sess n (n\<lparr>n_sequence := q\<rparr>)"
  by (simp_all add: same_sess_def)

lemma reader_inv:
  assumes inv: "node_inv n" and r: "routeReader_step uj now s p line n = Inr (n', go)"
  shows "node_inv n'"
proof (cases "ps_done p \<or> (case (case line of Inl err \<Rightarrow> Inl err | Inr msgBytes \<Rightarrow> dec_update uj msgBytes) of
     Inl err \<Rightarrow> True | Inr _ \<Rightarrow> False)")
  case True
  then have "n' = cancel_session s n" using r by (auto simp: routeReader_step_def split: sum.splits)
  then show ?thesis using cancel_inv [OF inv] by simp
next
  case False
  then obtain msg where msg: "\<not> ps_done p" "(case line of Inl err \<Rightarrow> Inl err | Inr b \<Rightarrow> dec_update uj b) = Inr msg"
    by (auto split: sum.splits)
  let ?m = "fst (handleRoutingUpdate now msg n)"
  have s1: "same_sess n ?m" by (rule handle_same)
  show ?thesis
  proof (cases "snd (handleRoutingUpdate now msg n)")
    case False
    then have "n' = ?m" using r unfolding routeReader_step_def msg(2) by (simp add: msg(1) Let_def case_prod_beta)
    then show ?thesis using inv node_inv_same [OF s1] by simp
  next
    case True
    then obtain rt en where "n' = floodRoutingUpdate uj msg (Some (ps_remoteAddr p)) (?m\<lparr>n_router := rt, n_externalNames := en\<rparr>)"
      using r unfolding routeReader_step_def msg(2)
      by (auto simp: msg(1) Let_def case_prod_beta split: sum.splits)
    moreover have "same_sess ?m (?m\<lparr>n_router := rt, n_externalNames := en\<rparr>)" by (simp add: same_sess_def)
    ultimately have "same_sess n n'" using s1 flood_same same_sess_trans by metis
    then show ?thesis using inv by (simp add: node_inv_same)
  qed
qed

lemma update_same:
  assumes "updateSender_run uj n = Inr n'"
  shows "same_sess n n'"
proof -
  obtain q r ru where "n' = floodRoutingUpdate uj ru None (n\<lparr>n_sequence := q, n_router := r\<rparr>)"
    using assms by (auto simp: updateSender_run_def generateRoutingUpdate_def Let_def split: sum.splits)
  moreover have "same_sess n (n\<lparr>n_sequence := q, n_router := r\<rparr>)" by (simp add: same_sess_def)
  ultimately show ?thesis using flood_same same_sess_trans by metis
qed

lemma dead_same: "same_sess n (monitorDeadNodes_round now n)"
  unfolding monitorDeadNodes_round_def by (rule same_sess_fold) (simp add: same_sess_def split: prod.split)

lemma router_recv_same: "same_sess n (routerUpdate_recv n)"
  unfolding routerUpdate_recv_def by (rule same_sess_fold) simp

text \<open>Starting and ending a session.\<close>

lemma one_positive: "cost_positive f32_one"
  unfolding cost_positive_def by code_simp

lemma start_heap:
  "go_get (n_sessHeap (fst (RunProtocol_start cost conn srv n))) s =
     (if s = new_ptr (n_sessHeap n)
      then Some \<lparr>ps_done = False, ps_conn = conn, ps_isServer = srv,
        ps_cost = (if f32_le cost f32_zero then f32_one else cost), ps_remoteAddr = [],
        ps_connectionState = connectionStateInit, ps_connStart = 0, ps_lastInit = 0,
        ps_oobRoutePacketConn = None, ps_oobRouteListener = None, ps_oobRouteConn = None,
        ps_lastActivity = 0, ps_attempts = 0, ps_goroutines = []\<rparr>
      else go_get (n_sessHeap n) s)"
  "n_sessionInfo (fst (RunProtocol_start cost conn srv n)) = n_sessionInfo n"
  "n_externalRoutes (fst (RunProtocol_start cost conn srv n)) = n_externalRoutes n"
  by (simp_all add: RunProtocol_start_def Let_def gomap_simps)

lemma start_inv:
  assumes inv: "node_inv n"
  shows "node_inv (fst (RunProtocol_start cost conn srv n))"
proof (rule node_invI)
  show "sess_ok p" if "go_get (n_sessHeap (fst (RunProtocol_start cost conn srv n))) s = Some p" for s p
    using that inv_sess [OF inv, of s] one_positive
    by (auto simp: start_heap sess_ok_def connectionState_defs cost_positive_def split: if_splits)
  show "go_get (n_sessionInfo (fst (RunProtocol_start cost conn srv n))) (ps_remoteAddr p) = Some s"
    if "go_get (n_sessHeap (fst (RunProtocol_start cost conn srv n))) s = Some p" "\<not> ps_done p" "ps_remoteAddr p \<noteq> []" for s p
    using that inv_live [OF inv, of s] by (auto simp: start_heap split: if_splits)
qed (use inv_wf [OF inv] inv_table [OF inv] inv_routes [OF inv] in \<open>auto simp: start_heap split: if_splits\<close>)

lemma fold_del_get:
  "go_get (fold (\<lambda>(k, v) si. if v = s then go_del si k else si) xs m) a =
     (if (a, s) \<in> set xs then None else go_get m a)"
  by (induction xs arbitrary: m) (auto simp: gomap_simps split: if_splits)

lemma fold_del_wf: "go_wf m \<Longrightarrow> go_wf (fold (\<lambda>(k, v) si. if v = s then go_del si k else si) xs m)"
  by (induction xs arbitrary: m) (auto simp: gomap_simps)

lemma end_get:
  assumes "go_wf (n_sessionInfo n)"
  shows "go_get (n_sessionInfo (RunProtocol_end s n)) a =
     (if go_get (n_sessionInfo n) a = Some s then None else go_get (n_sessionInfo n) a)"
  by (simp add: RunProtocol_end_def fold_del_get go_get_Some_iff [OF assms])

lemma end_sel: "n_sessHeap (RunProtocol_end s n) = n_sessHeap n"
    "n_externalRoutes (RunProtocol_end s n) = n_externalRoutes n"
  by (simp_all add: RunProtocol_end_def)

lemma end_inv:
  assumes inv: "node_inv n" and p: "go_get (n_sessHeap n) s = Some p" "ps_done p"
  shows "node_inv (RunProtocol_end s n)"
proof (rule node_invI)
  note wf = inv_wf [OF inv]
  show "go_wf (n_sessionInfo (RunProtocol_end s n))" using wf by (simp add: RunProtocol_end_def fold_del_wf)
  show "go_get (n_sessHeap (RunProtocol_end s n)) s' \<noteq> None" if "go_get (n_sessionInfo (RunProtocol_end s n)) a = Some s'" for a s'
    using that inv_table [OF inv, of a s'] by (auto simp: end_get [OF wf] end_sel split: if_splits)
  show "go_get (n_sessionInfo (RunProtocol_end s n)) (ps_remoteAddr q) = Some s'"
    if "go_get (n_sessHeap (RunProtocol_end s n)) s' = Some q" "\<not> ps_done q" "ps_remoteAddr q \<noteq> []" for s' q
  proof -
    have "s' \<noteq> s" using that p by (auto simp: end_sel)
    then show ?thesis using that inv_live [OF inv, of s' q] by (simp add: end_get [OF wf] end_sel)
  qed
qed (use inv_sess [OF inv] inv_routes [OF inv] in \<open>auto simp: end_sel\<close>)

text \<open>Administration.\<close>

lemma route_inv:
  assumes "node_inv n"
  shows "node_inv (AddExternalRoute n name dest cost opf)" "node_inv (DelExternalRoute n name)"
proof -
  have "cost_positive (if f32_le cost f32_zero then f32_one else cost)"
    using one_positive by (simp add: cost_positive_def)
  then show "node_inv (AddExternalRoute n name dest cost opf)"
    using assms unfolding AddExternalRoute_def Let_def node_inv_effect
    by (auto simp: node_inv_def routes_ok_def gomap_simps split: if_splits)
  show "node_inv (DelExternalRoute n name)"
    using assms unfolding DelExternalRoute_def node_inv_effect
    by (auto simp: node_inv_def routes_ok_def gomap_simps split: if_splits)
qed

lemma admin_same: "same_sess n (AddExternalName n name a)" "same_sess n (DelExternalName n name)"
    "same_sess n (UpdateConfig n cfg sig version)" "same_sess n (opc_Close c n)"
  by (simp_all add: same_sess_def AddExternalName_def DelExternalName_def UpdateConfig_def opc_Close_def upd_opc_def
      Let_def split: option.split)

lemma NewOOBPacketConn_same: "NewOOBPacketConn rnd n port = Some (Inr (n', c)) \<Longrightarrow> same_sess n n'"
  by (auto simp: NewOOBPacketConn_def same_sess_def Let_def bind_eq_Some_conv split: if_splits)

lemmas step_same = SendPacket_same NewOOBPacketConn_same update_same
lemmas step_same_inv = node_inv_same [OF admin_same(1)] node_inv_same [OF admin_same(2)] node_inv_same [OF admin_same(3)]
  node_inv_same [OF admin_same(4)] node_inv_same [OF dead_same] node_inv_same [OF router_recv_same]
  node_inv_same [OF router_field_same(1)]

lemma step_inv:
  assumes "sess_step pq j uj h rx n n'" "node_inv n"
  shows "node_inv n'"
  using assms
proof (induction rule: sess_step.induct)
  case (st_reader n s p line now n' go)
  then show ?case using reader_inv timer_inv(3) by (cases go) auto
next
  case (st_stack fenv ctxDone packet n n' go)
  then show ?case using node_inv_same [OF SendPacket_same] by (auto simp: netStackReadLoop_step_def)
next
  case (st_read n ctxDone res s)
  then show ?case by (simp add: backendReadLoop_step_def cancel_inv split: sum.split)
next
  case (st_send_oob n m n' err)
  then show ?case using node_inv_same [OF SendOOB_same, of n m] by simp
qed (blast intro: start_inv enter_inv protoLoop_inv accept_inv dial_inv timer_inv tick_inv cancel_inv end_inv route_inv
    step_same_inv [THEN iffD2] step_same node_inv_same [THEN iffD2])+

lemma New_inv: "netopus_New addr name opts stack now = Inr n \<Longrightarrow> node_inv n"
  by (auto simp: netopus_New_def Let_def node_inv_def routes_ok_def split: if_splits sum.splits)

lemma reachable_inv: "(sess_step pq j uj h rx)\<^sup>*\<^sup>* n n' \<Longrightarrow> node_inv n \<Longrightarrow> node_inv n'"
  by (induction rule: rtranclp_induct) (auto intro: step_inv)

section \<open>Properties of the sessions of a node\<close>

text \<open>A codec and a node for the examples.\<close>

definition ex_json :: json_codec where
  "ex_json = \<lparr>json_enc_init = Inr, json_dec_init = Inr, json_enc_empty = Inr [], json_dec_empty = \<lambda>_. Inr ()\<rparr>"

definition ex_new :: "byte \<Rightarrow> netopus" where
  "ex_new i = (case netopus_New (ex_ip i) ''x'' [] (Inr ()) 1 of Inr n \<Rightarrow> n | Inl _ \<Rightarrow> ex_node)"

definition ex_started :: "byte \<Rightarrow> bool \<Rightarrow> netopus" where
  "ex_started i srv = fst (RunProtocol_start f32_one 7 srv (ex_new i))"

definition ex_session1 :: "bool \<Rightarrow> protoSession" where
  "ex_session1 srv =
     \<lparr>ps_done = False, ps_conn = 7, ps_isServer = srv, ps_cost = f32_one, ps_remoteAddr = [],
      ps_connectionState = connectionStateInit, ps_connStart = 0, ps_lastInit = 0,
      ps_oobRoutePacketConn = None, ps_oobRouteListener = None, ps_oobRouteConn = None,
      ps_lastActivity = 0, ps_attempts = 0, ps_goroutines = []\<rparr>"

lemma length_ex_ip [simp]: "length (ex_ip i) = 16"
  by (simp add: ex_ip_def)

lemma ex_new: "netopus_New (ex_ip i) ''x'' [] (Inr ()) 1 = Inr (ex_new i)"
  by (simp add: ex_new_def netopus_New_def Let_def)

lemma ex_new_sel [simp]: "n_sessHeap (ex_new i) = []" "n_sessionInfo (ex_new i) = []" "n_addr (ex_new i) = ex_ip i"
    "n_opcHeap (ex_new i) = []"
  by (simp_all add: ex_new_def netopus_New_def Let_def)

lemma ex_started_session: "n_sessHeap (ex_started i srv) = [(1, ex_session1 srv)]"
proof -
  have "\<not> f32_le f32_one f32_zero" by code_simp
  then show ?thesis by (simp add: ex_started_def RunProtocol_start_def Let_def new_ptr_def ex_session1_def)
qed

lemma ex_started_sel [simp]: "n_sessionInfo (ex_started i srv) = []" "n_addr (ex_started i srv) = ex_ip i"
    "n_opcHeap (ex_started i srv) = []"
  by (simp_all add: ex_started_def RunProtocol_start_def Let_def)

lemma ex_started_reachable: "(sess_step pq j uj h rx)\<^sup>*\<^sup>* (ex_new i) (ex_started i srv)"
  unfolding ex_started_def by (rule r_into_rtranclp) (rule st_start)

text \<open>
  C2. In every state that a new node reaches, in any interleaving of its sessions, timers, routing
  updates and administration: every session is in one of the three connection states, has a routing
  stream when it is connected and at most one attempt to set one up, which runs only while it is
  connecting; and of the sessions that have not been cancelled at most one belongs to any peer, the
  one in the session table.
\<close>

theorem session_invariant:
  assumes "netopus_New addr name opts stack now = Inr n0" "(sess_step pq j uj h rx)\<^sup>*\<^sup>* n0 n"
    and "go_get (n_sessHeap n) s = Some p"
  shows "sess_ok p \<and>
    (\<not> ps_done p \<longrightarrow> ps_remoteAddr p \<noteq> [] \<longrightarrow>
       go_get (n_sessionInfo n) (ps_remoteAddr p) = Some s \<and>
       (\<forall>s' p'. go_get (n_sessHeap n) s' = Some p' \<longrightarrow> \<not> ps_done p' \<longrightarrow>
          ps_remoteAddr p' = ps_remoteAddr p \<longrightarrow> s' = s))"
proof -
  have inv: "node_inv n" using reachable_inv [OF assms(2)] New_inv [OF assms(1)] .
  show ?thesis using inv_sess [OF inv assms(3)] inv_live [OF inv assms(3)] inv_live [OF inv] by fastforce
qed

theorem session_invariant_witness: "sess_ok (ex_session1 True)"
proof -
  have "go_get (n_sessHeap (ex_started 1 True)) 1 = Some (ex_session1 True)" by (simp add: ex_started_session)
  from session_invariant [OF ex_new [of 1] ex_started_reachable this] show ?thesis by blast
qed

text \<open>Costs that a node advertises come from its sessions and external routes.\<close>

lemma own_conns_from:
  assumes "go_get (own_conns n) k = Some c"
  shows "(\<exists>p\<in>set (connected_sessions n). ps_cost p = c) \<or> (\<exists>(_, r)\<in>set (n_externalRoutes n). er_cost r = c)"
proof -
  have "(k, c) \<in> set (map (\<lambda>p. (NewSubnet (ps_remoteAddr p) (CIDRMask 128 128), ps_cost p)) (connected_sessions n)
      @ map (\<lambda>(_, r). (er_dest r, er_cost r)) (n_externalRoutes n))"
    using assms map_of_SomeD unfolding own_conns_entries gm.get_fold_put
    by (fastforce split: option.splits)
  then show ?thesis by force
qed

lemma connected_in_heap: "p \<in> set (connected_sessions n) \<Longrightarrow> \<exists>s. go_get (n_sessHeap n) s = Some p"
  by (auto simp: connected_sessions_def map_filter_def split: option.splits)

text \<open>
  Every cost that a node advertises, in any state it reaches, fails the test \<open>cost <= 0\<close>: sessions
  and external routes that are given such a cost get the cost 1 instead.
\<close>

theorem advertised_costs_positive:
  assumes "netopus_New addr name opts stack now = Inr n0" "(sess_step pq j uj h rx)\<^sup>*\<^sup>* n0 n"
    and "go_get (own_conns n) k = Some c"
  shows "\<not> f32_le c f32_zero"
proof -
  have inv: "node_inv n" using reachable_inv [OF assms(2)] New_inv [OF assms(1)] .
  from own_conns_from [OF assms(3)] have "cost_positive c"
  proof
    assume "\<exists>p\<in>set (connected_sessions n). ps_cost p = c"
    then obtain s p where "go_get (n_sessHeap n) s = Some p" "ps_cost p = c" using connected_in_heap by blast
    then show ?thesis using inv_sess [OF inv] by (auto simp: sess_ok_def)
  next
    assume "\<exists>(_, r)\<in>set (n_externalRoutes n). er_cost r = c"
    then obtain k r where "(k, r) \<in> set (n_externalRoutes n)" "er_cost r = c" by auto
    then show ?thesis using inv_routes [OF inv] go_get_Some_iff [of "n_externalRoutes n"] by (auto simp: routes_ok_def)
  qed
  then show ?thesis by (simp add: cost_positive_def)
qed

theorem advertised_costs_positive_witness: "\<not> f32_le f32_one f32_zero"
proof -
  let ?n = "AddExternalRoute (ex_new 1) ''r'' ex_subnet f32_zero None"
  have "f32_le f32_zero f32_zero" by code_simp
  then have c: "go_get (own_conns ?n) ex_subnet = Some f32_one"
    by (simp add: own_conns_def AddExternalRoute_def Let_def ex_new_def netopus_New_def Let_def)
  have "(sess_step list_pq ex_json ex_codec rfc_ipv6 UNIV)\<^sup>*\<^sup>* (ex_new 1) ?n" by (rule r_into_rtranclp) (rule st_add_route)
  from advertised_costs_positive [OF ex_new this c] show ?thesis .
qed

text \<open>
  The keepalive tick closes a session exactly when more than seven seconds have passed since
  the last activity, writes one keepalive message when more than three have, and otherwise does
  nothing. A session starts with the zero time as its last activity, so its first tick closes it
  unless a message has arrived within the first second.
\<close>

theorem keepalive_tick_behaviour:
  assumes "KeepaliveMsg_Marshal j = Inr ka"
  shows "keepalive_tick j now s p n =
      (if now - ps_lastActivity p > 7 * second then cancel_session s n
       else if now - ps_lastActivity p > 3 * second then emit (ConnWrite (ps_conn p) ka) n
       else n) \<and>
    (now > 7 * second \<longrightarrow>
       (case RunProtocol_start cost conn srv n of (n', s') \<Rightarrow>
          \<exists>q. go_get (n_sessHeap n') s' = Some q \<and>
            (\<exists>q'. go_get (n_sessHeap (keepalive_tick j now s' q n')) s' = Some q' \<and> ps_done q')))"
proof -
  have "snd (RunProtocol_start cost conn srv n) = new_ptr (n_sessHeap n)" by (simp add: RunProtocol_start_def Let_def)
  then show ?thesis
    using assms
    by (auto simp: keepalive_tick_def Let_def cancel_session_def upd_sess_get case_prod_beta start_heap)
qed

theorem keepalive_tick_behaviour_witness:
  "keepalive_tick ex_json (5 * second) 0 ex_session ex_node = emit (ConnWrite 7 [4]) ex_node"
proof -
  have "KeepaliveMsg_Marshal ex_json = Inr [4]"
    by (simp add: KeepaliveMsg_Marshal_def marshalMsg_def ex_json_def MsgTypeKeepalive_def)
  from keepalive_tick_behaviour [OF this, of "5 * second" 0 ex_session ex_node] show ?thesis
    by (simp add: ex_session_def)
qed

text \<open>
  The end of \<open>RunProtocol\<close> removes exactly the table entries of its own session, so a session
  that has replaced it for the same peer stays, and schedules a routing update.
\<close>

theorem session_end_unregisters:
  assumes "netopus_New addr name opts stack now = Inr n0" "(sess_step pq j uj h rx)\<^sup>*\<^sup>* n0 n"
  shows "go_get (n_sessionInfo (RunProtocol_end s n)) a =
      (if go_get (n_sessionInfo n) a = Some s then None else go_get (n_sessionInfo n) a) \<and>
    n_updateSender (RunProtocol_end s n) = n_updateSender n @ [100 * millisecond]"
proof -
  have "node_inv n" using reachable_inv [OF assms(2)] New_inv [OF assms(1)] .
  then show ?thesis using end_get [OF inv_wf] by (simp add: RunProtocol_end_def)
qed

theorem session_end_unregisters_witness:
  "go_get (n_sessionInfo (RunProtocol_end 1 (ex_started 1 True))) (ex_ip 2) = None"
  using session_end_unregisters [OF ex_new [of 1] ex_started_reachable [of list_pq ex_json ex_codec rfc_ipv6 UNIV 1 True], of 1 "ex_ip 2"] by simp

section \<open>Bringing up a session\<close>

text \<open>
  One side of a session start as a sequence of steps: the session enters \<open>initSelect\<close>, receives
  \<open>data\<close>, and the routing stream \<open>orc\<close> is accepted or dialled.
\<close>

definition attempt_outcome :: "time \<Rightarrow> nat \<Rightarrow> protoSession \<Rightarrow> nat \<Rightarrow> netopus \<Rightarrow> goroutine \<Rightarrow> netopus option" where
  "attempt_outcome now s p orc n g =
     (case g of
        GAccept k peer \<Rightarrow> Some (accept_result now s p k peer (Inr orc) n)
      | GDial k peer t \<Rightarrow> Some (dial_result now now False s k peer t (Inr orc) n)
      | _ \<Rightarrow> None)"

definition bring_up ::
    "json_codec \<Rightarrow> ipv6_ops \<Rightarrow> fwd_env \<Rightarrow> sess_env \<Rightarrow> nat \<Rightarrow> time \<Rightarrow> nat \<Rightarrow> bytes \<Rightarrow> nat \<Rightarrow> netopus \<Rightarrow> netopus option" where
  "bring_up j h fenv env li now s data orc n =
     Option.bind (go_get (n_sessHeap n) s) (\<lambda>p.
       let n1 = initSelect_enter j env (Inr li) s p n in
       Option.bind (go_get (n_sessHeap n1) s) (\<lambda>p1.
       Option.bind (protoLoop_recv j h fenv now False s p1 data n1) (\<lambda>n2.
       Option.bind (go_get (n_sessHeap n2) s) (\<lambda>p2.
       Option.bind (find is_conn_goroutine (ps_goroutines p2)) (attempt_outcome now s p2 orc n2)))))"

definition new_session :: "protoSession \<Rightarrow> bool" where
  "new_session p \<longleftrightarrow> \<not> ps_done p \<and> ps_connectionState p = connectionStateInit \<and> ps_oobRouteListener p = None
     \<and> ps_goroutines p = [] \<and> ps_attempts p = 0"

lemma init_message:
  assumes "json_enc_init j a = Inr d" "json_dec_init j d = Inr a"
  shows "InitMsg_Marshal j a = Inr (1 # d)" "Msg_Unmarshal j (1 # d) = Inr (InitMsg a)"
  using assms
  by (simp_all add: InitMsg_Marshal_def marshalMsg_def Msg_Unmarshal_def Msg_Type_def MsgType_defs Let_def)

lemma sendInit_state:
  assumes "json_enc_init j (n_addr n) = Inr d" "se_rand env = Inr 8" "se_write env = None"
  shows "sendInit j env s p n = upd_sess s (\<lambda>p. p\<lparr>ps_lastInit := se_now env\<rparr>) (emit (ConnWrite (ps_conn p) (1 # d)) n)"
  using assms by (simp add: sendInit_def InitMsg_Marshal_def marshalMsg_def MsgTypeInit_def Let_def)

lemma NewPacketConn_sel:
  assumes "NewPacketConn n f a q = (m, opc)"
  shows "n_sessHeap m = n_sessHeap n" "n_sessionInfo m = n_sessionInfo n" "n_effects m = n_effects n"
    "n_addr m = n_addr n" "n_updateSender m = n_updateSender n"
  using assms by (auto simp: NewPacketConn_def Let_def)

lemma upd_sess_sel2 [simp]: "n_effects (upd_sess s f n) = n_effects n" "n_updateSender (upd_sess s f n) = n_updateSender n"
  by (simp_all add: upd_sess_def split: option.split)

lemma enter_state:
  assumes p: "go_get (n_sessHeap n) s = Some p" "new_session p"
    and init: "json_enc_init j (n_addr n) = Inr d" "se_rand env = Inr 8" "se_write env = None"
  shows "\<exists>opc. go_get (n_sessHeap (initSelect_enter j env (Inr li) s p n)) s =
      Some (if ps_isServer p
        then p\<lparr>ps_lastInit := se_now env, ps_oobRoutePacketConn := Some opc, ps_oobRouteListener := Some li\<rparr>
        else p\<lparr>ps_lastInit := se_now env\<rparr>)"
    and "n_effects (initSelect_enter j env (Inr li) s p n) = n_effects n @ [ConnWrite (ps_conn p) (1 # d)]"
    and "n_sessionInfo (initSelect_enter j env (Inr li) s p n) = n_sessionInfo n"
proof -
  obtain m opc where m: "NewPacketConn (upd_sess s (\<lambda>p. p\<lparr>ps_lastInit := se_now env\<rparr>)
      (emit (ConnWrite (ps_conn p) (1 # d)) n)) SendFuncRoutingOOB (n_addr n) 0 = (m, opc)" by fastforce
  note sel = NewPacketConn_sel [OF m] sendInit_state [OF init]
  show "\<exists>opc. go_get (n_sessHeap (initSelect_enter j env (Inr li) s p n)) s =
      Some (if ps_isServer p
        then p\<lparr>ps_lastInit := se_now env, ps_oobRoutePacketConn := Some opc, ps_oobRouteListener := Some li\<rparr>
        else p\<lparr>ps_lastInit := se_now env\<rparr>)"
    using p by (auto simp: initSelect_enter_def Let_def m new_session_def ListenOOB_def upd_sess_get sel)
  show "n_effects (initSelect_enter j env (Inr li) s p n) = n_effects n @ [ConnWrite (ps_conn p) (1 # d)]"
    "n_sessionInfo (initSelect_enter j env (Inr li) s p n) = n_sessionInfo n"
    using p by (auto simp: initSelect_enter_def Let_def m new_session_def ListenOOB_def sel)
qed

text \<open>The peer's init message starts one attempt.\<close>

lemma recv_init_state:
  assumes p: "go_get (n_sessHeap n) s = Some p" "ps_connectionState p = connectionStateInit"
      "ps_goroutines p = []" "ps_isServer p \<longrightarrow> ps_oobRouteListener p \<noteq> None"
    and msg: "Msg_Unmarshal j data = Inr (InitMsg peer)"
  shows "\<exists>n'. protoLoop_recv j h fenv now False s p data n = Some n' \<and>
    go_get (n_sessHeap n') s = Some (p\<lparr>ps_connectionState := connectionStateConnecting, ps_remoteAddr := peer,
       ps_attempts := ps_attempts p + 1, ps_goroutines :=
         [GRouteTimer (ps_attempts p), if ps_isServer p then GAccept (ps_attempts p) peer else GDial (ps_attempts p) peer now],
       ps_lastActivity := now\<rparr>) \<and>
    go_get (n_sessionInfo n') peer = Some s"
  using p by (auto simp: protoLoop_recv_def initSelect_recv_def msg upd_sess_get start_attempt_heap gomap_simps)

lemma finalize_state:
  assumes "go_get (n_sessHeap n) s = Some p"
  shows "go_get (n_sessHeap (finalizeConn now s k orc n)) s = Some (p\<lparr>ps_oobRouteConn := Some orc,
      ps_connectionState := connectionStateConnected, ps_connStart := now,
      ps_goroutines := remove1 (GRouteTimer k) (ps_goroutines p) @ [GRouteReader]\<rparr>)"
    and "n_sessionInfo (finalizeConn now s k orc n) = n_sessionInfo n"
    and "last (n_updateSender (finalizeConn now s k orc n)) = 100 * millisecond"
  using assms by (simp_all add: finalizeConn_def upd_sess_get)

definition session_up :: "netopus \<Rightarrow> ip \<Rightarrow> nat \<Rightarrow> nat \<Rightarrow> bool" where
  "session_up n peer s orc \<longleftrightarrow> go_get (n_sessionInfo n) peer = Some s \<and>
     (case go_get (n_sessHeap n) s of
        None \<Rightarrow> False
      | Some p \<Rightarrow> \<not> ps_done p \<and> ps_remoteAddr p = peer \<and> ps_connectionState p = connectionStateConnected
          \<and> ps_oobRouteConn p = Some orc \<and> ps_goroutines p = [GRouteReader])"

lemma attempt_state:
  assumes p: "go_get (n_sessHeap n) s = Some p" "\<not> ps_done p" "ps_remoteAddr p = peer"
    and t: "go_get (n_sessionInfo n) peer = Some s"
  shows "ps_goroutines p = [GRouteTimer k, GAccept k peer] \<Longrightarrow> session_up (accept_result now s p k peer (Inr orc) n) peer s orc"
    and "ps_goroutines p = [GRouteTimer k, GDial k peer t0] \<Longrightarrow>
      session_up (dial_result now later False s k peer t0 (Inr orc) n) peer s orc"
proof -
  obtain m opc where m: "NewPacketConn n SendFuncRoutingOOB (n_addr n) 0 = (m, opc)" by fastforce
  show "session_up (accept_result now s p k peer (Inr orc) n) peer s orc" if "ps_goroutines p = [GRouteTimer k, GAccept k peer]"
    using p t that by (simp add: session_up_def accept_result_def Let_def finalizeConn_def upd_sess_get drop_goroutine_def)
  show "session_up (dial_result now later False s k peer t0 (Inr orc) n) peer s orc"
    if "ps_goroutines p = [GRouteTimer k, GDial k peer t0]"
    using p t that
    by (simp add: session_up_def dial_result_def m DialOOB_def finalizeConn_def upd_sess_get drop_goroutine_def
        NewPacketConn_sel [OF m])
qed

lemma bring_up_result:
  assumes p: "go_get (n_sessHeap n) s = Some p" "new_session p"
    and init: "json_enc_init j (n_addr n) = Inr d" "se_rand env = Inr 8" "se_write env = None"
    and msg: "Msg_Unmarshal j data = Inr (InitMsg peer)"
  shows "\<exists>n'. bring_up j h fenv env li now s data orc n = Some n' \<and> session_up n' peer s orc"
proof -
  let ?n1 = "initSelect_enter j env (Inr li) s p n"
  obtain p1 where p1: "go_get (n_sessHeap ?n1) s = Some p1" "new_session (p1\<lparr>ps_oobRouteListener := None\<rparr>)"
      "ps_isServer p1 \<longrightarrow> ps_oobRouteListener p1 \<noteq> None"
    using enter_state(1) [OF p init, of li] p(2) by (auto simp: new_session_def)
  have f: "ps_connectionState p1 = connectionStateInit" "ps_goroutines p1 = []" "ps_attempts p1 = 0" "\<not> ps_done p1"
    using p1(2) by (simp_all add: new_session_def)
  obtain n2 where n2: "protoLoop_recv j h fenv now False s p1 data ?n1 = Some n2"
      and h2: "go_get (n_sessHeap n2) s = Some (p1\<lparr>ps_connectionState := connectionStateConnecting, ps_remoteAddr := peer,
       ps_attempts := ps_attempts p1 + 1, ps_goroutines :=
         [GRouteTimer (ps_attempts p1), if ps_isServer p1 then GAccept (ps_attempts p1) peer else GDial (ps_attempts p1) peer now],
       ps_lastActivity := now\<rparr>)" and t2: "go_get (n_sessionInfo n2) peer = Some s"
    using recv_init_state [OF p1(1) f(1,2) p1(3) msg] by blast
  show ?thesis
    using attempt_state [OF h2 _ _ t2] f
    by (cases "ps_isServer p1") (simp_all add: bring_up_def p(1) p1(1) n2 h2 is_conn_goroutine_def attempt_outcome_def)
qed

lemma bring_up_parts:
  assumes r: "bring_up j h fenv env li now s data orc n = Some n'" and p: "go_get (n_sessHeap n) s = Some p" "new_session p"
  obtains n1 p1 n2 where "n1 = initSelect_enter j env (Inr li) s p n" "protoLoop_recv j h fenv now False s p1 data n1 = Some n2"
    "\<exists>p2 k peer t res. n' = accept_result now s p2 k peer res n2 \<or> n' = dial_result now now False s k peer t res n2"
    "sess_step pq j uj h rx n n1" "sess_step pq j uj h rx n1 n2" "sess_step pq j uj h rx n2 n'"
proof -
  let ?n1 = "initSelect_enter j env (Inr li) s p n"
  obtain p1 n2 p2 g where s1: "go_get (n_sessHeap ?n1) s = Some p1"
      and s2: "protoLoop_recv j h fenv now False s p1 data ?n1 = Some n2" and s3: "go_get (n_sessHeap n2) s = Some p2"
      and g: "find is_conn_goroutine (ps_goroutines p2) = Some g"
      and n': "attempt_outcome now s p2 orc n2 g = Some n'"
    using r by (auto simp: bring_up_def p(1) Let_def bind_eq_Some_conv)
  have "g \<in> set (ps_goroutines p2)" "is_conn_goroutine g" using g by (auto simp: find_Some_iff)
  then have "sess_step pq j uj h rx n2 n'"
    using st_accept [OF s3] st_dial [OF s3, where ctxDone = False] n' by (auto simp: attempt_outcome_def split: goroutine.splits)
  moreover have "sess_step pq j uj h rx n ?n1"
    by (rule st_enter [OF p(1)]) (use p(2) in \<open>simp add: new_session_def connectionState_defs\<close>)
  moreover have "sess_step pq j uj h rx ?n1 n2" by (rule st_recv [OF s1 _ s2]) simp
  moreover have "\<exists>p2 k peer t res. n' = accept_result now s p2 k peer res n2 \<or> n' = dial_result now now False s k peer t res n2"
    using n' by (cases g) (simp_all add: attempt_outcome_def, metis+)
  ultimately show ?thesis using that [OF refl s2] by blast
qed

lemma bring_up_steps:
  assumes "bring_up j h fenv env li now s data orc n = Some n'" "go_get (n_sessHeap n) s = Some p" "new_session p"
  shows "(sess_step pq j uj h rx)\<^sup>*\<^sup>* n n'"
proof (rule bring_up_parts [OF assms])
  fix n1 n2 assume "sess_step pq j uj h rx n n1" "sess_step pq j uj h rx n1 n2" "sess_step pq j uj h rx n2 n'"
  then show ?thesis by (meson converse_rtranclp_into_rtranclp r_into_rtranclp)
qed

text \<open>
  C14. Two nodes with a new session each over the same backend connection, one the server and one the
  client side: each writes its init message when its session starts, and when each receives the
  other's message and the routing stream is accepted and dialled, both sessions are connected,
  registered under the peer's address, with the stream's reader running. Every one of these steps is
  a step of \<open>sess_step\<close>.
\<close>

theorem handshake_connects_both:
  assumes codec: "\<And>a. a \<in> {n_addr na, n_addr nb} \<Longrightarrow> \<exists>d. json_enc_init j a = Inr d \<and> json_dec_init j d = Inr a"
    and a: "go_get (n_sessHeap na) sa = Some pa" "new_session pa" "\<not> ps_isServer pa"
    and b: "go_get (n_sessHeap nb) sb = Some pb" "new_session pb" "ps_isServer pb"
    and env: "se_rand env = Inr 8" "se_write env = None"
  shows "\<exists>ma mb na' nb'.
     n_effects (initSelect_enter j env (Inr li) sa pa na) = n_effects na @ [ConnWrite (ps_conn pa) ma] \<and>
     n_effects (initSelect_enter j env (Inr li) sb pb nb) = n_effects nb @ [ConnWrite (ps_conn pb) mb] \<and>
     bring_up j h fenv env li now sa mb orca na = Some na' \<and> session_up na' (n_addr nb) sa orca \<and>
     bring_up j h fenv env li now sb ma orcb nb = Some nb' \<and> session_up nb' (n_addr na) sb orcb \<and>
     (sess_step pq j uj h rx)\<^sup>*\<^sup>* na na' \<and> (sess_step pq j uj h rx)\<^sup>*\<^sup>* nb nb'"
proof -
  obtain da db where d: "json_enc_init j (n_addr na) = Inr da" "json_dec_init j da = Inr (n_addr na)"
      "json_enc_init j (n_addr nb) = Inr db" "json_dec_init j db = Inr (n_addr nb)"
    using codec by blast
  note msg = init_message(2) [OF d(1,2)] init_message(2) [OF d(3,4)]
  obtain na' where na': "bring_up j h fenv env li now sa (1 # db) orca na = Some na'" "session_up na' (n_addr nb) sa orca"
    using bring_up_result [OF a(1,2) d(1) env msg(2)] by blast
  obtain nb' where nb': "bring_up j h fenv env li now sb (1 # da) orcb nb = Some nb'" "session_up nb' (n_addr na) sb orcb"
    using bring_up_result [OF b(1,2) d(3) env msg(1)] by blast
  show ?thesis
    using enter_state(2) [OF a(1,2) d(1) env] enter_state(2) [OF b(1,2) d(3) env] na' nb'
      bring_up_steps [OF na'(1) a(1,2)] bring_up_steps [OF nb'(1) b(1,2)] by blast
qed

theorem handshake_connects_both_witness:
  "\<exists>m na'. bring_up ex_json rfc_ipv6 ex_env \<lparr>se_now = 1, se_rand = Inr 8, se_write = None\<rparr> 3 2 1 m 4 (ex_started 1 False) = Some na'
     \<and> session_up na' (ex_ip 2) 1 4"
proof -
  have s: "go_get (n_sessHeap (ex_started i srv)) 1 = Some (ex_session1 srv)" for i srv by (simp add: ex_started_session)
  have n: "new_session (ex_session1 srv)" for srv by (simp add: new_session_def ex_session1_def)
  have "\<exists>d. json_enc_init ex_json a = Inr d \<and> json_dec_init ex_json d = Inr a" for a by (simp add: ex_json_def)
  from handshake_connects_both [of "ex_started 1 False" "ex_started 2 True", OF this s n _ s n,
      of "\<lparr>se_now = 1, se_rand = Inr 8, se_write = None\<rparr>"]
  show ?thesis by (simp add: ex_session1_def) blast
qed

end
