(* ===== verification/Config.thy ===== *)
theory Config
  imports TextFormats
begin

text \<open>
  \<^verbatim>\<open>pkg/config/params.go\<close>, \<^verbatim>\<open>pkg/config/config.go\<close> and \<^verbatim>\<open>pkg/proto/ssh_keys.go\<close>: the typed access to
  the string parameters of a backend, the configuration of a network and its nodes, where a node
  keeps its files, and the text form of the keys that sign configurations.

  A nil map or slice is \<open>None\<close> where the program can tell it from an empty one. Name resolution,
  the file system, \<open>gopkg.in/yaml.v3\<close>, \<open>strconv.ParseFloat\<close> and \<open>golang.org/x/crypto/ssh\<close> are arguments.
\<close>

section \<open>Parameters\<close>

type_synonym Params = "(string, string) gomap"

definition missing_param :: "string \<Rightarrow> go_error" where
  "missing_param name = Errorf (''missing parameter: '' @ name)"

definition GetIP :: "Params \<Rightarrow> string \<Rightarrow> ip result" where
  "GetIP p name =
     (case go_get p name of
        None \<Rightarrow> Inl (missing_param name)
      | Some host \<Rightarrow>
          (case net_ParseIP host of
             None \<Rightarrow> Inl (Errorf (''invalid IP address: '' @ host))
           | Some ip \<Rightarrow> Inr ip))"

definition GetPort :: "Params \<Rightarrow> string \<Rightarrow> 16 word result" where
  "GetPort p name =
     (case go_get p name of
        None \<Rightarrow> Inl (missing_param name)
      | Some valStr \<Rightarrow>
          (case ParseUint16 valStr of
             Inl err \<Rightarrow> Inl (Wrapf (''error parsing '' @ name) err)
           | Inr val \<Rightarrow> Inr (of_nat val)))"

text \<open>\<open>lookup\<close> is \<open>net.LookupIP\<close>.\<close>

definition GetHostPort :: "(string \<Rightarrow> ip list result) \<Rightarrow> Params \<Rightarrow> string \<Rightarrow> (ip \<times> 16 word) result" where
  "GetHostPort lookup p name =
     (case go_get p name of
        None \<Rightarrow> Inl (missing_param name)
      | Some peer \<Rightarrow>
          (case SplitHostPort peer of
             Inl err \<Rightarrow> Inl (Wrapf (''error parsing '' @ name) err)
           | Inr (host, portStr) \<Rightarrow>
               (case ParseUint16 portStr of
                  Inl err \<Rightarrow> Inl (Wrapf (''error parsing '' @ name) err)
                | Inr port \<Rightarrow>
                    (case net_ParseIP host of
                       Some ip \<Rightarrow> Inr (ip, of_nat port)
                     | None \<Rightarrow>
                         (case lookup host of
                            Inl err \<Rightarrow> Inl (Wrapf (''hostname lookup error in '' @ name) err)
                          | Inr [] \<Rightarrow> Inl (Errorf (''hostname did not resolve to any IP addresses in '' @ name))
                          | Inr (ip # _) \<Rightarrow> Inr (ip, of_nat port))))))"

definition GetString :: "Params \<Rightarrow> string \<Rightarrow> string \<Rightarrow> string" where
  "GetString p name defaultValue = (case go_get p name of None \<Rightarrow> defaultValue | Some valStr \<Rightarrow> valStr)"

definition GetBool :: "Params \<Rightarrow> string \<Rightarrow> bool \<Rightarrow> bool result" where
  "GetBool p name defaultValue =
     (case go_get p name of
        None \<Rightarrow> Inr defaultValue
      | Some valStr \<Rightarrow>
          (case ParseBool valStr of
             Inl err \<Rightarrow> Inl (Wrapf (''error parsing '' @ name) err)
           | Inr val \<Rightarrow> Inr val))"

definition GetFloat32 :: "(string \<Rightarrow> f32 result) \<Rightarrow> Params \<Rightarrow> string \<Rightarrow> f32 \<Rightarrow> f32 result" where
  "GetFloat32 ParseFloat p name defaultValue =
     (case go_get p name of
        None \<Rightarrow> Inr defaultValue
      | Some valStr \<Rightarrow>
          (case ParseFloat valStr of
             Inl err \<Rightarrow> Inl (Wrapf (''error parsing '' @ name) err)
           | Inr val \<Rightarrow> Inr val))"

section \<open>Keys\<close>

text \<open>What the program uses of \<open>crypto/ssh\<close>; a public key is a value of a type of its own.\<close>

record 'key ssh_ops =
  ssh_MarshalAuthorizedKey :: "'key \<Rightarrow> string"
  ssh_ParseAuthorizedKey :: "string \<Rightarrow> ('key \<times> string) result"

record 'key MarshalablePublicKey =
  mpk_PublicKey :: 'key
  mpk_Comment :: string

definition trim_newlines :: "string \<Rightarrow> string" where
  "trim_newlines s = (let nl = (\<lambda>c. c = CHR 0x0A) in rev (dropWhile nl (rev (dropWhile nl s))))"

definition mpk_String :: "'key ssh_ops \<Rightarrow> 'key MarshalablePublicKey \<Rightarrow> string" where
  "mpk_String ops mpk =
     (let str = trim_newlines (ssh_MarshalAuthorizedKey ops (mpk_PublicKey mpk))
      in if mpk_Comment mpk \<noteq> [] then str @ '' '' @ mpk_Comment mpk else str)"

definition parseAuthorizedKey :: "'key ssh_ops \<Rightarrow> string \<Rightarrow> 'key MarshalablePublicKey result" where
  "parseAuthorizedKey ops data =
     (case ssh_ParseAuthorizedKey ops data of
        Inl err \<Rightarrow> Inl err
      | Inr (key, comment) \<Rightarrow> Inr \<lparr>mpk_PublicKey = key, mpk_Comment = comment\<rparr>)"

definition ParseAuthorizedKey :: "'key ssh_ops \<Rightarrow> string \<Rightarrow> 'key MarshalablePublicKey result" where
  "ParseAuthorizedKey ops key =
     (case parseAuthorizedKey ops key of Inl err \<Rightarrow> Inl err | Inr mpk \<Rightarrow> Inr mpk)"

definition mpk_MarshalJSON :: "'key ssh_ops \<Rightarrow> string_codec \<Rightarrow> 'key MarshalablePublicKey \<Rightarrow> bytes result" where
  "mpk_MarshalJSON ops j mpk = enc_str j (mpk_String ops mpk)"

definition mpk_UnmarshalJSON :: "'key ssh_ops \<Rightarrow> string_codec \<Rightarrow> bytes \<Rightarrow> 'key MarshalablePublicKey result" where
  "mpk_UnmarshalJSON ops j data =
     (case dec_str j data of Inl err \<Rightarrow> Inl err | Inr str \<Rightarrow> parseAuthorizedKey ops str)"

definition mpk_MarshalYAML :: "'key ssh_ops \<Rightarrow> 'key MarshalablePublicKey \<Rightarrow> string" where
  "mpk_MarshalYAML ops mpk = mpk_String ops mpk"

definition mpk_UnmarshalYAML :: "'key ssh_ops \<Rightarrow> string result \<Rightarrow> 'key MarshalablePublicKey result" where
  "mpk_UnmarshalYAML ops str =
     (case str of Inl err \<Rightarrow> Inl err | Inr s \<Rightarrow> parseAuthorizedKey ops s)"

section \<open>The configuration\<close>

record Service =
  svc_Port :: int
  svc_Command :: string

record TunDev =
  tun_DeviceName :: string
  tun_Address :: ip
  tun_Cost :: f32

record Namespace =
  ns_Address :: ip
  ns_Cost :: f32
  ns_Services :: "(string, string) gomap"   \<comment> \<open>the command of each service\<close>

record Cpctl =
  cp_SocketFile :: string
  cp_NoSocket :: bool
  cp_Port :: int

record Dns =
  dns_Disable :: bool

record Node =
  nd_Address :: ip
  nd_Backends :: "(string, Params option) gomap"
  nd_Services :: "(string, Service) gomap"
  nd_TunDevs :: "(string, TunDev) gomap"
  nd_Namespaces :: "(string, Namespace) gomap"
  nd_Cpctl :: Cpctl
  nd_Dns :: Dns

record 'key Global =
  gl_Domain :: string
  gl_Subnet :: subnet
  gl_AuthorizedKeys :: "'key MarshalablePublicKey list option"
  gl_LastUpdated :: time

record 'key Config =
  cfg_Global :: "'key Global"
  cfg_Nodes :: "(string, Node) gomap"

text \<open>\<open>gopkg.in/yaml.v3\<close> on configurations.\<close>

record 'key yaml_ops =
  yaml_Unmarshal :: "bytes \<Rightarrow> 'key Config result"
  yaml_Marshal :: "'key Config \<Rightarrow> bytes result"

definition Config_Unmarshal :: "'key yaml_ops \<Rightarrow> bytes \<Rightarrow> 'key Config result" where
  "Config_Unmarshal y data = yaml_Unmarshal y data"

definition Config_Marshal :: "'key yaml_ops \<Rightarrow> 'key Config \<Rightarrow> bytes result" where
  "Config_Marshal y c = yaml_Marshal y c"

section \<open>Files\<close>

text \<open>
  A file system is a map from paths to contents; \<open>fail\<close> says which writes fail, with which error, and what
  the file holds afterwards when the write had begun.
\<close>

type_synonym file_system = "(string, bytes) gomap"
type_synonym write_failures = "string \<Rightarrow> (go_error \<times> bytes option) option"

definition os_ReadFile :: "file_system \<Rightarrow> string \<Rightarrow> bytes result" where
  "os_ReadFile fs f =
     (case go_get fs f of None \<Rightarrow> Inl (Errorf (''open '' @ f @ '': no such file or directory'')) | Some d \<Rightarrow> Inr d)"

definition os_WriteFile :: "write_failures \<Rightarrow> string \<Rightarrow> bytes \<Rightarrow> file_system \<Rightarrow> file_system \<times> go_error option" where
  "os_WriteFile fail f d fs =
     (case fail f of
        Some (err, left) \<Rightarrow> (case left of None \<Rightarrow> fs | Some d' \<Rightarrow> go_set fs f d', Some err)
      | None \<Rightarrow> (go_set fs f d, None))"

definition Config_Load :: "'key yaml_ops \<Rightarrow> file_system \<Rightarrow> string \<Rightarrow> 'key Config result" where
  "Config_Load y fs filename =
     (case os_ReadFile fs filename of Inl err \<Rightarrow> Inl err | Inr data \<Rightarrow> Config_Unmarshal y data)"

definition Config_Save ::
    "'key yaml_ops \<Rightarrow> write_failures \<Rightarrow> 'key Config \<Rightarrow> string \<Rightarrow> file_system \<Rightarrow> file_system \<times> go_error option" where
  "Config_Save y fail c filename fs =
     (case Config_Marshal y c of Inl err \<Rightarrow> (fs, Some err) | Inr data \<Rightarrow> os_WriteFile fail filename data fs)"

text \<open>\<open>path.Clean\<close> and \<open>path.Join\<close>, on the components of a path.\<close>

fun split_slash :: "string \<Rightarrow> string list" where
  "split_slash [] = [[]]"
| "split_slash (c # cs) =
     (if c = CHR ''/'' then [] # split_slash cs
      else case split_slash cs of [] \<Rightarrow> [[c]] | p # ps \<Rightarrow> (c # p) # ps)"

fun join_slash :: "string list \<Rightarrow> string" where
  "join_slash [] = []"
| "join_slash [p] = p"
| "join_slash (p # q # ps) = p @ ''/'' @ join_slash (q # ps)"

fun clean_parts :: "bool \<Rightarrow> string list \<Rightarrow> string list \<Rightarrow> string list" where
  "clean_parts rooted [] out = rev out"
| "clean_parts rooted (p # ps) out =
     (if p = '''' \<or> p = ''.'' then clean_parts rooted ps out
      else if p = ''..'' then
        (case out of
           [] \<Rightarrow> clean_parts rooted ps (if rooted then [] else [p])
         | q # out' \<Rightarrow> clean_parts rooted ps (if q = ''..'' then p # out else out'))
      else clean_parts rooted ps (p # out))"

definition path_IsAbs :: "string \<Rightarrow> bool" where
  "path_IsAbs p \<longleftrightarrow> take 1 p = ''/''"

definition path_Clean :: "string \<Rightarrow> string" where
  "path_Clean p =
     (let out = join_slash (clean_parts (path_IsAbs p) (split_slash p) [])
      in if path_IsAbs p then ''/'' @ out else if out = [] then ''.'' else out)"

definition path_Join :: "string list \<Rightarrow> string" where
  "path_Join elems =
     (let ne = filter (\<lambda>e. e \<noteq> []) elems in if ne = [] then [] else path_Clean (join_slash ne))"

definition ExpandFilename :: "string result \<Rightarrow> string \<Rightarrow> string \<Rightarrow> string result" where
  "ExpandFilename userConfigDir nodeID filename =
     (if path_IsAbs filename then Inr filename
      else let filename = (if filename = [] then ''cpctl.sock'' else filename)
           in case userConfigDir of
                Inl err \<Rightarrow> Inl err
              | Inr ucd \<Rightarrow> Inr (path_Join [ucd, ''connectopus'', nodeID, filename]))"

text \<open>\<open>stat\<close> and \<open>readDir\<close> are \<open>os.Stat\<close> and \<open>os.ReadDir\<close>; a directory entry is a name and whether it is a directory.\<close>

definition FindDataDirs ::
    "string result \<Rightarrow> (string \<Rightarrow> go_error option) \<Rightarrow> (string \<Rightarrow> (string \<times> bool) list result) \<Rightarrow> string
       \<Rightarrow> string list result" where
  "FindDataDirs userConfigDir stat readDir identity =
     (case userConfigDir of
        Inl err \<Rightarrow> Inl err
      | Inr ucd \<Rightarrow>
          let basePath = path_Join [ucd, ''connectopus''] in
          if identity \<noteq> [] then
            (let dirName = path_Join [basePath, identity]
             in case stat dirName of
                  Some err \<Rightarrow> Inl (Wrapf ''could not open data dir'' err)
                | None \<Rightarrow> Inr [dirName])
          else
            (case readDir basePath of
               Inl err \<Rightarrow> Inl err
             | Inr files \<Rightarrow> Inr (map (\<lambda>(f, _). path_Join [basePath, f]) (filter (\<lambda>(_, isDir). isDir) files))))"

section \<open>Properties\<close>

lemma net_ParseIP_IP_String:
  assumes "length a = 4 \<or> length a = 16"
  shows "net_ParseIP (IP_String a) = Some (addr_As16 (case net_To4 a of Some a4 \<Rightarrow> a4 | None \<Rightarrow> a))"
  using ParseAddr_IP_String [OF assms] by (simp add: net_ParseIP_def)

lemma split_printed:
  assumes "length a = 4 \<or> length a = 16"
  shows "SplitHostPort (JoinHostPort (IP_String a) (itoa n)) = Inr (IP_String a, itoa n)"
proof (rule split_join)
  have "set (IP_String a) \<subseteq> addr_chars" using addr_chars_IP [OF assms] by (simp add: IP_String_def)
  then show "CHR ''['' \<notin> set (IP_String a)" "CHR '']'' \<notin> set (IP_String a)" using addr_chars_seps(4,5) by blast+
qed (rule itoa_plain)+

text \<open>
  Peer addresses survive their text form: an address and a port joined the way the program prints
  them are read back, for every IPv4 and IPv6 address and every port, without asking the resolver.
\<close>

theorem peer_address_roundtrip:
  assumes "length a = 4 \<or> length a = 16" "go_get p name = Some (JoinHostPort (IP_String a) (itoa (unat port)))"
  shows "GetHostPort lookup p name = Inr (addr_As16 (case net_To4 a of Some a4 \<Rightarrow> a4 | None \<Rightarrow> a), port)"
proof -
  have "unat port \<le> 65535" by (rule unat16_le)
  then show ?thesis
    using assms(2) split_printed [OF assms(1)] net_ParseIP_IP_String [OF assms(1)]
    by (simp add: GetHostPort_def ParseUint16_itoa)
qed

theorem peer_address_roundtrip_witness:
  "GetHostPort (\<lambda>_. Inl ErrSyntax) [(''peer'', JoinHostPort (IP_String [192, 0, 2, 1]) (itoa (unat (9000 :: 16 word))))] ''peer''
     = Inr (addr_As16 [192, 0, 2, 1], 9000)"
  using peer_address_roundtrip [of "[192, 0, 2, 1]" "[(''peer'', JoinHostPort (IP_String [192, 0, 2, 1]) (itoa (unat (9000 :: 16 word))))]"
      "''peer''" 9000 "\<lambda>_. Inl ErrSyntax"]
  by (simp add: net_To4_def)

text \<open>
  A port parameter is accepted exactly when it is a non-empty string of decimal digits with a value
  of at most 65535, and then the port is that value; a missing or any other parameter is an error.
\<close>

theorem port_parameter_accepted:
  "GetPort p name = Inr port \<longleftrightarrow>
     (case go_get p name of
        None \<Rightarrow> False
      | Some s \<Rightarrow> s \<noteq> [] \<and> list_all (\<lambda>c. dec_val c \<noteq> None) s \<and> dec_value s = unat port)"
proof (cases "go_get p name")
  case (Some s)
  have b: "unat port \<le> 65535" by (rule unat16_le)
  show ?thesis
  proof (cases "ParseUint16 s")
    case (Inl err)
    then have "\<not> (s \<noteq> [] \<and> list_all (\<lambda>c. dec_val c \<noteq> None) s \<and> dec_value s \<le> 65535)"
      using ParseUint16_iff [of s "dec_value s"] by auto
    then show ?thesis using Some Inl b by (auto simp: GetPort_def)
  next
    case (Inr n)
    then have "s \<noteq> []" "list_all (\<lambda>c. dec_val c \<noteq> None) s" "n = dec_value s" "n \<le> 65535"
      using ParseUint16_iff [of s n] by auto
    then show ?thesis using Some Inr of_nat_port [of n port] by (auto simp: GetPort_def)
  qed
qed (simp add: GetPort_def)

end
