(* ===== verification/Backends.thy ===== *)
theory Backends
  imports Config "HOL-Library.Sublist"
begin

text \<open>
  \<^verbatim>\<open>pkg/backends\<close>: the connections that sessions run over. TCP connections frame messages on a byte
  stream, DTLS connections carry one message per datagram, and a pair connects two nodes of one
  process; dialers retry with growing pauses and listeners accept until they are closed.

  What the operating system or a library answers is an argument: the result of a write or a read,
  of dialling and accepting, of parsing certificates.

  The locale \<open>message_transport\<close> states the promise of \<open>BackendConnection\<close> (whole messages, in order);
  the TCP framing and the pair provide it.
\<close>

section \<open>The contract\<close>

definition ErrExceedsMTU :: go_error where
  "ErrExceedsMTU = Errorf ''payload size exceeds MTU''"

definition ErrDeadlineExceeded :: go_error where
  "ErrDeadlineExceeded = Errorf ''i/o timeout''"

definition ErrClosed :: go_error where
  "ErrClosed = Errorf ''file already closed''"

text \<open>
  \<open>send\<close> and \<open>recv\<close> act on what is in transit in one direction; \<open>pending\<close> are the messages in it and
  \<open>carried\<close> the messages that are transported when their write succeeds.
\<close>

locale message_transport =
  fixes send :: "bytes \<Rightarrow> 's \<Rightarrow> 's \<times> go_error option"
    and recv :: "'s \<Rightarrow> 's \<times> bytes result"
    and pending :: "'s \<Rightarrow> bytes list"
    and inv :: "'s \<Rightarrow> bool"
    and carried :: "bytes \<Rightarrow> bool"
  assumes send_inv: "inv s \<Longrightarrow> send m s = (s', err) \<Longrightarrow> inv s'"
    and send_carried: "inv s \<Longrightarrow> carried m \<Longrightarrow> \<exists>s'. send m s = (s', None) \<and> pending s' = pending s @ [m]"
    and send_other: "inv s \<Longrightarrow> \<not> carried m \<Longrightarrow> fst (send m s) = s"
    and recv_ok: "inv s \<Longrightarrow> pending s = m # ms \<Longrightarrow> \<exists>s'. recv s = (s', Inr m) \<and> pending s' = ms \<and> inv s'"
begin

text \<open>Sending a list of messages, and receiving a number of them.\<close>

primrec send_all :: "bytes list \<Rightarrow> 's \<Rightarrow> 's" where
  "send_all [] s = s"
| "send_all (m # ms) s = send_all ms (fst (send m s))"

primrec recv_n :: "nat \<Rightarrow> 's \<Rightarrow> bytes list" where
  "recv_n 0 s = []"
| "recv_n (Suc n) s = (case recv s of (s', Inl e) \<Rightarrow> [] | (s', Inr m) \<Rightarrow> m # recv_n n s')"

lemma send_all_pending:
  "inv s \<Longrightarrow> inv (send_all ms s) \<and> pending (send_all ms s) = pending s @ filter carried ms"
proof (induction ms arbitrary: s)
  case (Cons m ms)
  obtain s' err where s': "send m s = (s', err)" by fastforce
  then have "inv s'" using send_inv Cons.prems by blast
  moreover have "pending s' = pending s @ filter carried [m]"
    using send_carried [OF Cons.prems, of m] send_other [OF Cons.prems, of m] s' by auto
  ultimately show ?case using Cons.IH s' by simp
qed simp

lemma recv_n_pending:
  "inv s \<Longrightarrow> n \<le> length (pending s) \<Longrightarrow> recv_n n s = take n (pending s)"
proof (induction n arbitrary: s)
  case (Suc n)
  then obtain m ms where p: "pending s = m # ms" by (cases "pending s") auto
  obtain s' where "recv s = (s', Inr m)" "pending s' = ms" "inv s'" using recv_ok [OF Suc.prems(1) p] by blast
  then show ?case using Suc p by simp
qed simp

text \<open>Everything that can be carried is received, in order and unchanged.\<close>

lemma delivers:
  "inv s \<Longrightarrow> pending s = [] \<Longrightarrow> recv_n (length (filter carried ms)) (send_all ms s) = filter carried ms"
  using send_all_pending [of s ms] recv_n_pending [of "send_all ms s"] by simp

end

section \<open>Dialling and listening\<close>

text \<open>The pause before the next attempt.\<close>

definition next_timeout :: "time \<Rightarrow> time" where
  "next_timeout t =
     (if t = 0 then second
      else let t' = t * 6 div 5 in if t' > 60 * second then 60 * second else t')"

text \<open>
  \<open>RunDialer\<close> from a state with pause \<open>t\<close>: for each attempt, whether the context is done in the pause and
  what the dialer returns otherwise. The result are the pauses, the connections that \<open>RunProtocol\<close> was
  run on, and whether the loop has ended.
\<close>

fun RunDialer :: "time \<Rightarrow> (bool \<times> nat result) list \<Rightarrow> time list \<times> nat list \<times> bool" where
  "RunDialer t [] = ([], [], False)"
| "RunDialer t ((ctxDone, dialed) # evs) =
     (let waits = (if t > 0 then [t] else []) in
      if t > 0 \<and> ctxDone then (waits, [], True)
      else case dialed of
        Inl err \<Rightarrow> (case RunDialer (next_timeout t) evs of (ws, cs, e) \<Rightarrow> (waits @ ws, cs, e))
      | Inr conn \<Rightarrow> (case RunDialer 0 evs of (ws, cs, e) \<Rightarrow> (waits @ ws, conn # cs, e)))"

text \<open>\<open>RunListener\<close>: for each call of the acceptor, whether the context is done and what it returned.\<close>

fun RunListener :: "(bool \<times> nat result) list \<Rightarrow> nat list \<times> bool" where
  "RunListener [] = ([], False)"
| "RunListener ((ctxDone, accepted) # evs) =
     (if ctxDone then ([], True)
      else case accepted of
        Inl err \<Rightarrow> ([], True)
      | Inr conn \<Rightarrow> (case RunListener evs of (cs, e) \<Rightarrow> (conn # cs, e)))"

section \<open>TCP\<close>

definition tcp_MTU :: nat where "tcp_MTU = 1500"

text \<open>\<open>write\<close> is \<open>conn.Write\<close>. The first component of the result is what was passed to it.\<close>

definition tcp_WriteMessage :: "(bytes \<Rightarrow> nat result) \<Rightarrow> bytes \<Rightarrow> bytes \<times> go_error option" where
  "tcp_WriteMessage write data =
     (if length data > tcp_MTU then ([], Some ErrExceedsMTU)
      else if length data = 0 then ([], None)
      else let packet = uint16_bytes (of_nat (length data)) @ data
           in case write packet of
                Inl err \<Rightarrow> (packet, Some err)
              | Inr n \<Rightarrow>
                  if n \<noteq> length data + 2
                  then (packet, Some (Errorf (''expected to write '' @ itoa n @ '' bytes but only wrote '' @ itoa (length data + 2))))
                  else (packet, None))"

text \<open>\<open>io.ReadFull\<close> on a connection whose remaining input is \<open>s\<close>.\<close>

definition io_ReadFull :: "nat \<Rightarrow> bytes \<Rightarrow> bytes \<times> bytes result" where
  "io_ReadFull n s =
     (if n \<le> length s then (drop n s, Inr (take n s))
      else ([], Inl (if s = [] then Errorf ''EOF'' else Errorf ''unexpected EOF'')))"

definition tcp_ReadMessage :: "bytes \<Rightarrow> bytes \<times> bytes result" where
  "tcp_ReadMessage s =
     (case io_ReadFull 2 s of
        (s, Inl err) \<Rightarrow> (s, Inl err)
      | (s, Inr lenBytes) \<Rightarrow> io_ReadFull (unat (bytes_uint16 (lenBytes ! 0) (lenBytes ! 1))) s)"

section \<open>DTLS\<close>

definition dtls_MTU :: nat where "dtls_MTU = 1500 - 40 - 8"

definition dtls_WriteMessage :: "(bytes \<Rightarrow> nat result) \<Rightarrow> bytes \<Rightarrow> bytes option \<times> go_error option" where
  "dtls_WriteMessage write data =
     (if length data > dtls_MTU then (None, Some ErrExceedsMTU)
      else case write data of
        Inl err \<Rightarrow> (Some data, Some err)
      | Inr n \<Rightarrow>
          if n \<noteq> length data
          then (Some data, Some (Errorf (''expected to write '' @ itoa n @ '' bytes but only wrote '' @ itoa (length data))))
          else (Some data, None))"

text \<open>\<open>read\<close> is \<open>conn.Read\<close> with a buffer of the given size: the bytes read and the error.\<close>

definition dtls_ReadMessage :: "(nat \<Rightarrow> bytes \<times> go_error option) \<Rightarrow> bytes \<times> go_error option" where
  "dtls_ReadMessage read = read dtls_MTU"

section \<open>Pairs\<close>

record pairBackend =
  pb_mtu :: nat
  pb_readDeadline :: time
  pb_writeDeadline :: time
  pb_isServer :: bool

text \<open>
  The two connections of \<open>RunPair\<close> share a context and two unbuffered channels. A channel is the list of
  messages whose senders wait; the event that a \<open>select\<close> takes is an argument, and the result is \<open>None\<close>
  when that event is not ready.
\<close>

datatype pair_event = PairChan | PairDone | PairTimer

definition pair_WriteMessage ::
    "pairBackend \<Rightarrow> time \<Rightarrow> bool \<Rightarrow> pair_event \<Rightarrow> bytes \<Rightarrow> bytes list \<Rightarrow> (bytes list \<times> go_error option) option" where
  "pair_WriteMessage b now ctxDone ev data ch =
     (if length data > pb_mtu b then Some (ch, Some (Errorf ''exceeds MTU''))
      else case ev of
        PairChan \<Rightarrow> Some (ch @ [data], None)
      | PairDone \<Rightarrow> if ctxDone then Some (ch, Some ErrClosed) else None
      | PairTimer \<Rightarrow>
          if pb_writeDeadline b \<noteq> 0 \<and> pb_writeDeadline b \<le> now then Some (ch, Some ErrDeadlineExceeded) else None)"

definition pair_ReadMessage ::
    "pairBackend \<Rightarrow> time \<Rightarrow> bool \<Rightarrow> pair_event \<Rightarrow> bytes list \<Rightarrow> (bytes list \<times> bytes result) option" where
  "pair_ReadMessage b now ctxDone ev ch =
     (case ev of
        PairChan \<Rightarrow> (case ch of [] \<Rightarrow> None | data # ch' \<Rightarrow> Some (ch', Inr data))
      | PairDone \<Rightarrow> if ctxDone then Some (ch, Inl (Errorf ''operation cancelled'')) else None
      | PairTimer \<Rightarrow>
          if pb_readDeadline b \<noteq> 0 \<and> pb_readDeadline b \<le> now then Some (ch, Inl ErrDeadlineExceeded) else None)"

definition pair_SetReadDeadline :: "time \<Rightarrow> pairBackend \<Rightarrow> pairBackend" where
  "pair_SetReadDeadline t b = b\<lparr>pb_readDeadline := t\<rparr>"

definition pair_SetWriteDeadline :: "time \<Rightarrow> pairBackend \<Rightarrow> pairBackend" where
  "pair_SetWriteDeadline t b = b\<lparr>pb_writeDeadline := t\<rparr>"

definition RunPair :: "nat \<Rightarrow> pairBackend \<times> pairBackend" where
  "RunPair mtu =
     (\<lparr>pb_mtu = mtu, pb_readDeadline = 0, pb_writeDeadline = 0, pb_isServer = True\<rparr>,
      \<lparr>pb_mtu = mtu, pb_readDeadline = 0, pb_writeDeadline = 0, pb_isServer = False\<rparr>)"

section \<open>Whole messages, in order\<close>

text \<open>A connection that takes everything it is given to write, as the stream of bytes in transit.\<close>

definition tcp_send :: "bytes \<Rightarrow> bytes \<Rightarrow> bytes \<times> go_error option" where
  "tcp_send m s = (case tcp_WriteMessage (\<lambda>p. Inr (length p)) m of (packet, err) \<Rightarrow> (s @ packet, err))"

definition tcp_carried :: "bytes \<Rightarrow> bool" where
  "tcp_carried m \<longleftrightarrow> 0 < length m \<and> length m \<le> tcp_MTU"

definition frame :: "bytes \<Rightarrow> bytes" where
  "frame m = uint16_bytes (of_nat (length m)) @ m"

text \<open>The messages that are read until a read fails.\<close>

lemma tcp_ReadMessage_shorter: "tcp_ReadMessage s = (s', Inr m) \<Longrightarrow> length s' < length s"
  by (auto simp: tcp_ReadMessage_def io_ReadFull_def split: if_splits)

function tcp_messages :: "bytes \<Rightarrow> bytes list" where
  "tcp_messages s = (case tcp_ReadMessage s of (s', Inl err) \<Rightarrow> [] | (s', Inr m) \<Rightarrow> m # tcp_messages s')"
  by pat_completeness auto
termination
  by (relation "measure length") (auto dest: tcp_ReadMessage_shorter [OF sym])

declare tcp_messages.simps [simp del]

definition tcp_stream :: "bytes list \<Rightarrow> bytes" where
  "tcp_stream ms = fold (\<lambda>m s. fst (tcp_send m s)) ms []"

lemma length_frame [simp]: "length (frame m) = length m + 2"
  by (simp add: frame_def)

lemma tcp_send_eq:
  "tcp_send m s = (if length m > tcp_MTU then (s, Some ErrExceedsMTU)
                   else (s @ (if tcp_carried m then frame m else []), None))"
  by (simp add: tcp_send_def tcp_WriteMessage_def tcp_carried_def frame_def Let_def)

lemma unat_len16: "tcp_carried m \<Longrightarrow> unat (of_nat (length m) :: 16 word) = length m"
  by (simp add: tcp_carried_def tcp_MTU_def unat_of_nat)

lemma tcp_Read_frame: "tcp_carried m \<Longrightarrow> tcp_ReadMessage (frame m @ rest) = (rest, Inr m)"
  using unat_len16 [of m]
  by (simp add: tcp_ReadMessage_def io_ReadFull_def frame_def uint16_bytes_def)

lemma tcp_messages_frame: "tcp_carried m \<Longrightarrow> tcp_messages (frame m @ rest) = m # tcp_messages rest"
  by (subst tcp_messages.simps) (simp add: tcp_Read_frame)

lemma tcp_messages_Nil [simp]: "tcp_messages [] = []"
  by (subst tcp_messages.simps) (simp add: tcp_ReadMessage_def io_ReadFull_def)

lemma tcp_messages_frames:
  "\<forall>m\<in>set ms. tcp_carried m \<Longrightarrow> tcp_messages (concat (map frame ms) @ rest) = ms @ tcp_messages rest"
  by (induction ms) (simp_all add: tcp_messages_frame)

lemma tcp_Read_partial:
  assumes "tcp_carried m" "k < length (frame m)"
  shows "\<exists>s' e. tcp_ReadMessage (take k (frame m)) = (s', Inl e)"
proof (cases "k < 2")
  case True
  then show ?thesis using assms(2) by (simp add: tcp_ReadMessage_def io_ReadFull_def)
next
  case False
  then obtain j where j: "k = Suc (Suc j)" by (metis add_2_eq_Suc le_add_diff_inverse not_less)
  with assms show ?thesis using unat_len16 [of m]
    by (simp add: tcp_ReadMessage_def io_ReadFull_def frame_def uint16_bytes_def)
qed

text \<open>Cut anywhere, the stream still gives whole messages only.\<close>

lemma tcp_messages_take_frames:
  "\<forall>m\<in>set ms. tcp_carried m \<Longrightarrow> prefix (tcp_messages (take k (concat (map frame ms)))) ms"
proof (induction ms arbitrary: k)
  case (Cons m ms)
  show ?case
  proof (cases "k < length (frame m)")
    case True
    obtain s' e where "tcp_ReadMessage (take k (frame m)) = (s', Inl e)"
      using tcp_Read_partial True Cons.prems by (metis list.set_intros(1))
    then have "tcp_messages (take k (frame m)) = []" by (subst tcp_messages.simps) simp
    then show ?thesis using True by simp
  next
    case False
    then show ?thesis using Cons by (simp add: tcp_messages_frame)
  qed
qed simp

lemma tcp_stream_frames: "tcp_stream ms = concat (map frame (filter tcp_carried ms))"
proof -
  have "fold (\<lambda>m s. fst (tcp_send m s)) ms s = s @ concat (map frame (filter tcp_carried ms))" for s
    by (induction ms arbitrary: s) (auto simp: tcp_send_eq tcp_carried_def)
  then show ?thesis by (simp add: tcp_stream_def)
qed

definition tcp_frames_inv :: "bytes \<Rightarrow> bool" where
  "tcp_frames_inv s \<longleftrightarrow> s = concat (map frame (tcp_messages s)) \<and> list_all tcp_carried (tcp_messages s)"

lemma tcp_frames_inv_intro: "\<forall>m\<in>set ms. tcp_carried m \<Longrightarrow> tcp_frames_inv (concat (map frame ms))"
  using tcp_messages_frames [of ms "[]"] by (simp add: tcp_frames_inv_def list_all_iff)

lemma tcp_frames_invE:
  assumes "tcp_frames_inv s"
  obtains ms where "s = concat (map frame ms)" "\<forall>m\<in>set ms. tcp_carried m" "tcp_messages s = ms"
  using assms by (auto simp: tcp_frames_inv_def list_all_iff)

interpretation tcp: message_transport tcp_send tcp_ReadMessage tcp_messages tcp_frames_inv tcp_carried
proof
  fix s s' :: bytes and m ms err
  assume inv: "tcp_frames_inv s"
  then obtain ls where ls: "s = concat (map frame ls)" "\<forall>m\<in>set ls. tcp_carried m" "tcp_messages s = ls"
    by (rule tcp_frames_invE)
  have snd: "s' = concat (map frame (ls @ (if tcp_carried m then [m] else [])))"
    if "tcp_send m s = (s', err)" for err
    using that ls(1) by (auto simp: tcp_send_eq tcp_carried_def split: if_splits)
  show "tcp_frames_inv s'" if "tcp_send m s = (s', err)"
    unfolding snd [OF that] using ls(2) by (intro tcp_frames_inv_intro) (cases "tcp_carried m", auto)
  show "\<exists>s'. tcp_send m s = (s', None) \<and> tcp_messages s' = tcp_messages s @ [m]" if "tcp_carried m"
    using that ls tcp_messages_frames [of "ls @ [m]" "[]"]
    by (auto simp: tcp_send_eq tcp_carried_def)
  show "\<exists>s'. tcp_ReadMessage s = (s', Inr m) \<and> tcp_messages s' = ms \<and> tcp_frames_inv s'"
    if p: "tcp_messages s = m # ms"
  proof -
    have l: "ls = m # ms" using p ls(3) by simp
    have "tcp_ReadMessage s = (concat (map frame ms), Inr m)"
      unfolding ls(1) l using tcp_Read_frame ls(2) l by simp
    moreover have "tcp_messages (concat (map frame ms)) = ms"
      using tcp_messages_frames [of ms "[]"] ls(2) l by simp
    moreover have "tcp_frames_inv (concat (map frame ms))" using tcp_frames_inv_intro ls(2) l by simp
    ultimately show ?thesis by blast
  qed
qed (auto simp: tcp_send_eq)

text \<open>
  C8. The framing of the TCP backend keeps the promise of \<open>BackendConnection\<close>: what is read are the
  messages that were written, whole and in the order of writing, less the ones that are empty or
  longer than the MTU, which are not transported; and when the connection breaks anywhere in the stream,
  what is read until the error is a prefix of those messages and never a fragment of one.
\<close>

theorem tcp_whole_messages:
  "tcp_messages (tcp_stream ms) = filter tcp_carried ms
   \<and> prefix (tcp_messages (take k (tcp_stream ms))) (filter tcp_carried ms)"
  using tcp_messages_frames [of "filter tcp_carried ms" "[]"]
    tcp_messages_take_frames [of "filter tcp_carried ms" k]
  by (simp_all add: tcp_stream_frames)

text \<open>A connection of a pair whose reader takes what the writer offers, before any deadline.\<close>

definition pair_send :: "pairBackend \<Rightarrow> bytes \<Rightarrow> bytes list \<Rightarrow> bytes list \<times> go_error option" where
  "pair_send b m ch = (case pair_WriteMessage b 0 False PairChan m ch of Some r \<Rightarrow> r | None \<Rightarrow> (ch, None))"

definition pair_recv :: "pairBackend \<Rightarrow> bytes list \<Rightarrow> bytes list \<times> bytes result" where
  "pair_recv b ch =
     (case pair_ReadMessage b 0 False PairChan ch of Some r \<Rightarrow> r | None \<Rightarrow> (ch, Inl (Errorf ''blocked'')))"

interpretation pair: message_transport "pair_send b" "pair_recv b" "\<lambda>ch. ch" "\<lambda>_. True" "\<lambda>m. length m \<le> pb_mtu b"
  by unfold_locales
    (auto simp: pair_send_def pair_recv_def pair_WriteMessage_def pair_ReadMessage_def split: if_splits)

lemma pair_delivers:
  "pair.recv_n b (length (filter (\<lambda>m. length m \<le> pb_mtu b) ms)) (pair.send_all b ms [])
   = filter (\<lambda>m. length m \<le> pb_mtu b) ms"
  by (rule pair.delivers) simp_all

section \<open>Dialling pauses\<close>

lemma next_timeout_bounds: "t = 0 \<or> second \<le> t \<and> t \<le> 60 * second \<Longrightarrow> second \<le> next_timeout t \<and> next_timeout t \<le> 60 * second"
  by (auto simp: next_timeout_def Let_def)

lemma RunDialer_bounds:
  "t = 0 \<or> second \<le> t \<and> t \<le> 60 * second
   \<Longrightarrow> list_all (\<lambda>w. second \<le> w \<and> w \<le> 60 * second) (fst (RunDialer t evs))"
proof (induction t evs rule: RunDialer.induct)
  case (2 t ctxDone dialed evs)
  note b = next_timeout_bounds [OF "2.prems"]
  have w: "list_all (\<lambda>w. second \<le> w \<and> w \<le> 60 * second) (if t > 0 then [t] else [])" using "2.prems" by auto
  show ?case
  proof (cases "t > 0 \<and> ctxDone")
    case False
    have "list_all (\<lambda>w. second \<le> w \<and> w \<le> 60 * second) (fst (RunDialer (next_timeout t) evs))" if "dialed = Inl e" for e
      using "2.IH"(1) [OF refl False that] b by blast
    moreover have "list_all (\<lambda>w. second \<le> w \<and> w \<le> 60 * second) (fst (RunDialer 0 evs))" if "dialed = Inr c" for c
      using "2.IH"(2) [OF refl False that] by simp
    ultimately show ?thesis using w False by (cases dialed) (auto split: prod.splits)
  qed (use w in simp)
qed simp

text \<open>The pauses of attempts that all fail.\<close>

lemma RunDialer_failing:
  "t > 0 \<Longrightarrow> fst (RunDialer t (replicate n (False, Inl err))) = map (\<lambda>i. (next_timeout ^^ i) t) [0..<n]"
proof (induction n arbitrary: t)
  case (Suc n)
  have "next_timeout t > 0" using Suc.prems by (simp add: next_timeout_def Let_def) linarith
  from Suc.IH [OF this] have "fst (RunDialer (next_timeout t) (replicate n (False, Inl err)))
      = map (\<lambda>i. (next_timeout ^^ Suc i) t) [0..<n]" by (simp add: funpow_swap1)
  moreover have "map (\<lambda>i. (next_timeout ^^ i) t) [0..<Suc n] = t # map (\<lambda>i. (next_timeout ^^ Suc i) t) [0..<n]"
    by (simp only: upt_conv_Cons map_Suc_upt [symmetric]) simp
  ultimately show ?case using Suc.prems by (auto simp del: funpow.simps split: prod.splits)
qed simp

lemma next_timeout_mono: "second \<le> t \<Longrightarrow> t \<le> 60 * second \<Longrightarrow> t \<le> next_timeout t"
  by (simp add: next_timeout_def Let_def) linarith

lemma pauses_bounds: "second \<le> (next_timeout ^^ i) second \<and> (next_timeout ^^ i) second \<le> 60 * second"
  by (induction i) (use next_timeout_bounds in auto)

lemma pauses_mono: "i \<le> j \<Longrightarrow> (next_timeout ^^ i) second \<le> (next_timeout ^^ j) second"
proof (induction j)
  case (Suc j)
  have "(next_timeout ^^ j) second \<le> next_timeout ((next_timeout ^^ j) second)"
    using pauses_bounds [of j] by (intro next_timeout_mono) auto
  then show ?case using Suc le_Suc_eq by auto
qed simp

lemma pauses_cap: "23 \<le> i \<Longrightarrow> (next_timeout ^^ i) second = 60 * second"
proof -
  have "(next_timeout ^^ 23) second = 60 * second"
    by (simp add: next_timeout_def Let_def eval_nat_numeral)
  then show "23 \<le> i \<Longrightarrow> (next_timeout ^^ i) second = 60 * second"
    using pauses_mono [of 23 i] pauses_bounds [of i] by linarith
qed

lemma failing_from_start:
  "fst (RunDialer 0 (replicate n (False, Inl err))) = map (\<lambda>i. (next_timeout ^^ i) second) [0..<n - 1]"
proof (cases n)
  case (Suc m)
  then show ?thesis using RunDialer_failing [of "next_timeout 0" m err]
    by (simp add: next_timeout_def split: prod.splits)
qed simp

text \<open>
  A dialer never spins and never gives up: every pause is at least a second and at most a minute;
  while the dialled peer refuses, the pauses never get shorter, and from the twenty-fourth on they are
  a minute.
\<close>

theorem dial_backoff:
  "list_all (\<lambda>w. second \<le> w \<and> w \<le> 60 * second) (fst (RunDialer 0 evs))
   \<and> sorted (fst (RunDialer 0 (replicate n (False, Inl err))))
   \<and> list_all (\<lambda>w. w = 60 * second) (drop 23 (fst (RunDialer 0 (replicate n (False, Inl err)))))"
proof (intro conjI)
  show "list_all (\<lambda>w. second \<le> w \<and> w \<le> 60 * second) (fst (RunDialer 0 evs))"
    by (rule RunDialer_bounds) simp
  show "sorted (fst (RunDialer 0 (replicate n (False, Inl err))))"
    unfolding failing_from_start sorted_iff_nth_mono using pauses_mono by simp
  show "list_all (\<lambda>w. w = 60 * second) (drop 23 (fst (RunDialer 0 (replicate n (False, Inl err)))))"
    unfolding failing_from_start by (auto simp: drop_map list_all_iff pauses_cap)
qed

section \<open>The channel runner\<close>

text \<open>\<open>errors.Is\<close> on the errors of the model.\<close>

fun errors_Is :: "go_error \<Rightarrow> go_error \<Rightarrow> bool" where
  "errors_Is (Wrapf s e) target \<longleftrightarrow> Wrapf s e = target \<or> errors_Is e target"
| "errors_Is e target \<longleftrightarrow> e = target"

text \<open>
  The reading goroutine: for each read, whether the context is done after it, what it returned, and
  whether the message is taken before the context is done. The result are the messages that were handed on
  and whether the goroutine has returned.
\<close>

fun cr_read_loop :: "(bool \<times> bytes result \<times> bool) list \<Rightarrow> bytes list \<times> bool" where
  "cr_read_loop [] = ([], False)"
| "cr_read_loop ((ctxErr, r, taken) # evs) =
     (if ctxErr then ([], True)
      else case r of
        Inl err \<Rightarrow> if errors_Is err ErrDeadlineExceeded then cr_read_loop evs else ([], True)
      | Inr data \<Rightarrow> if taken then (case cr_read_loop evs of (ds, e) \<Rightarrow> (data # ds, e)) else ([], True))"

text \<open>
  The writing goroutine takes a message from \<open>writeChan\<close> and writes it in a loop of its own, which has no
  exit but \<open>return\<close>: for each write, whether the context is done after it and the error.
\<close>

fun cr_write_loop :: "bytes \<Rightarrow> (bool \<times> go_error option) list \<Rightarrow> bytes list \<times> bool" where
  "cr_write_loop data [] = ([], False)"
| "cr_write_loop data ((ctxErr, err) # evs) =
     (let continue = (case cr_write_loop data evs of (ws, e) \<Rightarrow> (data # ws, e)) in
      if ctxErr then ([data], True)
      else case err of
        None \<Rightarrow> continue
      | Some e \<Rightarrow> if errors_Is e ErrDeadlineExceeded then continue else ([data], True))"

definition cr_writer :: "bytes list \<Rightarrow> (bool \<times> go_error option) list \<Rightarrow> bytes list \<times> bool" where
  "cr_writer writeChan evs = (case writeChan of [] \<Rightarrow> ([], False) | data # _ \<Rightarrow> cr_write_loop data evs)"

text \<open>
  The channel runner writes the first message it is given over and over, for as long as the
  connection takes it, and never gets to a second one.
\<close>

theorem channel_runner_repeats:
  "fst (cr_writer (m # ms) evs) = replicate (length (fst (cr_writer (m # ms) evs))) m
   \<and> cr_writer (m # ms) (replicate n (False, None)) = (replicate n m, False)"
proof -
  have "fst (cr_write_loop m evs) = replicate (length (fst (cr_write_loop m evs))) m"
    by (induction m evs rule: cr_write_loop.induct) (auto simp: Let_def split: option.splits prod.splits)
  moreover have "cr_write_loop m (replicate n (False, None)) = (replicate n m, False)"
    by (induction n) (simp_all add: Let_def)
  ultimately show ?thesis by (simp add: cr_writer_def)
qed

end
