(* ===== verification/BackendConfig.thy ===== *)
theory BackendConfig
  imports Backends
begin

text \<open>
  The dialers and listeners of \<^verbatim>\<open>pkg/backends/backend_tcp\<close> and \<^verbatim>\<open>pkg/backends/backend_dtls\<close> as they are set
  up from the parameters of a configuration, the registry of \<^verbatim>\<open>pkg/backends/backend_registry\<close>, and the
  choice of a node's MTU (\<open>LeastMTU\<close> of \<^verbatim>\<open>pkg/netopus/netopus.go\<close>).

  Certificates and pools of certificates are values of types of their own; \<open>x509_ops\<close> are the two library
  calls that read them. A run function ends by starting the goroutine that dials or accepts; what it
  starts is the value it returns.
\<close>

section \<open>TLS settings\<close>

record ('pool, 'cert) x509_ops =
  x509_AppendCertsFromPEM :: "string \<Rightarrow> 'pool option"   \<comment> \<open>a new pool, when any certificate was read\<close>
  tls_X509KeyPair :: "string \<Rightarrow> string \<Rightarrow> 'cert result"

datatype tls_version = VersionTLS12

datatype client_auth = NoClientCert | RequireAndVerifyClientCert

record ('pool, 'cert) tls_Config =
  tc_MinVersion :: tls_version
  tc_InsecureSkipVerify :: bool
  tc_RootCAs :: "'pool option"
  tc_Certificates :: "'cert list"
  tc_ClientAuth :: client_auth
  tc_ClientCAs :: "'pool option"

definition new_tls_Config :: "('pool, 'cert) tls_Config" where
  "new_tls_Config =
     \<lparr>tc_MinVersion = VersionTLS12, tc_InsecureSkipVerify = False, tc_RootCAs = None, tc_Certificates = [],
      tc_ClientAuth = NoClientCert, tc_ClientCAs = None\<rparr>"

definition wrap_err :: "string \<Rightarrow> 'a result \<Rightarrow> 'a result" where
  "wrap_err s r = (case r of Inl err \<Rightarrow> Inl (Wrapf s err) | Inr x \<Rightarrow> Inr x)"

text \<open>The three optional settings that the two dialers read in the same way.\<close>

definition read_skip_verify :: "Params \<Rightarrow> bool result" where
  "read_skip_verify params =
     (case go_get params ''insecure_skip_verify'' of
        None \<Rightarrow> Inr False
      | Some isv \<Rightarrow> wrap_err ''error parsing insecure_skip_verify'' (ParseBool isv))"

definition read_pool :: "('pool, 'cert) x509_ops \<Rightarrow> Params \<Rightarrow> string \<Rightarrow> 'pool option result" where
  "read_pool x params name =
     (case go_get params name of
        None \<Rightarrow> Inr None
      | Some ca \<Rightarrow>
          (case x509_AppendCertsFromPEM x ca of
             None \<Rightarrow> Inl (Errorf (''failed to parse any certificataes from '' @ name))
           | Some pool \<Rightarrow> Inr (Some pool)))"

definition read_client_cert :: "('pool, 'cert) x509_ops \<Rightarrow> Params \<Rightarrow> 'cert option result" where
  "read_client_cert x params =
     (case go_get params ''client_cert'' of
        None \<Rightarrow> Inr None
      | Some clientCert \<Rightarrow>
          (case go_get params ''client_key'' of
             None \<Rightarrow> Inl (Errorf ''must supply client_key with client_cert'')
           | Some clientKey \<Rightarrow>
               (case tls_X509KeyPair x clientCert clientKey of
                  Inl err \<Rightarrow> Inl (Wrapf ''error parsing client certificate'' err)
                | Inr cert \<Rightarrow> Inr (Some cert))))"

definition read_server_cert :: "('pool, 'cert) x509_ops \<Rightarrow> Params \<Rightarrow> 'cert result" where
  "read_server_cert x params =
     (case go_get params ''server_cert'' of
        None \<Rightarrow> Inl (Errorf ''non-PSK listener requires server_cert'')
      | Some serverCert \<Rightarrow>
          (case go_get params ''server_key'' of
             None \<Rightarrow> Inl (Errorf ''non-PSK listener requires server_key'')
           | Some serverKey \<Rightarrow>
               wrap_err ''error parsing server certificate'' (tls_X509KeyPair x serverCert serverKey)))"

text \<open>The address that both listeners read.\<close>

definition read_listen :: "Params \<Rightarrow> (ip option \<times> 16 word) result" where
  "read_listen params =
     (case GetPort params ''port'' of
        Inl err \<Rightarrow> Inl (Wrapf ''invalid port number in listener'' err)
      | Inr listenPort \<Rightarrow>
          (case go_get params ''listen_ip'' of
             None \<Rightarrow> Inr (None, listenPort)
           | Some _ \<Rightarrow>
               (case GetIP params ''listen_ip'' of
                  Inl err \<Rightarrow> Inl (Wrapf ''invalid listen_ip value'' err)
                | Inr ip \<Rightarrow> Inr (Some ip, listenPort))))"

section \<open>TCP\<close>

record ('pool, 'cert) tcp_Dialer =
  td_DestAddr :: ip
  td_DestPort :: "16 word"
  td_Cost :: f32
  td_TLS :: "('pool, 'cert) tls_Config option"

text \<open>
  What \<open>Run\<close> starts: the destination and the protection of every connection it makes. \<open>dial\<close> is
  \<open>DialContext\<close>; a connection that was made is wrapped when there is a TLS configuration.
\<close>

datatype ('pool, 'cert) transport =
  Plain string
| Tls "('pool, 'cert) tls_Config" string

definition tcp_Dialer_dial :: "(string \<Rightarrow> nat result) \<Rightarrow> ('pool, 'cert) tcp_Dialer \<Rightarrow> (('pool, 'cert) transport \<times> nat \<times> bool) result" where
  "tcp_Dialer_dial dial d =
     (let addr = JoinHostPort (net_IP_String (td_DestAddr d)) (itoa (unat (td_DestPort d)))
      in case dial addr of
           Inl err \<Rightarrow> Inl err
         | Inr conn \<Rightarrow> Inr (case td_TLS d of None \<Rightarrow> Plain addr | Some c \<Rightarrow> Tls c addr, conn, False))"

definition tcp_dialer_config ::
    "(string \<Rightarrow> ip list result) \<Rightarrow> ('pool, 'cert) x509_ops \<Rightarrow> f32 \<Rightarrow> Params \<Rightarrow> ('pool, 'cert) tcp_Dialer result" where
  "tcp_dialer_config lookup x cost params =
     (case GetHostPort lookup params ''peer'' of
        Inl err \<Rightarrow> Inl (Wrapf ''error parsing peer'' err)
      | Inr (ip, port) \<Rightarrow>
          let d = \<lparr>td_DestAddr = ip, td_DestPort = port, td_Cost = cost, td_TLS = None\<rparr> in
          (case GetBool params ''tls'' False of
             Inl err \<Rightarrow> Inl (Wrapf ''error parsing tls'' err)
           | Inr False \<Rightarrow> Inr d
           | Inr True \<Rightarrow>
               (case read_skip_verify params of
                  Inl err \<Rightarrow> Inl err
                | Inr skip \<Rightarrow>
                    (case read_pool x params ''root_ca'' of
                       Inl err \<Rightarrow> Inl err
                     | Inr roots \<Rightarrow>
                         (case read_client_cert x params of
                            Inl err \<Rightarrow> Inl err
                          | Inr cert \<Rightarrow>
                              Inr (d\<lparr>td_TLS := Some (new_tls_Config
                                  \<lparr>tc_InsecureSkipVerify := skip, tc_RootCAs := roots,
                                   tc_Certificates := (case cert of None \<Rightarrow> [] | Some c \<Rightarrow> [c])\<rparr>)\<rparr>))))))"

record ('pool, 'cert) tcp_Listener =
  tl_ListenAddr :: "ip option"
  tl_ListenPort :: "16 word"
  tl_Cost :: f32
  tl_TLS :: "('pool, 'cert) tls_Config option"

text \<open>\<open>listen\<close> is \<open>Listen\<close>: a listening socket, or an error that \<open>Run\<close> returns before it starts anything.\<close>

definition tcp_Listener_Run :: "(string \<Rightarrow> nat result) \<Rightarrow> ('pool, 'cert) tcp_Listener \<Rightarrow> (('pool, 'cert) transport \<times> nat) result" where
  "tcp_Listener_Run listen l =
     (let addr = (case tl_ListenAddr l of
                    None \<Rightarrow> '':'' @ itoa (unat (tl_ListenPort l))
                  | Some ip \<Rightarrow> JoinHostPort (net_IP_String ip) (itoa (unat (tl_ListenPort l))))
      in case listen addr of
           Inl err \<Rightarrow> Inl err
         | Inr li \<Rightarrow> Inr (case tl_TLS l of None \<Rightarrow> Plain addr | Some c \<Rightarrow> Tls c addr, li))"

definition tcp_listener_config ::
    "('pool, 'cert) x509_ops \<Rightarrow> f32 \<Rightarrow> Params \<Rightarrow> ('pool, 'cert) tcp_Listener result" where
  "tcp_listener_config x cost params =
     (case read_listen params of
        Inl err \<Rightarrow> Inl err
      | Inr (listenIP, listenPort) \<Rightarrow>
          let l = \<lparr>tl_ListenAddr = listenIP, tl_ListenPort = listenPort, tl_Cost = cost, tl_TLS = None\<rparr> in
          (case GetBool params ''tls'' False of
             Inl err \<Rightarrow> Inl (Wrapf ''error parsing tls'' err)
           | Inr False \<Rightarrow> Inr l
           | Inr True \<Rightarrow>
               (case read_server_cert x params of
                  Inl err \<Rightarrow> Inl err
                | Inr cert \<Rightarrow>
                    (case GetBool params ''require_client_cert'' False of
                       Inl err \<Rightarrow> Inl (Wrapf ''error parsing require_client_cert'' err)
                     | Inr reqClientCert \<Rightarrow>
                         (case read_pool x params ''client_ca'' of
                            Inl err \<Rightarrow> Inl err
                          | Inr clientCAs \<Rightarrow>
                              Inr (l\<lparr>tl_TLS := Some (new_tls_Config
                                  \<lparr>tc_Certificates := [cert],
                                   tc_ClientAuth := (if reqClientCert then RequireAndVerifyClientCert else NoClientCert),
                                   tc_ClientCAs := clientCAs\<rparr>)\<rparr>))))))"

section \<open>DTLS\<close>

text \<open>The fields of \<open>dtls.Config\<close> that the program sets; \<open>PSK\<close> is the key that the callback returns.\<close>

datatype cipher_suite = TLS_PSK_WITH_AES_128_GCM_SHA256

record ('pool, 'cert) dtls_Config =
  dc_CipherSuites :: "cipher_suite list"
  dc_RequireExtendedMasterSecret :: bool
  dc_PSK :: "string option"
  dc_PSKIdentityHint :: string
  dc_InsecureSkipVerify :: bool
  dc_RootCAs :: "'pool option"
  dc_Certificates :: "'cert list"
  dc_ClientAuth :: client_auth
  dc_ClientCAs :: "'pool option"
  dc_ConnectTimeout :: time

definition new_dtls_Config :: "('pool, 'cert) dtls_Config" where
  "new_dtls_Config =
     \<lparr>dc_CipherSuites = [], dc_RequireExtendedMasterSecret = False, dc_PSK = None, dc_PSKIdentityHint = [],
      dc_InsecureSkipVerify = False, dc_RootCAs = None, dc_Certificates = [], dc_ClientAuth = NoClientCert,
      dc_ClientCAs = None, dc_ConnectTimeout = 30 * second\<rparr>"

definition psk_dtls_Config :: "string \<Rightarrow> ('pool, 'cert) dtls_Config" where
  "psk_dtls_Config psk = new_dtls_Config
     \<lparr>dc_CipherSuites := [TLS_PSK_WITH_AES_128_GCM_SHA256], dc_RequireExtendedMasterSecret := True,
      dc_PSK := Some psk, dc_PSKIdentityHint := ''Connectopus DTLS''\<rparr>"

record ('pool, 'cert) dtls_Dialer =
  dd_DestAddr :: ip
  dd_DestPort :: "16 word"
  dd_Cost :: f32
  dd_PSK :: string
  dd_InsecureSkipVerify :: bool
  dd_RootCAs :: "'pool option"
  dd_ClientCert :: "'cert option"

definition dtls_Dialer_getDtlsConfig :: "('pool, 'cert) dtls_Dialer \<Rightarrow> ('pool, 'cert) dtls_Config" where
  "dtls_Dialer_getDtlsConfig d =
     (if dd_PSK d \<noteq> [] then psk_dtls_Config (dd_PSK d)
      else let c = new_dtls_Config\<lparr>dc_InsecureSkipVerify := dd_InsecureSkipVerify d, dc_RootCAs := dd_RootCAs d\<rparr>
           in case dd_ClientCert d of None \<Rightarrow> c | Some cert \<Rightarrow> c\<lparr>dc_Certificates := [cert]\<rparr>)"

text \<open>\<open>dial\<close> opens the socket and \<open>client\<close> is \<open>dtls.ClientWithContext\<close> on it.\<close>

definition dtls_Dialer_dial ::
    "(string \<Rightarrow> nat result) \<Rightarrow> (nat \<Rightarrow> ('pool, 'cert) dtls_Config \<Rightarrow> nat result) \<Rightarrow> ('pool, 'cert) dtls_Dialer
       \<Rightarrow> (nat \<times> bool) result" where
  "dtls_Dialer_dial dial client d =
     (case dial (JoinHostPort (net_IP_String (dd_DestAddr d)) (itoa (unat (dd_DestPort d)))) of
        Inl err \<Rightarrow> Inl err
      | Inr conn \<Rightarrow>
          (case client conn (dtls_Dialer_getDtlsConfig d) of Inl err \<Rightarrow> Inl err | Inr conn \<Rightarrow> Inr (conn, False)))"

text \<open>The settings that may not stand beside a pre-shared key; the first one that does is reported.\<close>

definition psk_conflict :: "Params \<Rightarrow> string list \<Rightarrow> go_error option" where
  "psk_conflict params names =
     (case find (\<lambda>p. go_get params p \<noteq> None) names of
        None \<Rightarrow> None
      | Some p \<Rightarrow> Some (Errorf (''cannot use certificate setting '' @ p @ '' with PSK'')))"

definition dtls_dialer_config ::
    "(string \<Rightarrow> ip list result) \<Rightarrow> ('pool, 'cert) x509_ops \<Rightarrow> f32 \<Rightarrow> Params \<Rightarrow> ('pool, 'cert) dtls_Dialer result" where
  "dtls_dialer_config lookup x cost params =
     (case GetHostPort lookup params ''peer'' of
        Inl err \<Rightarrow> Inl (Wrapf ''error parsing peer'' err)
      | Inr (ip, port) \<Rightarrow>
          let d = \<lparr>dd_DestAddr = ip, dd_DestPort = port, dd_Cost = cost, dd_PSK = [], dd_InsecureSkipVerify = False,
                   dd_RootCAs = None, dd_ClientCert = None\<rparr> in
          (case go_get params ''psk'' of
             Some psk \<Rightarrow>
               (case psk_conflict params [''insecure_skip_verify'', ''root_ca'', ''client_cert'', ''client_cert_key''] of
                  Some err \<Rightarrow> Inl err
                | None \<Rightarrow> Inr (d\<lparr>dd_PSK := psk\<rparr>))
           | None \<Rightarrow>
               (case read_skip_verify params of
                  Inl err \<Rightarrow> Inl err
                | Inr skip \<Rightarrow>
                    (case read_pool x params ''root_ca'' of
                       Inl err \<Rightarrow> Inl err
                     | Inr roots \<Rightarrow>
                         (case read_client_cert x params of
                            Inl err \<Rightarrow> Inl err
                          | Inr cert \<Rightarrow>
                              Inr (d\<lparr>dd_InsecureSkipVerify := skip, dd_RootCAs := roots, dd_ClientCert := cert\<rparr>))))))"

text \<open>\<open>dl_Certificate\<close> is \<open>None\<close> for the zero \<open>tls.Certificate\<close>.\<close>

record ('pool, 'cert) dtls_Listener =
  dl_ListenAddr :: "ip option"
  dl_ListenPort :: "16 word"
  dl_Cost :: f32
  dl_PSK :: string
  dl_RequireClientCert :: bool
  dl_ClientCAs :: "'pool option"
  dl_Certificate :: "'cert option"

definition dtls_Listener_getDtlsConfig :: "('pool, 'cert) dtls_Listener \<Rightarrow> ('pool, 'cert option) dtls_Config" where
  "dtls_Listener_getDtlsConfig l =
     (if dl_PSK l \<noteq> [] then psk_dtls_Config (dl_PSK l)
      else let c = new_dtls_Config\<lparr>dc_Certificates := [dl_Certificate l], dc_ClientCAs := dl_ClientCAs l\<rparr>
           in if dl_RequireClientCert l then c\<lparr>dc_ClientAuth := RequireAndVerifyClientCert\<rparr> else c)"

text \<open>
  \<open>listen\<close> is \<open>dtls.Listen\<close>. The goroutine that closes the listener when the context is done is started
  before the error is looked at; with an error it would call a method of a nil interface.
\<close>

definition dtls_Listener_Run ::
    "(ip option \<Rightarrow> 16 word \<Rightarrow> ('pool, 'cert option) dtls_Config \<Rightarrow> nat result) \<Rightarrow> ('pool, 'cert) dtls_Listener
       \<Rightarrow> nat result \<times> nat option" where
  "dtls_Listener_Run listen l =
     (case listen (dl_ListenAddr l) (dl_ListenPort l) (dtls_Listener_getDtlsConfig l) of
        Inl err \<Rightarrow> (Inl err, None)
      | Inr li \<Rightarrow> (Inr li, Some li))"

definition dtls_listener_config ::
    "('pool, 'cert) x509_ops \<Rightarrow> f32 \<Rightarrow> Params \<Rightarrow> ('pool, 'cert) dtls_Listener result" where
  "dtls_listener_config x cost params =
     (case read_listen params of
        Inl err \<Rightarrow> Inl err
      | Inr (listenIP, listenPort) \<Rightarrow>
          let l = \<lparr>dl_ListenAddr = listenIP, dl_ListenPort = listenPort, dl_Cost = cost, dl_PSK = [],
                   dl_RequireClientCert = False, dl_ClientCAs = None, dl_Certificate = None\<rparr> in
          (case go_get params ''psk'' of
             Some psk \<Rightarrow>
               (case psk_conflict params [''server_cert'', ''server_cert_key'', ''require_client_cert'', ''client_ca''] of
                  Some err \<Rightarrow> Inl err
                | None \<Rightarrow> Inr (l\<lparr>dl_PSK := psk\<rparr>))
           | None \<Rightarrow>
               (case read_server_cert x params of
                  Inl err \<Rightarrow> Inl err
                | Inr cert \<Rightarrow>
                    (case (case go_get params ''require_client_cert'' of
                             None \<Rightarrow> Inr False
                           | Some rcc \<Rightarrow> wrap_err ''error parsing require_client_cert'' (ParseBool rcc)) of
                       Inl err \<Rightarrow> Inl err
                     | Inr reqClientCert \<Rightarrow>
                         (case read_pool x params ''client_ca'' of
                            Inl err \<Rightarrow> Inl err
                          | Inr clientCAs \<Rightarrow>
                              Inr (l\<lparr>dl_Certificate := Some cert, dl_RequireClientCert := reqClientCert,
                                     dl_ClientCAs := clientCAs\<rparr>))))))"

section \<open>The registry\<close>

text \<open>The functions that are registered; \<open>run_backend\<close> below applies them.\<close>

datatype run_func = DtlsDialer | DtlsListener | TcpDialer | TcpListener

record BackendSpec =
  bs_RunFunc :: run_func
  bs_MTU :: "16 word"

type_synonym registry = "(string, BackendSpec) gomap"

definition LookupBackend :: "registry \<Rightarrow> string \<Rightarrow> BackendSpec option" where
  "LookupBackend backendMap name = go_get backendMap name"

definition RegisterBackend :: "string \<Rightarrow> BackendSpec \<Rightarrow> registry \<Rightarrow> registry" where
  "RegisterBackend name spec backendMap = go_set backendMap name spec"

definition ErrUnknownBackend :: go_error where
  "ErrUnknownBackend = Errorf ''unknown backend''"

definition registry_init :: registry where
  "registry_init =
     (let b = [];
          b = RegisterBackend ''dtls-dialer'' \<lparr>bs_RunFunc = DtlsDialer, bs_MTU = of_nat dtls_MTU\<rparr> b;
          b = RegisterBackend ''dtls-listener'' \<lparr>bs_RunFunc = DtlsListener, bs_MTU = of_nat dtls_MTU\<rparr> b;
          b = RegisterBackend ''tcp-dialer'' \<lparr>bs_RunFunc = TcpDialer, bs_MTU = of_nat tcp_MTU\<rparr> b;
          b = RegisterBackend ''tcp-listener'' \<lparr>bs_RunFunc = TcpListener, bs_MTU = of_nat tcp_MTU\<rparr> b
      in b)"

text \<open>
  The environment of the run functions, and what a node's backend has running after it was started.
\<close>

record ('pool, 'cert) backend_env =
  be_lookup :: "string \<Rightarrow> ip list result"
  be_x509 :: "('pool, 'cert) x509_ops"
  be_listenTCP :: "string \<Rightarrow> nat result"
  be_listenDTLS :: "ip option \<Rightarrow> 16 word \<Rightarrow> ('pool, 'cert option) dtls_Config \<Rightarrow> nat result"

datatype ('pool, 'cert) running =
  RunningDtlsDialer "('pool, 'cert) dtls_Dialer"
| RunningDtlsListener "('pool, 'cert) dtls_Listener" nat
| RunningTcpDialer "('pool, 'cert) tcp_Dialer"
| RunningTcpListener "('pool, 'cert) tcp_Listener" nat

definition RunFromConfig :: "('pool, 'cert) backend_env \<Rightarrow> run_func \<Rightarrow> f32 \<Rightarrow> Params \<Rightarrow> ('pool, 'cert) running result" where
  "RunFromConfig env f cost params =
     (case f of
        DtlsDialer \<Rightarrow>
          (case dtls_dialer_config (be_lookup env) (be_x509 env) cost params of
             Inl err \<Rightarrow> Inl err | Inr d \<Rightarrow> Inr (RunningDtlsDialer d))
      | DtlsListener \<Rightarrow>
          (case dtls_listener_config (be_x509 env) cost params of
             Inl err \<Rightarrow> Inl err
           | Inr l \<Rightarrow>
               (case fst (dtls_Listener_Run (be_listenDTLS env) l) of
                  Inl err \<Rightarrow> Inl err | Inr li \<Rightarrow> Inr (RunningDtlsListener l li)))
      | TcpDialer \<Rightarrow>
          (case tcp_dialer_config (be_lookup env) (be_x509 env) cost params of
             Inl err \<Rightarrow> Inl err | Inr d \<Rightarrow> Inr (RunningTcpDialer d))
      | TcpListener \<Rightarrow>
          (case tcp_listener_config (be_x509 env) cost params of
             Inl err \<Rightarrow> Inl err
           | Inr l \<Rightarrow>
               (case tcp_Listener_Run (be_listenTCP env) l of
                  Inl err \<Rightarrow> Inl err | Inr (_, li) \<Rightarrow> Inr (RunningTcpListener l li))))"

definition RunBackend ::
    "('pool, 'cert) backend_env \<Rightarrow> registry \<Rightarrow> string \<Rightarrow> f32 \<Rightarrow> Params \<Rightarrow> ('pool, 'cert) running result" where
  "RunBackend env backendMap name cost params =
     (case LookupBackend backendMap name of
        None \<Rightarrow> Inl ErrUnknownBackend
      | Some spec \<Rightarrow> RunFromConfig env (bs_RunFunc spec) cost params)"

section \<open>The MTU of a node\<close>

definition backend_params :: "Params option \<Rightarrow> Params" where
  "backend_params b = (case b of None \<Rightarrow> [] | Some p \<Rightarrow> p)"

definition LeastMTU :: "registry \<Rightarrow> Node \<Rightarrow> 16 word \<Rightarrow> 16 word" where
  "LeastMTU backendMap node defaultMTU =
     (let mtu = fold (\<lambda>(_, b) mtu.
            case LookupBackend backendMap (GetString (backend_params b) ''type'' []) of
              None \<Rightarrow> mtu
            | Some spec \<Rightarrow> if bs_MTU spec < mtu then bs_MTU spec else mtu) (nd_Backends node) 65535
      in if mtu = 65535 then defaultMTU else mtu)"

section \<open>Properties\<close>

text \<open>The MTUs of the backends whose type is registered.\<close>

definition known_MTUs :: "registry \<Rightarrow> Node \<Rightarrow> 16 word set" where
  "known_MTUs backendMap node =
     {bs_MTU spec | b spec. b \<in> snd ` set (nd_Backends node)
        \<and> LookupBackend backendMap (GetString (backend_params b) ''type'' []) = Some spec}"

lemma registry_init_eq:
  "registry_init =
     [(''dtls-dialer'', \<lparr>bs_RunFunc = DtlsDialer, bs_MTU = 1452\<rparr>),
      (''dtls-listener'', \<lparr>bs_RunFunc = DtlsListener, bs_MTU = 1452\<rparr>),
      (''tcp-dialer'', \<lparr>bs_RunFunc = TcpDialer, bs_MTU = 1500\<rparr>),
      (''tcp-listener'', \<lparr>bs_RunFunc = TcpListener, bs_MTU = 1500\<rparr>)]"
  by (simp add: registry_init_def RegisterBackend_def dtls_MTU_def tcp_MTU_def)

lemma init_MTU: "LookupBackend registry_init name = Some spec \<Longrightarrow> bs_MTU spec = 1452 \<or> bs_MTU spec = 1500"
  by (auto simp: LookupBackend_def registry_init_eq split: if_splits)

lemma fold_least:
  fixes f :: "'a \<Rightarrow> 'b :: linorder option"
  shows "fold (\<lambda>b m. case f b of None \<Rightarrow> m | Some s \<Rightarrow> if s < m then s else m) bs m
         = Min (insert m (set (List.map_filter f bs)))"
proof -
  have "fold (\<lambda>b m. case f b of None \<Rightarrow> m | Some s \<Rightarrow> if s < m then s else m) bs m = fold min (List.map_filter f bs) m"
    by (induction bs arbitrary: m) (auto simp: min_def map_filter_simps split: option.split)
  then show ?thesis using Min.set_eq_fold [of m "List.map_filter f bs"] by simp
qed

text \<open>
  The MTU of a node is the smallest MTU of the backends in its configuration whose type is known; a
  backend without a type or of an unknown type does not count, and without any known backend it is
  the default.
\<close>

theorem least_mtu:
  "LeastMTU registry_init node d =
     (if known_MTUs registry_init node = {} then d else Min (known_MTUs registry_init node))"
proof -
  let ?f = "\<lambda>nb. map_option bs_MTU (LookupBackend registry_init (GetString (backend_params (snd nb)) ''type'' []))"
  have S: "known_MTUs registry_init node = set (List.map_filter ?f (nd_Backends node))" (is "_ = ?S")
    by (force simp: known_MTUs_def List.map_filter_def)
  have step: "(\<lambda>(_, b) mtu. case LookupBackend registry_init (GetString (backend_params b) ''type'' []) of
        None \<Rightarrow> mtu | Some spec \<Rightarrow> if bs_MTU spec < mtu then bs_MTU spec else mtu)
      = (\<lambda>b m. case ?f b of None \<Rightarrow> m | Some s \<Rightarrow> if s < m then s else m)"
    by (auto simp: fun_eq_iff split: option.splits)
  have small: "s \<in> {1452, 1500}" if "s \<in> ?S" for s using that by (fastforce simp: List.map_filter_def dest: init_MTU)
  show ?thesis
  proof (cases "?S = {}")
    case True
    then show ?thesis unfolding LeastMTU_def step fold_least S Let_def True by simp
  next
    case False
    then have "Min ?S \<in> {1452, 1500}" by (intro small Min_in) simp_all
    then have "Min ?S < 65535" by auto
    moreover have "Min (insert 65535 ?S) = min 65535 (Min ?S)" using False by (intro Min_insert) simp_all
    ultimately have "Min (insert 65535 ?S) = Min ?S" "Min ?S \<noteq> 65535"
      by (simp_all only: min.absorb4 less_imp_neq not_False_eq_True)
    then show ?thesis unfolding LeastMTU_def step fold_least S Let_def using False by simp
  qed
qed

text \<open>Whether the connections of a running backend accept any certificate of the peer.\<close>

fun skips_verification :: "('pool, 'cert) running \<Rightarrow> bool" where
  "skips_verification (RunningDtlsDialer d) \<longleftrightarrow> dc_InsecureSkipVerify (dtls_Dialer_getDtlsConfig d)"
| "skips_verification (RunningTcpDialer d) \<longleftrightarrow> (\<exists>c. td_TLS d = Some c \<and> tc_InsecureSkipVerify c)"
| "skips_verification _ \<longleftrightarrow> False"

text \<open>Whether a running backend admits only clients that show a certificate, or know a key.\<close>

fun requires_client :: "('pool, 'cert) running \<Rightarrow> bool" where
  "requires_client (RunningDtlsListener l _) \<longleftrightarrow>
     dc_ClientAuth (dtls_Listener_getDtlsConfig l) = RequireAndVerifyClientCert
     \<or> dc_PSK (dtls_Listener_getDtlsConfig l) \<noteq> None"
| "requires_client (RunningTcpListener l _) \<longleftrightarrow>
     (\<exists>c. tl_TLS l = Some c \<and> tc_ClientAuth c = RequireAndVerifyClientCert)"
| "requires_client _ \<longleftrightarrow> False"

definition param_true :: "Params \<Rightarrow> string \<Rightarrow> bool" where
  "param_true params name \<longleftrightarrow> (case go_get params name of None \<Rightarrow> False | Some s \<Rightarrow> ParseBool s = Inr True)"

lemmas dialer_defs = tcp_dialer_config_def dtls_dialer_config_def read_skip_verify_def
lemmas listener_defs = tcp_listener_config_def dtls_listener_config_def
lemmas dtls_config_defs = dtls_Dialer_getDtlsConfig_def dtls_Listener_getDtlsConfig_def psk_dtls_Config_def
  new_dtls_Config_def new_tls_Config_def

lemma wrap_err_Inr [simp]: "wrap_err s r = Inr x \<longleftrightarrow> r = Inr x"
  by (cases r) (simp_all add: wrap_err_def)

lemma GetBool_true: "GetBool params name False = Inr True \<Longrightarrow> param_true params name"
  by (auto simp: GetBool_def param_true_def split: option.splits sum.splits)

lemma skip_true: "read_skip_verify params = Inr True \<Longrightarrow> param_true params ''insecure_skip_verify''"
  by (auto simp: read_skip_verify_def param_true_def split: option.splits)

lemma tcp_dialer_skip:
  "tcp_dialer_config lookup x cost params = Inr d \<Longrightarrow> td_TLS d = Some c \<Longrightarrow> tc_InsecureSkipVerify c
   \<Longrightarrow> param_true params ''insecure_skip_verify''"
  by (rule skip_true)
    (auto simp: tcp_dialer_config_def Let_def new_tls_Config_def split: sum.splits bool.splits prod.splits)

lemma dtls_dialer_skip:
  "dtls_dialer_config lookup x cost params = Inr d \<Longrightarrow> dc_InsecureSkipVerify (dtls_Dialer_getDtlsConfig d)
   \<Longrightarrow> param_true params ''insecure_skip_verify''"
  by (rule skip_true)
    (auto simp: dtls_dialer_config_def dtls_config_defs Let_def split: sum.splits option.splits prod.splits if_splits)

lemma tcp_listener_client:
  "tcp_listener_config x cost params = Inr l \<Longrightarrow>
     (\<exists>c. tl_TLS l = Some c \<and> tc_ClientAuth c = RequireAndVerifyClientCert)
     \<longleftrightarrow> GetBool params ''tls'' False = Inr True \<and> GetBool params ''require_client_cert'' False = Inr True"
  by (auto simp: tcp_listener_config_def Let_def new_tls_Config_def split: sum.splits bool.splits prod.splits if_splits)

lemma dtls_listener_client:
  assumes "dtls_listener_config x cost params = Inr l" "param_true params ''require_client_cert''"
  shows "dc_ClientAuth (dtls_Listener_getDtlsConfig l) = RequireAndVerifyClientCert"
proof -
  obtain rcc where rcc: "go_get params ''require_client_cert'' = Some rcc" "ParseBool rcc = Inr True"
    using assms(2) by (auto simp: param_true_def split: option.splits)
  then have "psk_conflict params [''server_cert'', ''server_cert_key'', ''require_client_cert'', ''client_ca''] \<noteq> None"
    by (simp add: psk_conflict_def)
  then show ?thesis using assms(1) rcc
    by (auto simp: dtls_listener_config_def dtls_config_defs Let_def wrap_err_def
        split: sum.splits option.splits prod.splits if_splits)
qed

text \<open>
  C21. A backend that was started from a configuration is as protected as its parameters say: a dialer
  accepts unverified certificates only when \<open>insecure_skip_verify\<close> was set to a true value, and a listener
  whose parameters turn TLS on (which DTLS always has) and ask for client certificates admits no client
  without one. The type of the backend has to be one of the registered ones.
\<close>

theorem backend_protection:
  assumes "RunBackend env registry_init name cost params = Inr r"
  shows "(skips_verification r \<longrightarrow> param_true params ''insecure_skip_verify'')
    \<and> (name = ''dtls-listener'' \<and> param_true params ''require_client_cert'' \<longrightarrow> requires_client r)
    \<and> (name = ''tcp-listener'' \<and> param_true params ''tls'' \<and> param_true params ''require_client_cert'' \<longrightarrow> requires_client r)
    \<and> name \<in> {''dtls-dialer'', ''dtls-listener'', ''tcp-dialer'', ''tcp-listener''}"
proof -
  obtain spec where spec: "LookupBackend registry_init name = Some spec"
      "RunFromConfig env (bs_RunFunc spec) cost params = Inr r"
    using assms by (auto simp: RunBackend_def split: option.splits)
  have names: "name = ''dtls-dialer'' \<and> bs_RunFunc spec = DtlsDialer \<or> name = ''dtls-listener'' \<and> bs_RunFunc spec = DtlsListener
      \<or> name = ''tcp-dialer'' \<and> bs_RunFunc spec = TcpDialer \<or> name = ''tcp-listener'' \<and> bs_RunFunc spec = TcpListener"
    using spec(1) by (auto simp: LookupBackend_def registry_init_eq split: if_splits)
  have b: "GetBool params n False = Inr True" if "param_true params n" for n
    using that by (auto simp: GetBool_def param_true_def split: option.splits)
  show ?thesis
  proof (cases "bs_RunFunc spec")
    case DtlsDialer
    then obtain d where "dtls_dialer_config (be_lookup env) (be_x509 env) cost params = Inr d" "r = RunningDtlsDialer d"
      using spec(2) by (auto simp: RunFromConfig_def split: sum.splits)
    then show ?thesis using DtlsDialer names dtls_dialer_skip by auto
  next
    case TcpDialer
    then obtain d where "tcp_dialer_config (be_lookup env) (be_x509 env) cost params = Inr d" "r = RunningTcpDialer d"
      using spec(2) by (auto simp: RunFromConfig_def split: sum.splits)
    then show ?thesis using TcpDialer names tcp_dialer_skip by auto
  next
    case DtlsListener
    then obtain l li where "dtls_listener_config (be_x509 env) cost params = Inr l" "r = RunningDtlsListener l li"
      using spec(2) by (auto simp: RunFromConfig_def split: sum.splits)
    then show ?thesis using DtlsListener names dtls_listener_client by auto
  next
    case TcpListener
    then obtain l li where "tcp_listener_config (be_x509 env) cost params = Inr l" "r = RunningTcpListener l li"
      using spec(2) by (auto simp: RunFromConfig_def split: sum.splits)
    then show ?thesis using TcpListener names b [of "''tls''"] b [of "''require_client_cert''"]
        tcp_listener_client [of "be_x509 env" cost params l] by auto
  qed
qed

text \<open>A listener whose certificates are their own text.\<close>

definition ex_env :: "(string, string) backend_env" where
  "ex_env = \<lparr>be_lookup = \<lambda>_. Inr [], be_x509 = \<lparr>x509_AppendCertsFromPEM = Some, tls_X509KeyPair = \<lambda>c k. Inr c\<rparr>,
             be_listenTCP = \<lambda>_. Inr 1, be_listenDTLS = \<lambda>_ _ _. Inr 2\<rparr>"

definition ex_params :: Params where
  "ex_params = [(''port'', ''7''), (''tls'', ''true''), (''server_cert'', ''c''), (''server_key'', ''k''),
                (''require_client_cert'', ''true''), (''client_ca'', ''ca'')]"

theorem backend_protection_witness:
  "\<exists>r. RunBackend ex_env registry_init ''tcp-listener'' (Fin 1) ex_params = Inr r \<and> requires_client r"
proof -
  have "\<exists>r. RunBackend ex_env registry_init ''tcp-listener'' (Fin 1) ex_params = Inr r"
    by (simp add: RunBackend_def LookupBackend_def registry_init_eq RunFromConfig_def tcp_listener_config_def
        read_listen_def GetPort_def GetBool_def read_server_cert_def read_pool_def ex_env_def ex_params_def
        ParseUint16_def ParseBool_def dec_val_def wrap_err_def tcp_Listener_Run_def Let_def)
  moreover have "param_true ex_params ''tls''" "param_true ex_params ''require_client_cert''"
    by (simp_all add: param_true_def ex_params_def ParseBool_def)
  ultimately show ?thesis using backend_protection [of ex_env "''tcp-listener''" "Fin 1" ex_params] by blast
qed

text \<open>
  The name in the list of settings that exclude a pre-shared key is not the name of the setting: a
  \<open>client_key\<close> beside a \<open>psk\<close> is accepted, and ignored.
\<close>

lemma psk_beside_client_key:
  "dtls_dialer_config lookup x cost [(''peer'', ''10.0.0.1:1''), (''psk'', ''s''), (''client_key'', ''k'')]
   = dtls_dialer_config lookup x cost [(''peer'', ''10.0.0.1:1''), (''psk'', ''s'')]"
  by (simp add: dtls_dialer_config_def psk_conflict_def GetHostPort_def split: sum.split)

end
