(* ===== verification/Dns.thy ===== *)
theory Dns
  imports Config RoutingUpdates
begin

text \<open>
  \<^verbatim>\<open>pkg/dns/dns.go\<close>: the name server of a node, which answers for the names of the network and for the
  reverse names of its addresses.

  \<^verbatim>\<open>github.com/miekg/dns\<close> is outside the repository. A handler is given the operation code and the
  questions that \<open>SetReply\<close> has copied, \<open>newRR\<close> is \<open>dns.NewRR\<close>, and the reply is the message that is
  written. The functions of \<open>strings\<close> are those of the Go library.
\<close>

section \<open>Strings\<close>

definition TrimSuffix :: "string \<Rightarrow> string \<Rightarrow> string" where
  "TrimSuffix s suf =
     (if length suf \<le> length s \<and> drop (length s - length suf) s = suf then take (length s - length suf) s else s)"

fun split_on :: "char \<Rightarrow> string \<Rightarrow> string list" where
  "split_on d [] = [[]]"
| "split_on d (c # cs) =
     (if c = d then [] # split_on d cs else (case split_on d cs of [] \<Rightarrow> [[c]] | p # ps \<Rightarrow> (c # p) # ps))"

section \<open>The handlers\<close>

datatype qtype = TypeAAAA | TypePTR | OtherType nat

datatype opcode = OpcodeQuery | OtherOpcode nat

datatype rcode = RcodeSuccess | RcodeNameError

record question =
  q_Name :: string
  q_Qtype :: qtype

record 'rr dns_Msg =
  m_Answer :: "'rr list"
  m_Authoritative :: bool
  m_Rcode :: rcode

record dns_Server =
  srv_Domain :: string
  srv_LookupName :: "string \<Rightarrow> ip"
  srv_LookupIP :: "ip \<Rightarrow> string"

definition reply0 :: "'rr dns_Msg" where
  "reply0 = \<lparr>m_Answer = [], m_Authoritative = False, m_Rcode = RcodeSuccess\<rparr>"

definition add_answer :: "(string \<Rightarrow> 'rr result) \<Rightarrow> string \<Rightarrow> 'rr dns_Msg \<Rightarrow> 'rr dns_Msg" where
  "add_answer newRR text m =
     (case newRR text of
        Inl err \<Rightarrow> m
      | Inr rr \<Rightarrow> m\<lparr>m_Answer := m_Answer m @ [rr], m_Authoritative := True\<rparr>)"

definition handle_AAAA :: "dns_Server \<Rightarrow> (string \<Rightarrow> 'rr result) \<Rightarrow> question \<Rightarrow> 'rr dns_Msg \<Rightarrow> 'rr dns_Msg" where
  "handle_AAAA s newRR q m =
     (if q_Qtype q = TypeAAAA then
        (let qs = TrimSuffix (q_Name q) ''.'';
             qs = TrimSuffix qs (srv_Domain s);
             qs = TrimSuffix qs ''.'';
             ip = srv_LookupName s qs
         in if length ip > 0 then add_answer newRR (q_Name q @ '' AAAA '' @ IP_String ip) m
            else m\<lparr>m_Rcode := RcodeNameError\<rparr>)
      else m)"

text \<open>
  The loop over the labels from the last to the first; the second argument is one more than the index,
  and \<open>None\<close> is \<open>good = false\<close>.
\<close>

fun ptr_loop :: "string list \<Rightarrow> nat \<Rightarrow> string \<Rightarrow> string option" where
  "ptr_loop parts 0 forwardAddr = Some forwardAddr"
| "ptr_loop parts (Suc i) forwardAddr =
     (let p = parts ! i in
      if length p \<noteq> 1 then None
      else ptr_loop parts i (forwardAddr @ p @ (if i mod 4 = 0 \<and> i \<noteq> 0 then '':'' else '''')))"

definition ptr_address :: "string \<Rightarrow> ip" where
  "ptr_address name =
     (let qs = TrimSuffix name ''.'';
          qs = TrimSuffix qs ''.ip6.arpa'';
          parts = split_on CHR ''.'' qs
      in case (if length parts = 32 then ptr_loop parts 32 [] else Some []) of
           None \<Rightarrow> []
         | Some forwardAddr \<Rightarrow> ParseIP forwardAddr)"

definition handle_PTR :: "dns_Server \<Rightarrow> (string \<Rightarrow> 'rr result) \<Rightarrow> question \<Rightarrow> 'rr dns_Msg \<Rightarrow> 'rr dns_Msg" where
  "handle_PTR s newRR q m =
     (if q_Qtype q = TypePTR then
        (let ip = ptr_address (q_Name q) in
         if ip \<noteq> [] then
           (let name = srv_LookupIP s ip in
            if length name > 0
            then add_answer newRR (q_Name q @ '' PTR '' @ name @ ''.'' @ srv_Domain s @ ''.'') m
            else m\<lparr>m_Rcode := RcodeNameError\<rparr>)
         else m)
      else m)"

definition serve_name :: "dns_Server \<Rightarrow> (string \<Rightarrow> 'rr result) \<Rightarrow> opcode \<Rightarrow> question list \<Rightarrow> 'rr dns_Msg" where
  "serve_name s newRR opc qs = (if opc = OpcodeQuery then fold (handle_AAAA s newRR) qs reply0 else reply0)"

definition serve_reverse :: "dns_Server \<Rightarrow> (string \<Rightarrow> 'rr result) \<Rightarrow> opcode \<Rightarrow> question list \<Rightarrow> 'rr dns_Msg" where
  "serve_reverse s newRR opc qs = (if opc = OpcodeQuery then fold (handle_PTR s newRR) qs reply0 else reply0)"

text \<open>
  \<open>Run\<close> waits 100 ms for an error of the server before it lets it run; after that errors are only logged.
  The result is what \<open>Run\<close> has returned, if it has, and whether the sockets were closed.
\<close>

datatype dns_event = ErrChan go_error | TimerC | CtxDone

fun dns_monitor :: "dns_event list \<Rightarrow> bool" where
  "dns_monitor [] = False"
| "dns_monitor (CtxDone # evs) = True"
| "dns_monitor (_ # evs) = dns_monitor evs"

fun dns_startup :: "bool \<Rightarrow> dns_event list \<Rightarrow> go_error option option \<times> bool" where
  "dns_startup ctxDone [] = (None, False)"
| "dns_startup ctxDone (ErrChan err # evs) = (Some (Some err), True)"
| "dns_startup ctxDone (TimerC # evs) = (Some None, ctxDone \<or> dns_monitor evs)"
| "dns_startup ctxDone (CtxDone # evs) = dns_startup True evs"

definition dns_Run :: "dns_event list \<Rightarrow> go_error option option \<times> bool" where
  "dns_Run evs = dns_startup False evs"

section \<open>Reverse names\<close>

text \<open>The reverse name of an address (RFC 3596, section 2.5): its nibbles, the last one first.\<close>

definition nibbles :: "ip \<Rightarrow> nat list" where
  "nibbles a = concat (map (\<lambda>b. [unat b div 16, unat b mod 16]) a)"

definition reverse_name :: "ip \<Rightarrow> string" where
  "reverse_name a = concat (map (\<lambda>d. [hex_digit d, CHR ''.'']) (rev (nibbles a))) @ ''ip6.arpa.''"

definition quad :: "nat \<Rightarrow> nat list" where
  "quad g = [g div 4096, g div 256 mod 16, g div 16 mod 16, g mod 16]"

definition hex4 :: "nat \<Rightarrow> string" where
  "hex4 g = map hex_digit (quad g)"

lemma quad_ok: "g < 65536 \<Longrightarrow> list_all (\<lambda>d. d < 16) (quad g)"
  by (simp add: quad_def)

interpretation h4: hex_printer hex4
proof
  fix n :: nat and rest
  assume n: "n < 65536" and r: "rest = [] \<or> hex_val (hd rest) = None"
  have "n div 4096 * 16 + n div 256 mod 16 = n div 256" "n div 256 * 16 + n div 16 mod 16 = n div 16"
    using div_mult_mod_eq [of "n div 256" 16] div_mult_mod_eq [of "n div 16" 16]
    by (simp_all add: div_mult2_eq [symmetric])
  then have "((n div 4096 * 16 + n div 256 mod 16) * 16 + n div 16 mod 16) * 16 + n mod 16 = n"
    using div_mult_mod_eq [of n 16] by (simp only:)
  then show "hex_group (hex4 n @ rest) 0 0 = Some (length (hex4 n), n, rest)"
    using n hex_group_stop [OF r] by (simp add: hex4_def quad_def hex_digit_val)
next
  fix n :: nat
  assume "n < 65536"
  then show "\<exists>c cs. hex4 n = c # cs \<and> c \<noteq> CHR '':'' \<and> c \<noteq> CHR ''.''"
    using hex_digit_neq [of "n div 4096"] by (simp add: hex4_def quad_def)
qed

lemma length_quad [simp]: "length (quad g) = 4"
  by (simp add: quad_def)

lemma pair_nibbles: "x < 256 \<Longrightarrow> y < 256 \<Longrightarrow> quad (x * 256 + y) = [x div 16, x mod 16, y div 16, y mod 16]"
proof -
  assume "x < 256" "y < 256"
  then have d256: "(x * 256 + y) div 256 = x" by simp
  moreover have "(x * 256 + y) div 4096 = (x * 256 + y) div 256 div 16" by (simp add: div_mult2_eq [symmetric])
  moreover have e: "y + (x * 16) * 16 = x * 256 + y" by simp
  then have "(x * 256 + y) div 16 = x * 16 + y div 16" "(x * 256 + y) mod 16 = y mod 16"
    unfolding e [symmetric] by (simp_all only: div_mult_self1 mod_mult_self1 numeral_neq_zero not_False_eq_True simp_thms)
  moreover have "(x * 16 + y div 16) mod 16 = y div 16" using \<open>y < 256\<close> by simp
  ultimately show ?thesis unfolding quad_def by (simp only:)
qed

lemma nth_concat_quads:
  "k < length gs \<Longrightarrow> j < 4 \<Longrightarrow> concat (map quad gs) ! (4 * k + j) = quad (gs ! k) ! j"
proof (induction gs arbitrary: k)
  case (Cons g gs)
  then show ?case by (cases k) (simp_all add: nth_append)
qed simp

lemma nibbles_quads: "length a = 16 \<Longrightarrow> nibbles a = concat (map quad (addr_groups a))"
proof -
  assume "length a = 16"
  then obtain b0 b1 b2 b3 b4 b5 b6 b7 b8 b9 b10 b11 b12 b13 b14 b15 where
    a: "a = [b0, b1, b2, b3, b4, b5, b6, b7, b8, b9, b10, b11, b12, b13, b14, b15]"
    by (auto simp: numeral_eq_Suc length_Suc_conv)
  have u: "unat b < 256" for b :: byte using unsigned_less [of b] by simp
  show ?thesis unfolding a nibbles_def addr_groups_def upt8 v6u16_def
    by (simp add: pair_nibbles u)
qed

lemma ptr_loop_label:
  "parts ! i = [c] \<Longrightarrow>
   ptr_loop parts (Suc i) acc = ptr_loop parts i (acc @ c # (if i mod 4 = 0 \<and> i \<noteq> 0 then '':'' else ''''))"
  by simp

lemma ptr_loop_group:
  assumes "\<And>j. j < 4 \<Longrightarrow> parts ! (4 * k + 3 - j) = [cs ! j]" "length cs = 4"
  shows "ptr_loop parts (4 * Suc k) acc = ptr_loop parts (4 * k) (acc @ cs @ (if k = 0 then '''' else '':''))"
proof -
  obtain a b c d where cs: "cs = [a, b, c, d]" using assms(2) by (auto simp: numeral_eq_Suc length_Suc_conv)
  have m: "Suc (Suc (Suc (4 * k))) mod 4 \<noteq> 0" "Suc (Suc (4 * k)) mod 4 \<noteq> 0" "Suc (4 * k) mod 4 \<noteq> 0" by presburger+
  have i: "4 * k + 3 - 0 = Suc (Suc (Suc (4 * k)))" "4 * k + 3 - 1 = Suc (Suc (4 * k))"
      "4 * k + 3 - 2 = Suc (4 * k)" "4 * k + 3 - 3 = 4 * k" by simp_all
  have p: "parts ! Suc (Suc (Suc (4 * k))) = [a]" "parts ! Suc (Suc (4 * k)) = [b]" "parts ! Suc (4 * k) = [c]"
      "parts ! (4 * k) = [d]"
    using assms(1) [of 0] assms(1) [of 1] assms(1) [of 2] assms(1) [of 3] unfolding i cs by simp_all
  have "4 * Suc k = Suc (Suc (Suc (Suc (4 * k))))" by simp
  then show ?thesis
    by (simp only: ptr_loop_label [OF p(1)] ptr_loop_label [OF p(2)] ptr_loop_label [OF p(3)] ptr_loop_label [OF p(4)] m cs)
      simp
qed

lemma ptr_loop_groups:
  assumes "\<And>k j. k < length rgs \<Longrightarrow> j < 4 \<Longrightarrow> parts ! (4 * k + 3 - j) = [hex_digit (quad (rgs ! k) ! j)]"
  shows "ptr_loop parts (4 * length rgs) acc = Some (acc @ join_with hex4 (rev rgs))"
  using assms
proof (induction rgs arbitrary: acc rule: rev_induct)
  case (snoc g rgs)
  let ?k = "length rgs"
  have nth: "parts ! (4 * ?k + 3 - j) = [hex_digit (quad g ! j)]" if "j < 4" for j
    using snoc.prems [of ?k j] that by simp
  have "ptr_loop parts (4 * Suc ?k) acc = ptr_loop parts (4 * ?k) (acc @ hex4 g @ (if ?k = 0 then '''' else '':''))"
    by (rule ptr_loop_group) (simp_all add: hex4_def nth)
  also have "\<dots> = Some (acc @ hex4 g @ (if ?k = 0 then '''' else '':'') @ join_with hex4 (rev rgs))"
    using snoc.IH [of "acc @ hex4 g @ (if ?k = 0 then '''' else '':'')"] snoc.prems
    by (simp add: nth_append)
  also have "hex4 g @ (if ?k = 0 then '''' else '':'') @ join_with hex4 (rev rgs) = join_with hex4 (rev (rgs @ [g]))"
    by (cases "rev rgs") auto
  finally show ?case by simp
qed simp

lemma split_on_labels:
  "\<forall>c\<in>set cs. c \<noteq> d \<Longrightarrow> cs \<noteq> [] \<Longrightarrow>
   split_on d (concat (map (\<lambda>c. [c, d]) (butlast cs)) @ [last cs]) = map (\<lambda>c. [c]) cs"
proof (induction cs rule: induct_list012)
  case (3 c e cs)
  then show ?case by (simp split: list.splits)
qed simp_all

lemma TrimSuffix_append [simp]: "TrimSuffix (s @ suf) suf = s"
  by (simp add: TrimSuffix_def)

lemma reverse_name_parts:
  assumes "length a = 16"
  shows "split_on CHR ''.'' (TrimSuffix (TrimSuffix (reverse_name a) ''.'') ''.ip6.arpa'')
    = map (\<lambda>d. [hex_digit d]) (rev (nibbles a))"
proof -
  let ?cs = "map hex_digit (rev (nibbles a))"
  have len: "length (nibbles a) = 32" using nibbles_quads [OF assms] by (simp add: length_concat addr_groups_def upt8)
  then have ne: "?cs \<noteq> []" by auto
  have "unat b < 256" for b :: byte using unsigned_less [of b] by simp
  then have "list_all (\<lambda>d. d < 16) (nibbles a)"
    by (auto simp: nibbles_def list_all_iff less_mult_imp_div_less)
  then have "\<forall>c\<in>set ?cs. c \<noteq> CHR ''.''" using hex_digit_neq by (auto simp: list_all_iff)
  moreover have "concat (map (\<lambda>c. [c, CHR ''.'']) ?cs) = concat (map (\<lambda>c. [c, CHR ''.'']) (butlast ?cs)) @ [last ?cs] @ ''.''"
    by (cases ?cs rule: rev_cases) (use ne in simp_all)
  then have "reverse_name a = ((concat (map (\<lambda>c. [c, CHR ''.'']) (butlast ?cs)) @ [last ?cs]) @ ''.ip6.arpa'') @ ''.''"
    by (simp add: reverse_name_def comp_def)
  ultimately show ?thesis using split_on_labels [OF _ ne] by (simp only: TrimSuffix_append) (simp add: comp_def)
qed

text \<open>The forward address is the address in full groups.\<close>

lemma ptr_address_reverse:
  assumes "length a = 16"
  shows "ptr_address (reverse_name a) = (case net_To4 a of Some a4 \<Rightarrow> a4 | None \<Rightarrow> a)"
proof -
  let ?parts = "map (\<lambda>d. [hex_digit d]) (rev (nibbles a))" and ?rgs = "rev (addr_groups a)"
  have len: "length (nibbles a) = 32" using nibbles_quads [OF assms] by (simp add: length_concat addr_groups_def upt8)
  have "?parts ! (4 * k + 3 - j) = [hex_digit (quad (?rgs ! k) ! j)]" if "k < length ?rgs" "j < 4" for k j
  proof -
    have k: "k < 8" "4 * k + 3 - j < 32" using that by simp_all
    have "32 - Suc (4 * k + 3 - j) = 4 * (7 - k) + j" using k that(2) by (cases "k = 7") auto
    then have "?parts ! (4 * k + 3 - j) = [hex_digit (nibbles a ! (4 * (7 - k) + j))]"
      using k len by (simp add: rev_nth)
    moreover have "nibbles a ! (4 * (7 - k) + j) = quad (?rgs ! k) ! j"
      unfolding nibbles_quads [OF assms] using k that(2) by (simp add: nth_concat_quads rev_nth)
    ultimately show ?thesis by simp
  qed
  from ptr_loop_groups [of ?rgs ?parts "[]", OF this]
  have loop: "ptr_loop ?parts 32 [] = Some (join_with hex4 (addr_groups a))" by simp
  have "find is_sep (join_with hex4 (addr_groups a)) = Some CHR '':''"
    using find_digits [OF quad_ok [OF v6u16_bound]] by (simp add: addr_groups_def upt8 hex4_def)
  then have parse: "netip_ParseAddr (join_with hex4 (addr_groups a)) = Some a"
    using h4.parseIPv6_full [of "addr_groups a"] groups_bytes_addr [OF assms] by (simp add: netip_ParseAddr_def)
  show ?thesis
    unfolding ptr_address_def Let_def reverse_name_parts [OF assms] using loop len parse assms
    by (simp add: ParseIP_To4 addr_As16_def split: option.split)
qed

section \<open>Answers\<close>

text \<open>The server of a node: its names are those that the node knows.\<close>

definition node_dns :: "string \<Rightarrow> netopus \<Rightarrow> dns_Server" where
  "node_dns domain n = \<lparr>srv_Domain = domain, srv_LookupName = LookupName n, srv_LookupIP = LookupIP n\<rparr>"

text \<open>
  C24. A reverse query for an address is answered from that very address: the labels of the query name are
  put together to the address whose reverse name it is, and the answer is the name the node has for
  it, or a name error when it has none.
\<close>

theorem reverse_query_answered:
  assumes "length a = 16" "net_To4 a = None"
  shows "serve_reverse (node_dns domain n) newRR OpcodeQuery [\<lparr>q_Name = reverse_name a, q_Qtype = TypePTR\<rparr>] =
    (if LookupIP n a = [] then reply0\<lparr>m_Rcode := RcodeNameError\<rparr>
     else add_answer newRR (reverse_name a @ '' PTR '' @ LookupIP n a @ ''.'' @ domain @ ''.'') reply0)"
proof -
  have "ptr_address (reverse_name a) = a" "a \<noteq> []" using ptr_address_reverse [OF assms(1)] assms by auto
  then show ?thesis by (simp add: serve_reverse_def handle_PTR_def node_dns_def)
qed

definition ex_dns_node :: netopus where
  "ex_dns_node = (case netopus_New ([0xfd] @ replicate 14 0 @ [1]) ''foo'' [] (Inr ()) 0 of Inr n \<Rightarrow> n)"

theorem reverse_query_answered_witness:
  "m_Answer (serve_reverse (node_dns ''net'' ex_dns_node) Inr OpcodeQuery
      [\<lparr>q_Name = reverse_name ([0xfd] @ replicate 14 0 @ [1]), q_Qtype = TypePTR\<rparr>])
   = [reverse_name ([0xfd] @ replicate 14 0 @ [1]) @ '' PTR foo.net.'']"
proof -
  have "LookupIP ex_dns_node ([0xfd] @ replicate 14 0 @ [1]) = ''foo''"
    by (simp add: ex_dns_node_def netopus_New_def LookupIP_def)
  then show ?thesis
    using reverse_query_answered [of "[0xfd] @ replicate 14 0 @ [1]" "''net''" ex_dns_node Inr]
    by (simp add: net_To4_def byte_slice_def isZeros_def add_answer_def reply0_def)
qed

text \<open>
  A query for the address of a name is answered with what the node knows of the name in front of the
  domain, and with a name error when it knows none.
\<close>

theorem name_query_answered:
  "serve_name (node_dns domain n) newRR OpcodeQuery [\<lparr>q_Name = host @ ''.'' @ domain @ ''.'', q_Qtype = TypeAAAA\<rparr>] =
    (if LookupName n host = [] then reply0\<lparr>m_Rcode := RcodeNameError\<rparr>
     else add_answer newRR (host @ ''.'' @ domain @ ''. AAAA '' @ IP_String (LookupName n host)) reply0)"
proof -
  have "TrimSuffix (TrimSuffix (TrimSuffix (host @ ''.'' @ domain @ ''.'') ''.'') domain) ''.'' = host"
    using TrimSuffix_append [of "host @ ''.'' @ domain" "''.''"] TrimSuffix_append [of "host @ ''.''" domain] by simp
  then show ?thesis by (simp add: serve_name_def handle_AAAA_def node_dns_def Let_def)
qed

text \<open>A reverse name that does not have 32 labels is answered with success and no record.\<close>

lemma short_reverse_name:
  assumes "length (split_on CHR ''.'' (TrimSuffix (TrimSuffix name ''.'') ''.ip6.arpa'')) \<noteq> 32"
  shows "serve_reverse s newRR OpcodeQuery [\<lparr>q_Name = name, q_Qtype = TypePTR\<rparr>] = reply0"
  using assms by (simp add: serve_reverse_def handle_PTR_def ptr_address_def Let_def ParseIP_def net_ParseIP_def netip_ParseAddr_def)

text \<open>Whenever \<open>Run\<close> fails, and whenever the context is done after it succeeded, the sockets are closed.\<close>

lemma dns_sockets_closed:
  "fst (dns_Run evs) = Some (Some err) \<Longrightarrow> snd (dns_Run evs)"
  "fst (dns_Run (evs @ [CtxDone])) = Some None \<Longrightarrow> snd (dns_Run (evs @ [CtxDone]))"
proof -
  have m: "dns_monitor (evs @ [CtxDone])" for evs by (induction evs rule: dns_monitor.induct) auto
  have "fst (dns_startup d evs) = Some (Some err) \<Longrightarrow> snd (dns_startup d evs)" for d
    by (induction d evs rule: dns_startup.induct) auto
  then show "fst (dns_Run evs) = Some (Some err) \<Longrightarrow> snd (dns_Run evs)" by (simp add: dns_Run_def)
  have "fst (dns_startup d (evs @ [CtxDone])) = Some None \<Longrightarrow> snd (dns_startup d (evs @ [CtxDone]))" for d
    by (induction d evs rule: dns_startup.induct) (simp_all add: m)
  then show "fst (dns_Run (evs @ [CtxDone])) = Some None \<Longrightarrow> snd (dns_Run (evs @ [CtxDone]))"
    by (simp add: dns_Run_def)
qed

end
