(* ===== verification/Services.thy ===== *)
theory Services
  imports Config
begin

text \<open>
  \<^verbatim>\<open>pkg/services/services.go\<close>: a service runs a command for every connection to its port.

  The command line is split by \<open>shlex.Split\<close>, an argument; so are the results of listening and accepting,
  and of creating and running the command. An operation that panics has the value \<open>None\<close>.
\<close>

section \<open>Commands\<close>

text \<open>The results of \<open>StdinPipe\<close>, \<open>StderrPipe\<close>, \<open>Start\<close> and \<open>Wait\<close>.\<close>

record command_env =
  ce_StdinPipe :: "go_error option"
  ce_StderrPipe :: "go_error option"
  ce_Start :: "go_error option"
  ce_Wait :: "go_error option"

record command_run =
  cr_program :: string
  cr_args :: "string list"
  cr_started :: bool
  cr_connClosed :: bool
  cr_err :: "go_error option"

text \<open>\<open>args[0]\<close> panics when there is no program.\<close>

definition runCommand :: "command_env \<Rightarrow> string list \<Rightarrow> command_run option" where
  "runCommand e args =
     (case args of
        [] \<Rightarrow> None
      | prog # rest \<Rightarrow>
          let r = \<lparr>cr_program = prog, cr_args = rest, cr_started = False, cr_connClosed = True, cr_err = None\<rparr> in
          Some (case ce_StdinPipe e of Some err \<Rightarrow> r\<lparr>cr_err := Some err\<rparr>
                | None \<Rightarrow>
                   (case ce_StderrPipe e of Some err \<Rightarrow> r\<lparr>cr_err := Some err\<rparr>
                    | None \<Rightarrow>
                       (case ce_Start e of Some err \<Rightarrow> r\<lparr>cr_err := Some err\<rparr>
                        | None \<Rightarrow> r\<lparr>cr_started := True, cr_err := ce_Wait e\<rparr>))))"

section \<open>Accepting\<close>

definition next_delay :: "time \<Rightarrow> time" where
  "next_delay tempDelay =
     (let t = (if tempDelay = 0 then 5 * millisecond else tempDelay * 2) in if t > second then second else t)"

text \<open>
  \<open>acceptLoop\<close>: for each \<open>Accept\<close>, whether the context is done after it and what it returned. The result
  are the pauses, the connections a command was run for, and whether the loop has returned.
\<close>

fun acceptLoop :: "time \<Rightarrow> (bool \<times> nat result) list \<Rightarrow> time list \<times> nat list \<times> bool" where
  "acceptLoop tempDelay [] = ([], [], False)"
| "acceptLoop tempDelay ((ctxErr, r) # evs) =
     (if ctxErr then ([], [], True)
      else case r of
        Inl err \<Rightarrow> (case acceptLoop (next_delay tempDelay) evs of (ds, cs, e) \<Rightarrow> (next_delay tempDelay # ds, cs, e))
      | Inr conn \<Rightarrow> (case acceptLoop 0 evs of (ds, cs, e) \<Rightarrow> (ds, conn # cs, e)))"

text \<open>\<open>RunService\<close>: the listener and the arguments of the command that its accept loop runs.\<close>

definition RunService ::
    "(string \<Rightarrow> string list result) \<Rightarrow> (16 word \<Rightarrow> nat result) \<Rightarrow> Service \<Rightarrow> (nat \<times> string list) result" where
  "RunService shlex_Split listenTCP service =
     (case shlex_Split (svc_Command service) of
        Inl err \<Rightarrow> Inl err
      | Inr args \<Rightarrow>
          (case listenTCP (of_int (svc_Port service)) of
             Inl err \<Rightarrow> Inl err
           | Inr li \<Rightarrow> Inr (li, args)))"

section \<open>Properties\<close>

lemma next_delay_bounds:
  "t = 0 \<or> 5 * millisecond \<le> t \<and> t \<le> second \<Longrightarrow> 5 * millisecond \<le> next_delay t \<and> next_delay t \<le> second"
  by (auto simp: next_delay_def Let_def)

lemma acceptLoop_delays:
  "t = 0 \<or> 5 * millisecond \<le> t \<and> t \<le> second
   \<Longrightarrow> list_all (\<lambda>d. 5 * millisecond \<le> d \<and> d \<le> second) (fst (acceptLoop t evs))"
proof (induction t evs rule: acceptLoop.induct)
  case (2 t ctxErr r evs)
  note b = next_delay_bounds [OF "2.prems"]
  show ?case
  proof (cases ctxErr)
    case False
    then show ?thesis using "2.IH"(1) [OF False] "2.IH"(2) [OF False] b
      by (cases r) (auto split: prod.splits)
  qed simp
qed simp

text \<open>The connections that were accepted before the context was done.\<close>

fun accepted :: "(bool \<times> nat result) list \<Rightarrow> nat list" where
  "accepted [] = []"
| "accepted ((ctxErr, r) # evs) =
     (if ctxErr then [] else case r of Inl err \<Rightarrow> accepted evs | Inr conn \<Rightarrow> conn # accepted evs)"

lemma acceptLoop_conns: "fst (snd (acceptLoop t evs)) = accepted evs"
  by (induction t evs rule: acceptLoop.induct) (auto split: sum.splits prod.splits)

lemma acceptLoop_ends: "snd (snd (acceptLoop t evs)) \<longleftrightarrow> list_ex fst evs"
  by (induction t evs rule: acceptLoop.induct) (auto split: sum.splits prod.splits)

text \<open>
  A service outlives errors of its listener: it runs the command for every connection that is accepted
  before the context is done, returns only then, and pauses between 5 ms and a second after each error.
\<close>

theorem service_keeps_accepting:
  "fst (snd (acceptLoop 0 evs)) = accepted evs
   \<and> (snd (snd (acceptLoop 0 evs)) \<longleftrightarrow> list_ex fst evs)
   \<and> list_all (\<lambda>d. 5 * millisecond \<le> d \<and> d \<le> second) (fst (acceptLoop 0 evs))"
  using acceptLoop_conns acceptLoop_ends acceptLoop_delays by blast

text \<open>
  A service without a program is accepted, and the first connection to it panics: its command line
  splits into no words, \<open>RunService\<close> listens nevertheless, and \<open>runCommand\<close> has no program to run.
\<close>

theorem empty_command_panics:
  assumes "shlex_Split (svc_Command service) = Inr []" "listenTCP (of_int (svc_Port service)) = Inr li"
  shows "RunService shlex_Split listenTCP service = Inr (li, []) \<and> runCommand e [] = None"
  using assms by (simp add: RunService_def runCommand_def)

theorem empty_command_panics_witness:
  "RunService (\<lambda>s. Inr (if s = [] then [] else [s])) (\<lambda>p. Inr (unat p)) \<lparr>svc_Port = 80, svc_Command = ''''\<rparr> = Inr (80, [])"
  using empty_command_panics [of "\<lambda>s. Inr (if s = [] then [] else [s])" "\<lparr>svc_Port = 80, svc_Command = ''''\<rparr>"
      "\<lambda>p. Inr (unat p)" 80] by simp

text \<open>Ports are truncated to 16 bits: port 65616 listens on port 80.\<close>

lemma service_port_truncated:
  "RunService split listenTCP (s\<lparr>svc_Port := svc_Port s + 65536 * k\<rparr>) = RunService split listenTCP s"
proof -
  have "(of_int (svc_Port s + 65536 * k) :: 16 word) = of_int (svc_Port s) + of_int (65536 * k)" by simp
  moreover have "(of_int 65536 :: 16 word) = 0" by code_simp
  then have "(of_int (65536 * k) :: 16 word) = 0" by (simp only: of_int_mult mult_zero_left)
  ultimately show ?thesis by (cases "split (svc_Command s)") (simp_all add: RunService_def)
qed

end
