(* ===== verification/Supervisor.thy ===== *)
theory Supervisor
  imports BackendConfig Dns Services
begin

text \<open>
  \<^verbatim>\<open>pkg/connectopus/connectopus.go\<close>: what runs on a node. A configuration is accepted when it is signed by
  an authorised key, stored, handed to the other nodes, and then reconciled with what runs: the node
  itself and the items below it (backends, services, tunnels, namespaces, the name server and the
  control socket).

  The reconciler and the signatures are packages outside the repository (\<^verbatim>\<open>github.com/ghjm/golib\<close>). What
  is used of them are arguments: \<open>verify\<close> is \<open>ssh_jwt.VerifySSHSignature\<close>, and the configuration that
  \<open>Reconcile\<close> is called with is the result of the operation that calls it.
\<close>

section \<open>Signed configurations\<close>

type_synonym verifier = "bytes \<Rightarrow> bytes \<Rightarrow> string \<Rightarrow> string \<Rightarrow> go_error option"

record 'key check_ops =
  co_yaml :: "'key yaml_ops"
  co_ssh :: "'key ssh_ops"
  co_verify :: verifier

definition key_verifies :: "'key check_ops \<Rightarrow> bytes \<Rightarrow> bytes \<Rightarrow> 'key MarshalablePublicKey \<Rightarrow> bool" where
  "key_verifies ops cfgData signature authKey \<longleftrightarrow>
     co_verify ops cfgData signature ''connectopus'' (mpk_String (co_ssh ops) authKey) = None"

definition keys_list :: "'a list option \<Rightarrow> 'a list" where
  "keys_list ks = (case ks of None \<Rightarrow> [] | Some l \<Rightarrow> l)"

definition ParseAndCheckConfig ::
    "'key check_ops \<Rightarrow> bytes \<Rightarrow> bytes \<Rightarrow> 'key MarshalablePublicKey list option \<Rightarrow> 'key Config result" where
  "ParseAndCheckConfig ops cfgData signature authKeys =
     (case Config_Unmarshal (co_yaml ops) cfgData of
        Inl err \<Rightarrow> Inl (Wrapf ''error parsing config file'' err)
      | Inr cfg \<Rightarrow>
          let authKeys = (if authKeys = None then gl_AuthorizedKeys (cfg_Global cfg) else authKeys) in
          if list_ex (key_verifies ops cfgData signature) (keys_list authKeys) then Inr cfg
          else Inl (Errorf ''configuration signature check failed''))"

text \<open>
  Signing. The agent is given by its answers: whether it can be reached, the keys that match the text with
  their comments, and the signature of data under a name space and a key.
\<close>

record 'key agent_ops =
  ag_GetSSHAgent :: "string \<Rightarrow> go_error option"
  ag_GetMatchingKeys :: "string \<Rightarrow> ('key \<times> string) list result"
  ag_SignSSH :: "bytes \<Rightarrow> string \<Rightarrow> string \<Rightarrow> bytes result"

definition ErrNoSSHKeys :: go_error where
  "ErrNoSSHKeys = Errorf ''no SSH keys found''"

definition ErrMultipleSSHKeys :: go_error where
  "ErrMultipleSSHKeys = Errorf ''multiple SSH keys found; use --text to select one uniquely''"

definition SignConfig ::
    "'key agent_ops \<Rightarrow> 'key yaml_ops \<Rightarrow> 'key ssh_ops \<Rightarrow> time \<Rightarrow> string \<Rightarrow> string \<Rightarrow> 'key Config \<Rightarrow> bool
       \<Rightarrow> (bytes \<times> bytes) result" where
  "SignConfig ag y ssh now keyFile keyText cfg updateTime =
     (case ag_GetSSHAgent ag keyFile of
        Some err \<Rightarrow> Inl (Wrapf ''error initializing SSH agent'' err)
      | None \<Rightarrow>
          (case ag_GetMatchingKeys ag keyText of
             Inl err \<Rightarrow> Inl (Wrapf ''error listing SSH keys'' err)
           | Inr [] \<Rightarrow> Inl ErrNoSSHKeys
           | Inr (k1 # k2 # ks) \<Rightarrow> Inl ErrMultipleSSHKeys
           | Inr [(pk, comment)] \<Rightarrow>
               let key = \<lparr>mpk_PublicKey = pk, mpk_Comment = comment\<rparr>;
                   cfg = (if updateTime then cfg\<lparr>cfg_Global := (cfg_Global cfg)\<lparr>gl_LastUpdated := now\<rparr>\<rparr> else cfg)
               in (case Config_Marshal y cfg of
                     Inl err \<Rightarrow> Inl (Wrapf ''error marshaling config'' err)
                   | Inr cfgData \<Rightarrow>
                       (case ag_SignSSH ag cfgData ''connectopus'' (mpk_String ssh key) of
                          Inl err \<Rightarrow> Inl (Wrapf ''error signing config data'' err)
                        | Inr sig \<Rightarrow> Inr (cfgData, sig)))))"

definition LoadConfig :: "'key check_ops \<Rightarrow> file_system \<Rightarrow> string \<Rightarrow> 'key Config result" where
  "LoadConfig ops fs datadir =
     (case os_ReadFile fs (path_Join [datadir, ''config.yml'']) of
        Inl err \<Rightarrow> Inl (Wrapf ''error loading config file'' err)
      | Inr data \<Rightarrow>
          (case os_ReadFile fs (path_Join [datadir, ''config.sig'']) of
             Inl err \<Rightarrow> Inl (Wrapf ''error reading signature file'' err)
           | Inr sig \<Rightarrow> ParseAndCheckConfig ops data sig None))"

section \<open>Items\<close>

record 'key NodeCfg =
  nc_Config :: "'key Config"
  nc_identity :: string
  nc_datadir :: string

datatype 'key config_item =
    NodeItem "'key NodeCfg"
  | CpctlItem Cpctl
  | DnsItem Dns
  | BackendItem "Params option"
  | ServiceItem Service
  | TunDevItem TunDev
  | NamespaceItem Namespace
  | NamespaceServiceItem string

fun item_Type :: "'key config_item \<Rightarrow> string" where
  "item_Type (NodeItem _) = ''node''"
| "item_Type (CpctlItem _) = ''cpctl''"
| "item_Type (DnsItem _) = ''dns''"
| "item_Type (BackendItem _) = ''backend''"
| "item_Type (ServiceItem _) = ''service''"
| "item_Type (TunDevItem _) = ''tundev''"
| "item_Type (NamespaceItem _) = ''namespace''"
| "item_Type (NamespaceServiceItem _) = ''namespace_service''"

text \<open>\<open>RunNode\<close> loads the configuration of the only data directory and reconciles it.\<close>

definition RunNode ::
    "'key check_ops \<Rightarrow> file_system \<Rightarrow> (string \<Rightarrow> string list result) \<Rightarrow> string \<Rightarrow> string \<Rightarrow> 'key config_item result" where
  "RunNode ops fs findDataDirs datadir identity =
     (if identity = [] then Inl (Errorf ''must provide an identity'')
      else case (if datadir = [] then
                   (case findDataDirs identity of
                      Inl err \<Rightarrow> Inl (Wrapf ''error finding data dir'' err)
                    | Inr [d] \<Rightarrow> Inr d
                    | Inr _ \<Rightarrow> Inl (Errorf ''failed to find data dir for node''))
                 else Inr datadir) of
             Inl err \<Rightarrow> Inl err
           | Inr datadir \<Rightarrow>
               (case LoadConfig ops fs datadir of
                  Inl err \<Rightarrow> Inl (Wrapf ''error loading config'' err)
                | Inr cfg \<Rightarrow> Inr (NodeItem \<lparr>nc_Config = cfg, nc_identity = identity, nc_datadir = datadir\<rparr>)))"

text \<open>The two methods of a running node; its item is what the reconciler was last given.\<close>

definition Node_ParseAndCheckConfig ::
    "'key check_ops \<Rightarrow> 'key config_item \<Rightarrow> bytes \<Rightarrow> bytes \<Rightarrow> 'key Config result" where
  "Node_ParseAndCheckConfig ops item cfgData signature =
     (case item of
        NodeItem nodeCfg \<Rightarrow> ParseAndCheckConfig ops cfgData signature (gl_AuthorizedKeys (cfg_Global (nc_Config nodeCfg)))
      | _ \<Rightarrow> Inl (Errorf ''running instance config is wrong type''))"

definition ReconcileNode :: "'key config_item \<Rightarrow> 'key Config \<Rightarrow> 'key config_item result" where
  "ReconcileNode item cfg =
     (case item of
        NodeItem nodeCfg \<Rightarrow> Inr (NodeItem (nodeCfg\<lparr>nc_Config := cfg\<rparr>))
      | _ \<Rightarrow> Inl (Errorf ''running instance config is wrong type''))"

section \<open>The node\<close>

record 'key nodeInstance =
  ni_cfg :: "'key Config"
  ni_identity :: string
  ni_node :: Node
  ni_n :: netopus
  ni_nsreg :: "(string, int) gomap"
  ni_datadir :: string

text \<open>
  \<open>NewConfig\<close>: the new instance and files, the error, and the configuration that is reconciled once the
  other nodes have it or half a minute has passed.
\<close>

definition nodeInstance_NewConfig ::
    "'key check_ops \<Rightarrow> write_failures \<Rightarrow> bytes \<Rightarrow> bytes \<Rightarrow> 'key nodeInstance \<Rightarrow> file_system
       \<Rightarrow> 'key nodeInstance \<times> file_system \<times> go_error option \<times> 'key Config option" where
  "nodeInstance_NewConfig ops fail config signature ni fs =
     (case ParseAndCheckConfig ops config signature (gl_AuthorizedKeys (cfg_Global (ni_cfg ni))) of
        Inl err \<Rightarrow> (ni, fs, Some err, None)
      | Inr cfg \<Rightarrow>
          (case os_WriteFile fail (path_Join [ni_datadir ni, ''config.yml'']) config fs of
             (fs, Some err) \<Rightarrow> (ni, fs, Some (Wrapf ''error writing config.yml'' err), None)
           | (fs, None) \<Rightarrow>
               (case os_WriteFile fail (path_Join [ni_datadir ni, ''config.sig'']) signature fs of
                  (fs, Some err) \<Rightarrow> (ni, fs, Some (Wrapf ''error writing config.sig'' err), None)
                | (fs, None) \<Rightarrow>
                    (ni\<lparr>ni_n := UpdateConfig (ni_n ni) config signature (gl_LastUpdated (cfg_Global cfg))\<rparr>,
                     fs, None, Some cfg))))"

text \<open>
  \<open>WaitForConfigConvergence\<close>: once a second the node is asked whether every known node has the version
  that was current at the start. \<open>None\<close> is a wait that has not ended, \<open>Some False\<close> the end of the context.
\<close>

fun convergence_loop :: "time \<Rightarrow> netopus option list \<Rightarrow> bool option" where
  "convergence_loop myVersion [] = None"
| "convergence_loop myVersion (None # evs) = Some False"
| "convergence_loop myVersion (Some n # evs) =
     (if checkConfigsConverged n myVersion then Some True else convergence_loop myVersion evs)"

definition WaitForConfigConvergence :: "netopus \<Rightarrow> netopus option list \<Rightarrow> bool option" where
  "WaitForConfigConvergence n evs = convergence_loop (ci_configVersion (n_configInfo n)) evs"

definition NodeCfg_Start ::
    "'key NodeCfg \<Rightarrow> file_system \<Rightarrow> unit result \<Rightarrow> 64 word \<Rightarrow> 'key nodeInstance result" where
  "NodeCfg_Start nc fs stack now =
     (case go_get (cfg_Nodes (nc_Config nc)) (nc_identity nc) of
        None \<Rightarrow> Inl (Errorf ''invalid identity for config'')
      | Some node \<Rightarrow>
          (case os_ReadFile fs (path_Join [nc_datadir nc, ''config.yml'']) of
             Inl err \<Rightarrow> Inl (Wrapf ''error loading config.yml'' err)
           | Inr cfgData \<Rightarrow>
               (case os_ReadFile fs (path_Join [nc_datadir nc, ''config.sig'']) of
                  Inl err \<Rightarrow> Inl (Wrapf ''error loading config.sig'' err)
                | Inr sigData \<Rightarrow>
                    (case netopus_New (nd_Address node) (nc_identity nc)
                            [WithMTU (LeastMTU registry_init node 1500), WithNewConfigFunc True] stack now of
                       Inl err \<Rightarrow> Inl err
                     | Inr n \<Rightarrow>
                         Inr \<lparr>ni_cfg = nc_Config nc, ni_identity = nc_identity nc, ni_node = node,
                              ni_n = UpdateConfig n cfgData sigData (gl_LastUpdated (cfg_Global (nc_Config nc))),
                              ni_nsreg = [], ni_datadir = nc_datadir nc\<rparr>))))"

text \<open>\<open>range\<close> over a map, each entry set in \<open>children\<close>.\<close>

definition add_children ::
    "('v \<Rightarrow> 'key config_item) \<Rightarrow> (string, 'v) gomap \<Rightarrow> (string, 'key config_item) gomap \<Rightarrow> (string, 'key config_item) gomap" where
  "add_children mk m children = fold (\<lambda>(k, v) c. go_set c k (mk v)) m children"

definition NodeCfg_Children :: "'key NodeCfg \<Rightarrow> (string, 'key config_item) gomap" where
  "NodeCfg_Children nc =
     (case go_get (cfg_Nodes (nc_Config nc)) (nc_identity nc) of
        None \<Rightarrow> []
      | Some node \<Rightarrow>
          let children = [];
              children = go_set children ''cpctl'' (CpctlItem (nd_Cpctl node));
              children = go_set children ''dns'' (DnsItem (nd_Dns node));
              children = add_children BackendItem (nd_Backends node) children;
              children = add_children NamespaceItem (nd_Namespaces node) children;
              children = add_children ServiceItem (nd_Services node) children;
              children = add_children TunDevItem (nd_TunDevs node) children;
              children = add_children NamespaceItem (nd_Namespaces node) children
          in children)"

fun item_Children :: "'key config_item \<Rightarrow> (string, 'key config_item) gomap" where
  "item_Children (NodeItem nc) = NodeCfg_Children nc"
| "item_Children (NamespaceItem ns) = add_children NamespaceServiceItem (ns_Services ns) []"
| "item_Children _ = []"

section \<open>Comparing items\<close>

text \<open>\<open>reflect.DeepEqual\<close> on maps: the same keys, with equal values, in any order.\<close>

definition map_equal :: "('v \<Rightarrow> 'v \<Rightarrow> bool) \<Rightarrow> ('k, 'v) gomap \<Rightarrow> ('k, 'v) gomap \<Rightarrow> bool" where
  "map_equal eq m m' \<longleftrightarrow>
     list_all (\<lambda>(k, _). case (go_get m k, go_get m' k) of (Some v, Some v') \<Rightarrow> eq v v' | _ \<Rightarrow> False) m
     \<and> list_all (\<lambda>(k, _). go_get m k \<noteq> None) m'"

definition params_equal :: "Params option \<Rightarrow> Params option \<Rightarrow> bool" where
  "params_equal p p' \<longleftrightarrow>
     (case (p, p') of (None, None) \<Rightarrow> True | (Some m, Some m') \<Rightarrow> map_equal (=) m m' | _ \<Rightarrow> False)"

definition global_equal :: "'key Global \<Rightarrow> 'key Global \<Rightarrow> bool" where
  "global_equal g g' \<longleftrightarrow> g\<lparr>gl_LastUpdated := 0\<rparr> = g'\<lparr>gl_LastUpdated := 0\<rparr>"

text \<open>
  \<open>ParentEqual\<close> of the kinds of items; an item of another kind is never equal. Costs are compared as
  floating-point numbers, so an item whose cost is not a number equals nothing.
\<close>

definition NodeCfg_ParentEqual :: "'key NodeCfg \<Rightarrow> 'key config_item \<Rightarrow> bool" where
  "NodeCfg_ParentEqual nc item =
     (case item of
        NodeItem ci \<Rightarrow>
          nc_identity ci = nc_identity nc
          \<and> global_equal (cfg_Global (nc_Config ci)) (cfg_Global (nc_Config nc))
          \<and> (case (go_get (cfg_Nodes (nc_Config ci)) (nc_identity ci), go_get (cfg_Nodes (nc_Config nc)) (nc_identity nc)) of
               (Some cn, Some nn) \<Rightarrow> IP_String (nd_Address cn) = IP_String (nd_Address nn)
             | _ \<Rightarrow> False)
      | _ \<Rightarrow> False)"

definition CpctlCfg_ParentEqual :: "Cpctl \<Rightarrow> 'key config_item \<Rightarrow> bool" where
  "CpctlCfg_ParentEqual c item = (case item of CpctlItem ci \<Rightarrow> ci = c | _ \<Rightarrow> False)"

definition DnsCfg_ParentEqual :: "Dns \<Rightarrow> 'key config_item \<Rightarrow> bool" where
  "DnsCfg_ParentEqual d item = (case item of DnsItem ci \<Rightarrow> ci = d | _ \<Rightarrow> False)"

definition BackendCfg_ParentEqual :: "Params option \<Rightarrow> 'key config_item \<Rightarrow> bool" where
  "BackendCfg_ParentEqual b item = (case item of BackendItem ci \<Rightarrow> params_equal ci b | _ \<Rightarrow> False)"

definition ServiceCfg_ParentEqual :: "Service \<Rightarrow> 'key config_item \<Rightarrow> bool" where
  "ServiceCfg_ParentEqual s item = (case item of ServiceItem ci \<Rightarrow> ci = s | _ \<Rightarrow> False)"

definition TunDevCfg_ParentEqual :: "TunDev \<Rightarrow> 'key config_item \<Rightarrow> bool" where
  "TunDevCfg_ParentEqual t item =
     (case item of
        TunDevItem ci \<Rightarrow>
          tun_DeviceName ci = tun_DeviceName t \<and> tun_Address ci = tun_Address t \<and> f32_eq (tun_Cost ci) (tun_Cost t)
      | _ \<Rightarrow> False)"

definition NamespaceCfg_ParentEqual :: "Namespace \<Rightarrow> 'key config_item \<Rightarrow> bool" where
  "NamespaceCfg_ParentEqual nc item =
     (case item of
        NamespaceItem ci \<Rightarrow> ns_Address ci = ns_Address nc \<and> f32_eq (ns_Cost ci) (ns_Cost nc)
      | _ \<Rightarrow> False)"

definition NamespaceServiceCfg_ParentEqual :: "string \<Rightarrow> 'key config_item \<Rightarrow> bool" where
  "NamespaceServiceCfg_ParentEqual nsc item = (case item of NamespaceServiceItem ci \<Rightarrow> ci = nsc | _ \<Rightarrow> False)"

fun ParentEqual :: "'key config_item \<Rightarrow> 'key config_item \<Rightarrow> bool" where
  "ParentEqual (NodeItem nc) item = NodeCfg_ParentEqual nc item"
| "ParentEqual (CpctlItem c) item = CpctlCfg_ParentEqual c item"
| "ParentEqual (DnsItem d) item = DnsCfg_ParentEqual d item"
| "ParentEqual (BackendItem b) item = BackendCfg_ParentEqual b item"
| "ParentEqual (ServiceItem s) item = ServiceCfg_ParentEqual s item"
| "ParentEqual (TunDevItem t) item = TunDevCfg_ParentEqual t item"
| "ParentEqual (NamespaceItem nc) item = NamespaceCfg_ParentEqual nc item"
| "ParentEqual (NamespaceServiceItem nsc) item = NamespaceServiceCfg_ParentEqual nsc item"

text \<open>Reconciling is told apart by a symmetric comparison: it does not matter which of two items is asked.\<close>

lemma map_equal_iff:
  "map_equal (=) m m' \<longleftrightarrow> (\<forall>k. go_get m k = go_get m' k)"
proof
  assume e: "map_equal (=) m m'"
  have "go_get m k = go_get m' k" for k
  proof (cases "go_get m k")
    case None
    then have "k \<notin> set (go_keys m')" using e by (force simp: map_equal_def list_all_iff)
    then have "go_get m' k = None" by (simp only: go_get_None_iff not_False_eq_True)
    then show ?thesis using None by simp
  next
    case (Some v)
    then have "(k, v) \<in> set m" by (rule map_of_SomeD)
    then show ?thesis using e Some by (force simp: map_equal_def list_all_iff split: option.splits)
  qed
  then show "\<forall>k. go_get m k = go_get m' k" by blast
next
  assume "\<forall>k. go_get m k = go_get m' k"
  moreover have "go_get m' k \<noteq> None" if "(k, v) \<in> set m'" for k v using weak_map_of_SomeI [OF that] by auto
  moreover have "go_get m k \<noteq> None" if "(k, v) \<in> set m" for k v using weak_map_of_SomeI [OF that] by auto
  ultimately show "map_equal (=) m m'" by (auto simp: map_equal_def list_all_iff split: option.splits)
qed

lemma f32_eq_sym: "f32_eq a b \<longleftrightarrow> f32_eq b a"
  by (cases a; cases b) auto

lemma ParentEqual_sym: "ParentEqual a b \<longleftrightarrow> ParentEqual b a"
  by (cases a; cases b)
    (auto simp: NodeCfg_ParentEqual_def CpctlCfg_ParentEqual_def DnsCfg_ParentEqual_def BackendCfg_ParentEqual_def
      ServiceCfg_ParentEqual_def TunDevCfg_ParentEqual_def NamespaceCfg_ParentEqual_def NamespaceServiceCfg_ParentEqual_def
      global_equal_def params_equal_def map_equal_iff f32_eq_sym split: option.splits)

section \<open>Starting items\<close>

definition defaultCost :: "f32 \<Rightarrow> f32" where
  "defaultCost cost = (if f32_le cost f32_zero then f32_one else cost)"

text \<open>
  The control socket. \<open>cpctl_env\<close> are the results of the calls; the value is the error of \<open>Start\<close> and the
  listeners that are served, each closed when the context is done.
\<close>

datatype cpctl_listener = CpctlProxy | CpctlUnix string | CpctlWeb int

record cpctl_env =
  cpe_SetupSigningMethod :: "go_error option"
  cpe_ListenOOB :: "go_error option"
  cpe_ServeProxy :: "go_error option"
  cpe_UserConfigDir :: "string result"
  cpe_ServeUnix :: "string \<Rightarrow> go_error option"
  cpe_Listen :: "int \<Rightarrow> go_error option"
  cpe_ServeWeb :: "go_error option"

definition cpctl_socket :: "cpctl_env \<Rightarrow> string \<Rightarrow> Cpctl \<Rightarrow> cpctl_listener list \<Rightarrow> cpctl_listener list result" where
  "cpctl_socket e identity c ls =
     (if cp_NoSocket c then Inr ls
      else case ExpandFilename (cpe_UserConfigDir e) identity (cp_SocketFile c) of
        Inl err \<Rightarrow> Inl (Wrapf ''error expanding socket filename'' err)
      | Inr socketFile \<Rightarrow>
          (case cpe_ServeUnix e socketFile of
             Some err \<Rightarrow> Inl (Wrapf ''error running socket server'' err)
           | None \<Rightarrow> Inr (ls @ [CpctlUnix socketFile])))"

definition cpctl_web :: "cpctl_env \<Rightarrow> Cpctl \<Rightarrow> cpctl_listener list \<Rightarrow> cpctl_listener list result" where
  "cpctl_web e c ls =
     (if cp_Port c = 0 then Inr ls
      else case cpe_Listen e (cp_Port c) of
        Some err \<Rightarrow> Inl (Wrapf ''error initializing cpctl web server'' err)
      | None \<Rightarrow>
          (case cpe_ServeWeb e of
             Some err \<Rightarrow> Inl (Wrapf ''error running cpctl web server'' err)
           | None \<Rightarrow> Inr (ls @ [CpctlWeb (cp_Port c)])))"

definition CpctlCfg_Start :: "cpctl_env \<Rightarrow> string \<Rightarrow> Cpctl \<Rightarrow> cpctl_listener list result" where
  "CpctlCfg_Start e identity c =
     (case cpe_SetupSigningMethod e of
        Some err \<Rightarrow> Inl (Wrapf ''error initializing JWT signing method'' err)
      | None \<Rightarrow>
          (case cpe_ListenOOB e of
             Some err \<Rightarrow> Inl (Wrapf ''error initializing cpctl proxy listener'' err)
           | None \<Rightarrow>
               (case cpe_ServeProxy e of
                  Some err \<Rightarrow> Inl (Wrapf ''error running cpctl proxy server'' err)
                | None \<Rightarrow>
                    (case cpctl_socket e identity c [CpctlProxy] of
                       Inl err \<Rightarrow> Inl err
                     | Inr ls \<Rightarrow> cpctl_web e c ls))))"

text \<open>
  The name server: the results of \<open>DialUDP\<close> and \<open>ListenTCP\<close> and the events of its \<open>Run\<close>. The value is the
  error, the server that runs, and whether \<open>done\<close> is called when the context is done.
\<close>

definition DnsCfg_Start ::
    "go_error option \<Rightarrow> go_error option \<Rightarrow> dns_event list \<Rightarrow> 'key nodeInstance \<Rightarrow> Dns
       \<Rightarrow> (dns_Server option \<times> bool) result" where
  "DnsCfg_Start dialUDP listenTCP evs inst d =
     (if dns_Disable d then Inr (None, False)
      else case dialUDP of
        Some err \<Rightarrow> Inl (Wrapf ''udp listener error'' err)
      | None \<Rightarrow>
          (case listenTCP of
             Some err \<Rightarrow> Inl (Wrapf ''tcp listener error'' err)
           | None \<Rightarrow>
               (case fst (dns_Run evs) of
                  Some (Some err) \<Rightarrow> Inl err
                | _ \<Rightarrow> Inr (Some (node_dns (gl_Domain (cfg_Global (ni_cfg inst))) (ni_n inst)), True))))"

definition BackendCfg_Start ::
    "(string \<Rightarrow> f32 result) \<Rightarrow> ('pool, 'cert) backend_env \<Rightarrow> registry \<Rightarrow> Params option \<Rightarrow> ('pool, 'cert) running result" where
  "BackendCfg_Start ParseFloat env backendMap b =
     (let p = backend_params b;
          backendType = GetString p ''type'' []
      in case GetFloat32 ParseFloat p ''cost'' f32_zero of
           Inl err \<Rightarrow> Inl (Wrapf ''backend configuration error'' err)
         | Inr backendCost \<Rightarrow>
             (case RunBackend env backendMap backendType (defaultCost backendCost) p of
                Inl err \<Rightarrow> Inl (Wrapf ''error initializing backend'' err)
              | Inr r \<Rightarrow> Inr r))"

definition ServiceCfg_Start ::
    "(string \<Rightarrow> string list result) \<Rightarrow> (16 word \<Rightarrow> nat result) \<Rightarrow> Service \<Rightarrow> (nat \<times> string list) result" where
  "ServiceCfg_Start shlex_Split listenTCP s =
     (case RunService shlex_Split listenTCP s of
        Inl err \<Rightarrow> Inl (Wrapf ''error initializing service'' err)
      | Inr r \<Rightarrow> Inr r)"

text \<open>
  A tunnel: \<open>tun_New\<close> makes the link from its name, address, subnet and MTU; packets for the address then go
  to the link, and packets from the link are sent by the node. The item ends when its context is done.
\<close>

type_synonym tun_maker = "string \<Rightarrow> ip \<Rightarrow> ipnet \<Rightarrow> 16 word \<Rightarrow> nat result"

definition TunDevCfg_Start :: "tun_maker \<Rightarrow> string \<Rightarrow> TunDev \<Rightarrow> 'key nodeInstance \<Rightarrow> 'key nodeInstance result" where
  "TunDevCfg_Start tun_New name t inst =
     (case tun_New (tun_DeviceName t) (tun_Address t) (Subnet_AsIPNet (gl_Subnet (cfg_Global (ni_cfg inst)))) (netopus_MTU (ni_n inst)) of
        Inl err \<Rightarrow> Inl (Wrapf ''error initializing tunnel'' err)
      | Inr lnk \<Rightarrow>
          let n = AddExternalRoute (ni_n inst) name (NewHostOnlySubnet (tun_Address t)) (defaultCost (tun_Cost t)) (Some lnk);
              n = AddExternalName n name (tun_Address t)
          in Inr (inst\<lparr>ni_n := n\<rparr>))"

definition TunDev_packet ::
    "ipv6_ops \<Rightarrow> fwd_env \<Rightarrow> bytes \<Rightarrow> 'key nodeInstance \<Rightarrow> 'key nodeInstance option" where
  "TunDev_packet h env packet inst =
     map_option (\<lambda>(n, _). inst\<lparr>ni_n := n\<rparr>) (SendPacket h env (ni_n inst) packet)"

definition TunDev_stop :: "string \<Rightarrow> 'key nodeInstance \<Rightarrow> 'key nodeInstance" where
  "TunDev_stop name inst = inst\<lparr>ni_n := DelExternalRoute (DelExternalName (ni_n inst) name) name\<rparr>"

text \<open>
  A namespace is a link of the same kind, with a process that is registered under the item's name:
  \<open>netns_New\<close> makes it from its address, the domain, the address of the node and the MTU.
\<close>

type_synonym netns_maker = "ip \<Rightarrow> string \<Rightarrow> string \<Rightarrow> 16 word \<Rightarrow> (nat \<times> int) result"

definition Registry_Add :: "string \<Rightarrow> int \<Rightarrow> (string, int) gomap \<Rightarrow> (string, int) gomap" where
  "Registry_Add name pid m = go_set m name pid"

definition Registry_Del :: "string \<Rightarrow> (string, int) gomap \<Rightarrow> (string, int) gomap" where
  "Registry_Del name m = go_del m name"

definition Registry_GetAll :: "(string, int) gomap \<Rightarrow> (string \<times> int) list" where
  "Registry_GetAll m = map (\<lambda>(k, v). (k, v)) m"

definition Registry_Get :: "string \<Rightarrow> (string, int) gomap \<Rightarrow> int result" where
  "Registry_Get name m = (case go_get m name of None \<Rightarrow> Inl (Errorf ''unknown namespace'') | Some pid \<Rightarrow> Inr pid)"

definition NamespaceCfg_Start ::
    "netns_maker \<Rightarrow> string \<Rightarrow> Namespace \<Rightarrow> 'key nodeInstance \<Rightarrow> 'key nodeInstance result" where
  "NamespaceCfg_Start netns_New name nc inst =
     (case netns_New (ns_Address nc) (gl_Domain (cfg_Global (ni_cfg inst))) (IP_String (n_addr (ni_n inst)))
             (netopus_MTU (ni_n inst)) of
        Inl err \<Rightarrow> Inl (Wrapf ''error initializing namespace'' err)
      | Inr (lnk, pid) \<Rightarrow>
          let n = AddExternalRoute (ni_n inst) name (NewHostOnlySubnet (ns_Address nc)) (defaultCost (ns_Cost nc)) (Some lnk);
              n = AddExternalName n name (ns_Address nc)
          in Inr (inst\<lparr>ni_n := n, ni_nsreg := Registry_Add name pid (ni_nsreg inst)\<rparr>))"

definition Namespace_stop :: "string \<Rightarrow> 'key nodeInstance \<Rightarrow> 'key nodeInstance" where
  "Namespace_stop name inst =
     inst\<lparr>ni_nsreg := Registry_Del name (ni_nsreg inst),
          ni_n := DelExternalRoute (DelExternalName (ni_n inst) name) name\<rparr>"

text \<open>
  A command in a namespace: what \<open>RunInNamespace\<close> and \<open>Wait\<close> return, and whether the context is done when
  the command has ended. The value is the failure that is set; \<open>done\<close> is called in any case.
\<close>

definition NamespaceServiceCfg_Start ::
    "(string \<Rightarrow> go_error option) \<Rightarrow> go_error option \<Rightarrow> bool \<Rightarrow> string \<Rightarrow> go_error option result" where
  "NamespaceServiceCfg_Start runInNamespace wait ctxDone command =
     (case runInNamespace command of
        Some err \<Rightarrow> Inl (Wrapf ''error running command'' err)
      | None \<Rightarrow> Inr (if ctxDone then None else wait))"

section \<open>Who may change the configuration\<close>

lemma ParseAndCheckConfig_Inr:
  "ParseAndCheckConfig ops cfgData sig authKeys = Inr cfg \<longleftrightarrow>
     Config_Unmarshal (co_yaml ops) cfgData = Inr cfg
     \<and> (\<exists>k\<in>set (keys_list (if authKeys = None then gl_AuthorizedKeys (cfg_Global cfg) else authKeys)).
          key_verifies ops cfgData sig k)"
  by (auto simp: ParseAndCheckConfig_def Let_def list_ex_iff split: sum.splits if_splits)

lemma NewConfig_cases:
  assumes "nodeInstance_NewConfig ops fail config sig ni fs = (ni', fs', err, rc)"
  shows "(ni' = ni \<and> fs' = fs \<and> err \<noteq> None \<and> rc = None
            \<and> (\<exists>e. ParseAndCheckConfig ops config sig (gl_AuthorizedKeys (cfg_Global (ni_cfg ni))) = Inl e))
    \<or> (\<exists>cfg. ParseAndCheckConfig ops config sig (gl_AuthorizedKeys (cfg_Global (ni_cfg ni))) = Inr cfg)"
  using assms by (auto simp: nodeInstance_NewConfig_def split: sum.splits)

text \<open>
  C7. Only an authorised key changes a node: when a configuration that arrives makes a difference (to the
  node, to its files, or by a reconciliation), it parses and one of the keys of the running configuration
  verifies its signature; in a node whose running configuration has no key list, one of the keys that
  the new configuration brings itself.
\<close>

theorem config_update_authorized:
  assumes "nodeInstance_NewConfig ops fail config sig ni fs = (ni', fs', err, rc)"
    and "ni' \<noteq> ni \<or> fs' \<noteq> fs \<or> rc \<noteq> None"
  shows "\<exists>cfg k. Config_Unmarshal (co_yaml ops) config = Inr cfg \<and> key_verifies ops config sig k
    \<and> (case gl_AuthorizedKeys (cfg_Global (ni_cfg ni)) of
         Some ks \<Rightarrow> k \<in> set ks
       | None \<Rightarrow> k \<in> set (keys_list (gl_AuthorizedKeys (cfg_Global cfg))))"
proof -
  obtain cfg where "ParseAndCheckConfig ops config sig (gl_AuthorizedKeys (cfg_Global (ni_cfg ni))) = Inr cfg"
    using NewConfig_cases [OF assms(1)] assms(2) by blast
  then show ?thesis
    by (cases "gl_AuthorizedKeys (cfg_Global (ni_cfg ni))") (auto simp: ParseAndCheckConfig_Inr keys_list_def)
qed

text \<open>Keys and signatures for examples: a signature is the key, and a configuration is told from its first byte.\<close>

definition ex_nodeConfig :: Node where
  "ex_nodeConfig = \<lparr>nd_Address = [0xfd] @ replicate 14 0 @ [1], nd_Backends = [], nd_Services = [], nd_TunDevs = [],
     nd_Namespaces = [], nd_Cpctl = \<lparr>cp_SocketFile = [], cp_NoSocket = False, cp_Port = 0\<rparr>,
     nd_Dns = \<lparr>dns_Disable = False\<rparr>\<rparr>"

definition ex_config :: "string list option \<Rightarrow> string Config" where
  "ex_config ks = \<lparr>cfg_Global = \<lparr>gl_Domain = ''net'', gl_Subnet = [],
        gl_AuthorizedKeys = map_option (map (\<lambda>k. \<lparr>mpk_PublicKey = k, mpk_Comment = []\<rparr>)) ks, gl_LastUpdated = 5\<rparr>,
     cfg_Nodes = [(''foo'', ex_nodeConfig)]\<rparr>"

definition ex_ops :: "string check_ops" where
  "ex_ops = \<lparr>co_yaml = \<lparr>yaml_Unmarshal = \<lambda>d. Inr (ex_config (if hd d = 0 then None else if hd d = 1 then Some [''A''] else Some [''B''])),
                        yaml_Marshal = \<lambda>c. if c = ex_config (Some [''A'']) then Inr [1] else Inl (Errorf ''bad'')\<rparr>,
     co_ssh = \<lparr>ssh_MarshalAuthorizedKey = (\<lambda>k. k), ssh_ParseAuthorizedKey = \<lambda>s. Inr (s, [])\<rparr>,
     co_verify = \<lambda>d s nspace k. if s = map (\<lambda>c. of_nat (of_char c)) k then None else Some (Errorf ''bad'')\<rparr>"

definition ex_instance :: "string list option \<Rightarrow> string nodeInstance" where
  "ex_instance ks = \<lparr>ni_cfg = ex_config ks, ni_identity = ''foo'', ni_node = ex_nodeConfig, ni_n = ex_dns_node, ni_nsreg = [],
     ni_datadir = ''d''\<rparr>"

lemma ex_keys: "mpk_String (co_ssh ex_ops) \<lparr>mpk_PublicKey = ''A'', mpk_Comment = []\<rparr> = ''A''"
  "mpk_String (co_ssh ex_ops) \<lparr>mpk_PublicKey = ''B'', mpk_Comment = []\<rparr> = ''B''"
  by (simp_all add: ex_ops_def mpk_String_def trim_newlines_def)

lemma ex_verifies:
  "key_verifies ex_ops d [65] \<lparr>mpk_PublicKey = ''A'', mpk_Comment = []\<rparr>"
  "key_verifies ex_ops d [66] \<lparr>mpk_PublicKey = ''B'', mpk_Comment = []\<rparr>"
  "\<not> key_verifies ex_ops d [65] \<lparr>mpk_PublicKey = ''B'', mpk_Comment = []\<rparr>"
  by (simp_all add: key_verifies_def ex_keys) (simp_all add: ex_ops_def)

lemma ex_accepts:
  "ParseAndCheckConfig ex_ops [2] [65] (gl_AuthorizedKeys (cfg_Global (ex_config (Some [''A''])))) = Inr (ex_config (Some [''B'']))"
  unfolding ParseAndCheckConfig_Inr
  by (simp add: ex_config_def keys_list_def ex_verifies) (simp add: ex_ops_def ex_config_def Config_Unmarshal_def)

lemma ex_NewConfig:
  "nodeInstance_NewConfig ex_ops (\<lambda>_. None) [2] [65] (ex_instance (Some [''A''])) [] =
     ((ex_instance (Some [''A'']))\<lparr>ni_n := UpdateConfig ex_dns_node [2] [65] 5\<rparr>,
      [(''d/config.yml'', [2]), (''d/config.sig'', [65])], None, Some (ex_config (Some [''B''])))"
proof -
  have "path_Join [''d'', ''config.yml''] = ''d/config.yml''" "path_Join [''d'', ''config.sig''] = ''d/config.sig''"
    by (simp_all add: path_Join_def path_Clean_def path_IsAbs_def)
  then show ?thesis using ex_accepts
    by (simp add: nodeInstance_NewConfig_def ex_instance_def os_WriteFile_def) (simp add: ex_config_def)
qed

theorem config_update_authorized_witness:
  "\<exists>cfg k. Config_Unmarshal (co_yaml ex_ops) [2] = Inr cfg \<and> key_verifies ex_ops [2] [65] k
     \<and> k \<in> {\<lparr>mpk_PublicKey = ''A'', mpk_Comment = []\<rparr>}"
  using config_update_authorized [OF ex_NewConfig] by (simp add: ex_instance_def ex_config_def)

section \<open>Stored configurations\<close>

definition plain_name :: "string \<Rightarrow> bool" where
  "plain_name f \<longleftrightarrow> f \<noteq> [] \<and> f \<noteq> ''.'' \<and> f \<noteq> ''..'' \<and> CHR ''/'' \<notin> set f"

lemma split_slash_plain: "CHR ''/'' \<notin> set f \<Longrightarrow> split_slash f = [f]"
  by (induction f) auto

lemma split_slash_append: "CHR ''/'' \<notin> set f \<Longrightarrow> split_slash (d @ CHR ''/'' # f) = split_slash d @ [f]"
proof (induction d)
  case (Cons c d)
  have "split_slash d \<noteq> []" by (cases d) (auto split: list.splits)
  then show ?case using Cons by (cases "split_slash d") auto
qed (simp add: split_slash_plain)

lemma clean_parts_last:
  "plain_name f \<Longrightarrow> clean_parts rooted (ps @ [f]) out = clean_parts rooted ps out @ [f]"
  by (induction rooted ps out rule: clean_parts.induct) (auto simp: plain_name_def split: list.splits)

lemma last_join_slash: "f \<noteq> [] \<Longrightarrow> last (join_slash (ps @ [f])) = last f \<and> join_slash (ps @ [f]) \<noteq> []"
proof (induction ps)
  case (Cons p ps)
  then show ?case by (cases "ps @ [f]") auto
qed simp

lemma last_path_Join: "plain_name f \<Longrightarrow> last (path_Join [d, f]) = last f"
proof -
  assume f: "plain_name f"
  then have ns: "CHR ''/'' \<notin> set f" "f \<noteq> []" by (auto simp: plain_name_def)
  have "\<exists>ps. split_slash (join_slash (filter (\<lambda>e. e \<noteq> []) [d, f])) = ps @ [f]"
    using ns split_slash_append [of f d] split_slash_plain [of f] by (cases "d = []") auto
  then obtain ps where ps: "split_slash (join_slash (filter (\<lambda>e. e \<noteq> []) [d, f])) = ps @ [f]" by blast
  have "filter (\<lambda>e. e \<noteq> []) [d, f] \<noteq> []" using ns by simp
  then show ?thesis
    unfolding path_Join_def path_Clean_def Let_def ps clean_parts_last [OF f] using last_join_slash [OF ns(2)] by simp
qed

lemma config_files_differ: "path_Join [d, ''config.yml''] \<noteq> path_Join [d, ''config.sig'']"
proof
  assume "path_Join [d, ''config.yml''] = path_Join [d, ''config.sig'']"
  then have "last (path_Join [d, ''config.yml'']) = last (path_Join [d, ''config.sig''])" by (rule arg_cong)
  moreover have "plain_name ''config.yml''" "plain_name ''config.sig''" by (simp_all add: plain_name_def)
  ultimately show False by (simp add: last_path_Join)
qed

lemma LoadConfig_stored:
  assumes "go_get fs (path_Join [d, ''config.yml'']) = Some data" "go_get fs (path_Join [d, ''config.sig'']) = Some sig"
  shows "LoadConfig ops fs d = ParseAndCheckConfig ops data sig None"
  using assms by (simp add: LoadConfig_def os_ReadFile_def)

lemma NewConfig_ok:
  assumes "nodeInstance_NewConfig ops fail config sig ni fs = (ni', fs', None, rc)"
  obtains cfg where "ParseAndCheckConfig ops config sig (gl_AuthorizedKeys (cfg_Global (ni_cfg ni))) = Inr cfg"
    "rc = Some cfg" "fs' = go_set (go_set fs (path_Join [ni_datadir ni, ''config.yml'']) config) (path_Join [ni_datadir ni, ''config.sig'']) sig"
    "ni' = ni\<lparr>ni_n := UpdateConfig (ni_n ni) config sig (gl_LastUpdated (cfg_Global cfg))\<rparr>"
  using assms by (auto simp: nodeInstance_NewConfig_def os_WriteFile_def split: sum.splits option.splits prod.splits)

text \<open>
  C18. What a node accepts is what it loads when it is started again, if it can be loaded: the files
  hold the accepted configuration, which is loaded exactly when one of the keys in it verifies the
  signature. The keys it was accepted with are the ones of the configuration before it.
\<close>

theorem accepted_config_reloaded:
  assumes "nodeInstance_NewConfig ops fail config sig ni fs = (ni', fs', None, Some cfg)"
  shows "LoadConfig ops fs' (ni_datadir ni) =
    (if list_ex (key_verifies ops config sig) (keys_list (gl_AuthorizedKeys (cfg_Global cfg))) then Inr cfg
     else Inl (Errorf ''configuration signature check failed''))"
proof -
  obtain cfg' where c: "ParseAndCheckConfig ops config sig (gl_AuthorizedKeys (cfg_Global (ni_cfg ni))) = Inr cfg'" "Some cfg = Some cfg'"
      "fs' = go_set (go_set fs (path_Join [ni_datadir ni, ''config.yml'']) config) (path_Join [ni_datadir ni, ''config.sig'']) sig"
    using assms by (rule NewConfig_ok)
  have "LoadConfig ops fs' (ni_datadir ni) = ParseAndCheckConfig ops config sig None"
    using config_files_differ [of "ni_datadir ni"] by (intro LoadConfig_stored) (simp_all add: c(3) gomap_simps)
  moreover have "Config_Unmarshal (co_yaml ops) config = Inr cfg" using c(1,2) by (simp add: ParseAndCheckConfig_Inr)
  ultimately show ?thesis by (simp add: ParseAndCheckConfig_def)
qed

theorem accepted_config_reloaded_witness:
  "LoadConfig ex_ops [(''d/config.yml'', [2]), (''d/config.sig'', [65])] ''d''
     = Inl (Errorf ''configuration signature check failed'')"
  using accepted_config_reloaded [OF ex_NewConfig]
  by (simp add: ex_instance_def ex_config_def keys_list_def ex_verifies)

text \<open>
  A running configuration without a key list is open to anybody: every configuration that is signed
  by a key it brings itself is accepted, stored and reconciled.
\<close>

theorem missing_keys_accept_anybody:
  assumes "gl_AuthorizedKeys (cfg_Global (ni_cfg ni)) = None" "Config_Unmarshal (co_yaml ops) config = Inr cfg"
    and "k \<in> set (keys_list (gl_AuthorizedKeys (cfg_Global cfg)))" "key_verifies ops config sig k" "\<And>f. fail f = None"
  shows "\<exists>ni' fs'. nodeInstance_NewConfig ops fail config sig ni fs = (ni', fs', None, Some cfg)"
proof -
  have "ParseAndCheckConfig ops config sig (gl_AuthorizedKeys (cfg_Global (ni_cfg ni))) = Inr cfg"
    using assms(1-4) by (auto simp: ParseAndCheckConfig_Inr)
  then show ?thesis using assms(5) by (simp add: nodeInstance_NewConfig_def os_WriteFile_def)
qed

theorem missing_keys_accept_anybody_witness:
  "\<exists>ni' fs'. nodeInstance_NewConfig ex_ops (\<lambda>_. None) [2] [66] (ex_instance None) [] = (ni', fs', None, Some (ex_config (Some [''B''])))"
proof (rule missing_keys_accept_anybody [where k = "\<lparr>mpk_PublicKey = ''B'', mpk_Comment = []\<rparr>"])
  show "Config_Unmarshal (co_yaml ex_ops) [2] = Inr (ex_config (Some [''B'']))"
    by (simp add: ex_ops_def Config_Unmarshal_def)
qed (simp_all add: ex_instance_def ex_config_def keys_list_def ex_verifies(2))

text \<open>A node does not start with such a configuration; it gets one from an authorised key.\<close>

lemma loaded_config_has_keys:
  "LoadConfig ops fs d = Inr cfg \<Longrightarrow> keys_list (gl_AuthorizedKeys (cfg_Global cfg)) \<noteq> []"
  by (auto simp: LoadConfig_def ParseAndCheckConfig_Inr split: sum.splits)

section \<open>Signing\<close>

lemma SignConfig_checked:
  assumes sign: "SignConfig ag (co_yaml ops) (co_ssh ops) now keyFile keyText cfg updateTime = Inr (cfgData, sig)"
    and keys: "\<And>pk comment. ag_GetMatchingKeys ag keyText = Inr [(pk, comment)] \<Longrightarrow>
      \<exists>k \<in> set (keys_list (gl_AuthorizedKeys (cfg_Global cfg))).
        mpk_String (co_ssh ops) k = mpk_String (co_ssh ops) \<lparr>mpk_PublicKey = pk, mpk_Comment = comment\<rparr>"
    and verify: "\<And>d nspace key s. ag_SignSSH ag d nspace key = Inr s \<Longrightarrow> co_verify ops d s nspace key = None"
    and yaml: "\<And>c d. yaml_Marshal (co_yaml ops) c = Inr d \<Longrightarrow> yaml_Unmarshal (co_yaml ops) d = Inr c"
  shows "ParseAndCheckConfig ops cfgData sig None =
    Inr (if updateTime then cfg\<lparr>cfg_Global := (cfg_Global cfg)\<lparr>gl_LastUpdated := now\<rparr>\<rparr> else cfg)"
proof -
  let ?cfg = "if updateTime then cfg\<lparr>cfg_Global := (cfg_Global cfg)\<lparr>gl_LastUpdated := now\<rparr>\<rparr> else cfg"
  obtain pk comment where k: "ag_GetMatchingKeys ag keyText = Inr [(pk, comment)]"
      "Config_Marshal (co_yaml ops) ?cfg = Inr cfgData"
      "ag_SignSSH ag cfgData ''connectopus'' (mpk_String (co_ssh ops) \<lparr>mpk_PublicKey = pk, mpk_Comment = comment\<rparr>) = Inr sig"
    using sign by (auto simp: SignConfig_def Let_def split: option.splits sum.splits list.splits prod.splits)
  have same: "gl_AuthorizedKeys (cfg_Global ?cfg) = gl_AuthorizedKeys (cfg_Global cfg)" by simp
  obtain key where key: "key \<in> set (keys_list (gl_AuthorizedKeys (cfg_Global cfg)))"
      "mpk_String (co_ssh ops) key = mpk_String (co_ssh ops) \<lparr>mpk_PublicKey = pk, mpk_Comment = comment\<rparr>"
    using keys [OF k(1)] by blast
  then have "key_verifies ops cfgData sig key" using verify [OF k(3)] by (simp add: key_verifies_def)
  with key(1) show ?thesis using yaml k(2) same
    by (auto simp: ParseAndCheckConfig_Inr Config_Unmarshal_def Config_Marshal_def)
qed

text \<open>
  C16. A signed configuration is accepted: when the agent's signatures verify under the key that made them,
  and configurations are read back as they were written, the two files that \<open>SignConfig\<close> produces
  are loaded by every node, provided the key is one of the authorised keys of the configuration.
\<close>

theorem signed_config_loads:
  assumes sign: "SignConfig ag (co_yaml ops) (co_ssh ops) now keyFile keyText cfg updateTime = Inr (cfgData, sig)"
    and keys: "\<And>pk comment. ag_GetMatchingKeys ag keyText = Inr [(pk, comment)] \<Longrightarrow>
      \<lparr>mpk_PublicKey = pk, mpk_Comment = comment\<rparr> \<in> set (keys_list (gl_AuthorizedKeys (cfg_Global cfg)))"
    and verify: "\<And>d nspace key s. ag_SignSSH ag d nspace key = Inr s \<Longrightarrow> co_verify ops d s nspace key = None"
    and yaml: "\<And>c d. yaml_Marshal (co_yaml ops) c = Inr d \<Longrightarrow> yaml_Unmarshal (co_yaml ops) d = Inr c"
    and files: "go_get fs (path_Join [d, ''config.yml'']) = Some cfgData" "go_get fs (path_Join [d, ''config.sig'']) = Some sig"
  shows "LoadConfig ops fs d =
    Inr (if updateTime then cfg\<lparr>cfg_Global := (cfg_Global cfg)\<lparr>gl_LastUpdated := now\<rparr>\<rparr> else cfg)"
proof -
  have "ParseAndCheckConfig ops cfgData sig None =
      Inr (if updateTime then cfg\<lparr>cfg_Global := (cfg_Global cfg)\<lparr>gl_LastUpdated := now\<rparr>\<rparr> else cfg)"
    using sign by (rule SignConfig_checked) (use keys verify yaml in blast)+
  then show ?thesis by (simp only: LoadConfig_stored [OF files])
qed

definition ex_agent :: "string agent_ops" where
  "ex_agent = \<lparr>ag_GetSSHAgent = \<lambda>_. None, ag_GetMatchingKeys = \<lambda>_. Inr [(''A'', [])],
     ag_SignSSH = \<lambda>d nspace k. Inr (map (\<lambda>c. of_nat (of_char c)) k)\<rparr>"

theorem signed_config_loads_witness:
  "LoadConfig ex_ops [(''d/config.yml'', [1]), (''d/config.sig'', [65])] ''d'' = Inr (ex_config (Some [''A'']))"
proof -
  have p: "path_Join [''d'', ''config.yml''] = ''d/config.yml''" "path_Join [''d'', ''config.sig''] = ''d/config.sig''"
    by (simp_all add: path_Join_def path_Clean_def path_IsAbs_def)
  have "SignConfig ex_agent (co_yaml ex_ops) (co_ssh ex_ops) 0 [] [] (ex_config (Some [''A''])) False = Inr ([1], [65])"
    by (simp add: SignConfig_def ex_agent_def Config_Marshal_def ex_ops_def mpk_String_def trim_newlines_def)
  moreover have "\<lparr>mpk_PublicKey = pk, mpk_Comment = comment\<rparr> \<in> set (keys_list (gl_AuthorizedKeys (cfg_Global (ex_config (Some [''A''])))))"
    if "ag_GetMatchingKeys ex_agent [] = Inr [(pk, comment)]" for pk comment
    using that by (simp add: ex_agent_def ex_config_def keys_list_def)
  moreover have "co_verify ex_ops d s nspace key = None" if "ag_SignSSH ex_agent d nspace key = Inr s" for d nspace key s
    using that by (auto simp: ex_agent_def ex_ops_def)
  moreover have "yaml_Unmarshal (co_yaml ex_ops) d = Inr c" if "yaml_Marshal (co_yaml ex_ops) c = Inr d" for c d
    using that by (auto simp: ex_ops_def split: if_splits)
  ultimately have "LoadConfig ex_ops [(''d/config.yml'', [1]), (''d/config.sig'', [65])] ''d''
      = Inr (if False then (ex_config (Some [''A'']))\<lparr>cfg_Global := (cfg_Global (ex_config (Some [''A''])))\<lparr>gl_LastUpdated := 0\<rparr>\<rparr>
             else ex_config (Some [''A'']))"
    by (rule signed_config_loads) (simp_all add: p)
  then show ?thesis by simp
qed

section \<open>Items of a node\<close>

lemma get_add_children:
  assumes "go_wf m"
  shows "go_get (add_children mk m c) k = (case go_get m k of Some v \<Rightarrow> Some (mk v) | None \<Rightarrow> go_get c k)"
  using assms unfolding add_children_def go_wf_def
proof (induction m arbitrary: c)
  case (Cons kv m)
  obtain k' v where kv: "kv = (k', v)" by fastforce
  have "go_get m k' = None" using Cons.prems kv by (simp add: map_of_eq_None_iff)
  then show ?case using Cons kv by (simp add: gomap_simps split: option.split)
qed simp

text \<open>
  The items of a node are found under their names; when names collide, a namespace hides a tunnel, a
  tunnel a service, a service a backend, and any of them the name server and the control socket.
\<close>

theorem children_by_name:
  assumes "go_get (cfg_Nodes (nc_Config nc)) (nc_identity nc) = Some node"
    and "go_wf (nd_Backends node)" "go_wf (nd_Namespaces node)" "go_wf (nd_Services node)" "go_wf (nd_TunDevs node)"
  shows "go_get (NodeCfg_Children nc) k =
    (case go_get (nd_Namespaces node) k of Some v \<Rightarrow> Some (NamespaceItem v) | None \<Rightarrow>
     (case go_get (nd_TunDevs node) k of Some v \<Rightarrow> Some (TunDevItem v) | None \<Rightarrow>
      (case go_get (nd_Services node) k of Some v \<Rightarrow> Some (ServiceItem v) | None \<Rightarrow>
       (case go_get (nd_Backends node) k of Some v \<Rightarrow> Some (BackendItem v) | None \<Rightarrow>
         if k = ''dns'' then Some (DnsItem (nd_Dns node))
         else if k = ''cpctl'' then Some (CpctlItem (nd_Cpctl node)) else None))))"
  using assms by (auto simp: NodeCfg_Children_def get_add_children gomap_simps split: option.split)

definition ex_nodeCfg :: "(string, Params option) gomap \<Rightarrow> string NodeCfg" where
  "ex_nodeCfg bs = \<lparr>nc_Config = (ex_config (Some [''A'']))\<lparr>cfg_Nodes := [(''foo'', ex_nodeConfig\<lparr>nd_Backends := bs\<rparr>)]\<rparr>,
     nc_identity = ''foo'', nc_datadir = ''d''\<rparr>"

theorem children_by_name_witness:
  "go_get (NodeCfg_Children (ex_nodeCfg [(''dns'', None)])) ''dns'' = Some (BackendItem None)"
proof -
  have n: "go_get (cfg_Nodes (nc_Config (ex_nodeCfg [(''dns'', None)]))) (nc_identity (ex_nodeCfg [(''dns'', None)]))
      = Some (ex_nodeConfig\<lparr>nd_Backends := [(''dns'', None)]\<rparr>)" by (simp add: ex_nodeCfg_def)
  show ?thesis by (subst children_by_name [OF n]) (simp_all add: ex_nodeConfig_def go_wf_def)
qed

text \<open>
  Changing the backends of a node does not restart it, although its MTU is chosen from its backends
  when it is started: the item with other backends counts as equal.
\<close>

theorem backend_change_keeps_node:
  assumes "go_get (cfg_Nodes (nc_Config nc)) (nc_identity nc) = Some node"
  shows "ParentEqual (NodeItem nc) (NodeItem (nc\<lparr>nc_Config := (nc_Config nc)\<lparr>cfg_Nodes :=
      go_set (cfg_Nodes (nc_Config nc)) (nc_identity nc) (node\<lparr>nd_Backends := bs\<rparr>)\<rparr>\<rparr>))"
  using assms by (simp add: NodeCfg_ParentEqual_def global_equal_def gomap_simps)

theorem backend_change_keeps_node_witness:
  "ParentEqual (NodeItem (ex_nodeCfg [])) (NodeItem (ex_nodeCfg [(''b'', Some [(''type'', ''dtls-dialer'')])]))
   \<and> LeastMTU registry_init (ex_nodeConfig\<lparr>nd_Backends := []\<rparr>) 1500 = 1500
   \<and> LeastMTU registry_init (ex_nodeConfig\<lparr>nd_Backends := [(''b'', Some [(''type'', ''dtls-dialer'')])]\<rparr>) 1500 = 1452"
proof (intro conjI)
  show "ParentEqual (NodeItem (ex_nodeCfg [])) (NodeItem (ex_nodeCfg [(''b'', Some [(''type'', ''dtls-dialer'')])]))"
    using backend_change_keeps_node [of "ex_nodeCfg []" "ex_nodeConfig\<lparr>nd_Backends := []\<rparr>" "[(''b'', Some [(''type'', ''dtls-dialer'')])]"]
    by (simp add: ex_nodeCfg_def)
qed (simp_all add: LeastMTU_def registry_init_eq LookupBackend_def GetString_def backend_params_def)

section \<open>Tunnels\<close>

lemma find_go_set:
  assumes "\<forall>(k, r) \<in> set m. k \<noteq> name \<longrightarrow> \<not> P r" "P v"
  shows "\<exists>k. find (\<lambda>(_, r). P r) (go_set m name v) = Some (k, v)"
  using assms by (induction m) auto

lemma in_go_set: "x \<in> set (go_set m k v) \<Longrightarrow> x = (k, v) \<or> x \<in> set m"
  by (induction m) (auto split: if_splits)

lemma find_go_del:
  assumes "\<forall>(k, r) \<in> set m. k \<noteq> name \<longrightarrow> \<not> P r"
  shows "find (\<lambda>(_, r). P r) (go_del m name) = None"
  using assms by (induction m) auto


definition ex_tun :: TunDev where
  "ex_tun = \<lparr>tun_DeviceName = ''tun0'', tun_Address = [0xfd] @ replicate 14 0 @ [2], tun_Cost = f32_one\<rparr>"

definition ex_tun_packet :: bytes where
  "ex_tun_packet = replicate 7 0 @ [64] @ replicate 16 0 @ tun_Address ex_tun"

lemma ex_tun_facts:
  "length (tun_Address ex_tun) = 16" "length ex_tun_packet = 40" "DestinationAddress rfc_ipv6 ex_tun_packet = tun_Address ex_tun"
  "HopLimit rfc_ipv6 ex_tun_packet = 64" "\<not> IsV6MulticastAddress rfc_ipv6 (tun_Address ex_tun)"
  "\<not> IP_Equal (tun_Address ex_tun) (n_addr ex_dns_node)" "n_externalRoutes ex_dns_node = []"
  by (simp_all add: ex_tun_def ex_tun_packet_def rfc_ipv6_def byte_slice_def nth_append ex_dns_node_def netopus_New_def
      IP_Equal_def net_Equal_def numeral_eq_Suc)


end
