(* ===== verification/Control.thy ===== *)
theory Control
  imports Supervisor "HOL-Library.List_Lexorder" "HOL-Library.Char_ord"
begin

text \<open>
  \<^verbatim>\<open>pkg/cpctl\<close>: the control API of a running node (\<^verbatim>\<open>cpctl_resolver.go\<close>), the sockets it is served on
  (\<^verbatim>\<open>cpctl_server.go\<close>), and the client's choice of a socket, a key and a token (\<^verbatim>\<open>cpctl_client.go\<close>).

  The HTTP server, the GraphQL runtime and JSON web tokens are outside the repository. Strings are
  compared byte by byte, as Go does; the file system and the agent are represented by what they answer.
\<close>

section \<open>Queries\<close>

record StatusNodeConn =
  snc_Subnet :: string
  snc_Cost :: f32

record StatusNode =
  sn_Addr :: string
  sn_Name :: string
  sn_Conns :: "StatusNodeConn list"

record StatusSession =
  sts_Addr :: string
  sts_Connected :: bool
  sts_ConnStart :: string

record StatusGlobal =
  sg_Domain :: string
  sg_Subnet :: string
  sg_AuthorizedKeys :: "string list"
  sg_ConfigLastUpdated :: time

record ControlStatus =
  cs_Name :: string
  cs_Addr :: string
  cs_Global :: StatusGlobal
  cs_Nodes :: "StatusNode list"
  cs_Sessions :: "StatusSession list"

text \<open>\<open>Netns\<close>: all namespaces, or the one with a name. A nil registry has no namespaces.\<close>

definition Resolver_Netns :: "(string, int) gomap option \<Rightarrow> string option \<Rightarrow> (string \<times> int) list" where
  "Resolver_Netns nsReg filterName =
     (case nsReg of
        None \<Rightarrow> []
      | Some m \<Rightarrow>
          (case filterName of
             None \<Rightarrow> Registry_GetAll m
           | Some name \<Rightarrow> (case Registry_Get name m of Inl err \<Rightarrow> [] | Inr nsp \<Rightarrow> [(name, nsp)])))"

definition status_node :: "(string, string) gomap \<Rightarrow> string \<times> (string, f32) gomap \<Rightarrow> StatusNode" where
  "status_node addrToName = (\<lambda>(routerNode, routerRoutes).
     \<lparr>sn_Addr = routerNode, sn_Name = go_get_or [] addrToName routerNode,
      sn_Conns = sort_key snc_Subnet (map (\<lambda>(node, cost). \<lparr>snc_Subnet = node, snc_Cost = cost\<rparr>) routerRoutes)\<rparr>)"

text \<open>
  \<open>Status\<close>: \<open>GetConfig\<close> returns nil when the running item is not a node, and reading a field of it panics. \<open>format\<close>
  is \<open>Format(time.RFC3339)\<close>.
\<close>

definition Resolver_Status ::
    "(time \<Rightarrow> string) \<Rightarrow> 'key ssh_ops \<Rightarrow> 'key Config option \<Rightarrow> netopus \<Rightarrow> ControlStatus option" where
  "Resolver_Status format ssh c n =
     (case c of
        None \<Rightarrow> None
      | Some c \<Rightarrow>
          let ns = netopus_Status n in
          Some \<lparr>cs_Name = st_Name ns, cs_Addr = IP_String (st_Addr ns),
             cs_Global = \<lparr>sg_Domain = gl_Domain (cfg_Global c), sg_Subnet = Subnet_String (gl_Subnet (cfg_Global c)),
                sg_AuthorizedKeys = map (mpk_String ssh) (keys_list (gl_AuthorizedKeys (cfg_Global c))),
                sg_ConfigLastUpdated = gl_LastUpdated (cfg_Global c)\<rparr>,
             cs_Nodes = sort_key sn_Addr (map (status_node (st_AddrToName ns)) (st_RouterNodes ns)),
             cs_Sessions = sort_key sts_Addr
               (map (\<lambda>(sessAddr, sessStatus). \<lparr>sts_Addr = sessAddr, sts_Connected = ss_Connected sessStatus,
                       sts_ConnStart = format (ss_ConnStart sessStatus)\<rparr>) (st_Sessions ns))\<rparr>)"

text \<open>\<open>Config\<close> prints the running configuration; \<open>encode\<close> is the YAML encoder.\<close>

definition Resolver_Config :: "('key Config option \<Rightarrow> string result) \<Rightarrow> 'key Config option \<Rightarrow> string result" where
  "Resolver_Config encode cfg = encode cfg"

text \<open>\<open>UpdateConfig\<close> hands the configuration to \<open>NewConfig\<close> of the node; \<open>uuid\<close> is the new mutation id.\<close>

definition Resolver_UpdateConfig ::
    "'key check_ops \<Rightarrow> write_failures \<Rightarrow> string \<Rightarrow> bytes \<Rightarrow> bytes \<Rightarrow> 'key nodeInstance \<Rightarrow> file_system
       \<Rightarrow> string result \<times> 'key nodeInstance \<times> file_system \<times> 'key Config option" where
  "Resolver_UpdateConfig ops fail uuid yaml signature ni fs =
     (case nodeInstance_NewConfig ops fail yaml signature ni fs of
        (ni, fs, Some err, rc) \<Rightarrow> (Inl err, ni, fs, rc)
      | (ni, fs, None, rc) \<Rightarrow> (Inr uuid, ni, fs, rc))"

section \<open>Serving\<close>

text \<open>The keys whose tokens \<open>runServer\<close> accepts, read once when the server is started.\<close>

definition server_authKeys :: "'key ssh_ops \<Rightarrow> 'key Config option \<Rightarrow> string list" where
  "server_authKeys ssh cfg =
     (case cfg of None \<Rightarrow> [] | Some c \<Rightarrow> map (mpk_String ssh) (keys_list (gl_AuthorizedKeys (cfg_Global c))))"

text \<open>
  \<open>ServeUnix\<close>: the results of \<open>MkdirAll\<close>, of \<open>Remove\<close> (with whether it is that there is no such file), of \<open>Listen\<close>,
  \<open>Chmod\<close> and \<open>ServeHTTP\<close>. The second component tells whether the listener is open afterwards.
\<close>

record unix_env =
  ue_MkdirAll :: "string \<Rightarrow> go_error option"
  ue_Remove :: "string \<Rightarrow> (go_error \<times> bool) option"
  ue_Listen :: "string \<Rightarrow> nat result"
  ue_Chmod :: "string \<Rightarrow> go_error option"
  ue_ServeHTTP :: "go_error option"

text \<open>\<open>path.Dir\<close>.\<close>

definition path_Dir :: "string \<Rightarrow> string" where
  "path_Dir p = path_Clean (rev (dropWhile (\<lambda>c. c \<noteq> CHR ''/'') (rev p)))"

definition ServeUnix :: "unix_env \<Rightarrow> string \<Rightarrow> nat result \<times> bool" where
  "ServeUnix e socketFile =
     (case ue_MkdirAll e (path_Dir socketFile) of
        Some err \<Rightarrow> (Inl err, False)
      | None \<Rightarrow>
          (case ue_Remove e socketFile of
             Some (err, False) \<Rightarrow> (Inl err, False)
           | _ \<Rightarrow>
               (case ue_Listen e socketFile of
                  Inl err \<Rightarrow> (Inl err, False)
                | Inr li \<Rightarrow>
                    (case ue_Chmod e socketFile of
                       Some err \<Rightarrow> (Inl err, False)
                     | None \<Rightarrow>
                         (case ue_ServeHTTP e of
                            Some err \<Rightarrow> (Inl err, False)
                          | None \<Rightarrow> (Inr li, True))))))"

section \<open>The client\<close>

text \<open>\<open>keyString\<close> is the \<open>String\<close> method of an agent's key.\<close>

definition GetUsableKey :: "('key \<times> string \<Rightarrow> string) \<Rightarrow> 'key agent_ops \<Rightarrow> string \<Rightarrow> string result" where
  "GetUsableKey keyString a keyText =
     (case ag_GetMatchingKeys a keyText of
        Inl err \<Rightarrow> Inl (Wrapf ''error listing SSH keys'' err)
      | Inr keys \<Rightarrow>
          if length keys = 0 then Inl ErrNoSSHKeys
          else if length keys > 1 then Inl ErrMultipleSSHKeys
          else Inr (keyString (keys ! 0)))"

record claims =
  cl_Subject :: string
  cl_ExpiresAt :: "time option"

record token_env =
  te_SetupSigningMethod :: "go_error option"
  te_ParseDuration :: "string \<Rightarrow> time result"
  te_SignedString :: "claims \<Rightarrow> string \<Rightarrow> string result"   \<comment> \<open>of the claims with the key as key id\<close>

definition token_claims :: "token_env \<Rightarrow> time \<Rightarrow> string \<Rightarrow> claims result" where
  "token_claims e now tokenDuration =
     (let c = \<lparr>cl_Subject = ''connectopus-cpctl auth'', cl_ExpiresAt = None\<rparr> in
      if tokenDuration \<noteq> ''forever'' then
        (case (if tokenDuration = [] then Inr (24 * 3600 * second) else te_ParseDuration e tokenDuration) of
           Inl err \<Rightarrow> Inl (Wrapf ''error parsing token duration'' err)
         | Inr expireDuration \<Rightarrow> Inr (c\<lparr>cl_ExpiresAt := Some (now + expireDuration)\<rparr>))
      else Inr c)"

definition GenTokenFromAgent ::
    "('key \<times> string \<Rightarrow> string) \<Rightarrow> token_env \<Rightarrow> time \<Rightarrow> 'key agent_ops \<Rightarrow> string \<Rightarrow> string \<Rightarrow> string result" where
  "GenTokenFromAgent keyString e now a keyText tokenDuration =
     (case GetUsableKey keyString a keyText of
        Inl err \<Rightarrow> Inl (Wrapf ''error getting SSH key'' err)
      | Inr key \<Rightarrow>
          (case te_SetupSigningMethod e of
             Some err \<Rightarrow> Inl (Wrapf ''error initializing JWT signing method'' err)
           | None \<Rightarrow>
               (case token_claims e now tokenDuration of
                  Inl err \<Rightarrow> Inl err
                | Inr c \<Rightarrow>
                    (case te_SignedString e c key of
                       Inl err \<Rightarrow> Inl (Wrapf ''error signing token'' err)
                     | Inr tok \<Rightarrow> Inr tok))))"

definition GenToken ::
    "('key \<times> string \<Rightarrow> string) \<Rightarrow> token_env \<Rightarrow> time \<Rightarrow> 'key agent_ops \<Rightarrow> string \<Rightarrow> string \<Rightarrow> string \<Rightarrow> string result" where
  "GenToken keyString e now a keyFile keyText tokenDuration =
     (case ag_GetSSHAgent a keyFile of
        Some err \<Rightarrow> Inl (Wrapf ''error initializing SSH agent'' err)
      | None \<Rightarrow> GenTokenFromAgent keyString e now a keyText tokenDuration)"

definition ErrNoNode :: go_error where
  "ErrNoNode = Errorf ''no running node found''"

definition ErrMultipleNode :: go_error where
  "ErrMultipleNode = Errorf ''multiple running nodes found''"

text \<open>What \<open>os.Stat\<close> says of a path.\<close>

datatype file_stat = NoSuchFile | StatError | PlainFile | Directory

definition FindSockets ::
    "(string \<Rightarrow> string list result) \<Rightarrow> (string \<Rightarrow> file_stat) \<Rightarrow> string \<Rightarrow> string list result" where
  "FindSockets findDataDirs stat socketNode =
     (case findDataDirs socketNode of
        Inl err \<Rightarrow> Inl err
      | Inr dataDirs \<Rightarrow>
          Inr (filter (\<lambda>fn. stat fn = PlainFile) (map (\<lambda>dir. path_Join [dir, ''cpctl.sock'']) dataDirs)))"

definition FindSocket ::
    "(string \<Rightarrow> string list result) \<Rightarrow> (string \<Rightarrow> file_stat) \<Rightarrow> string \<Rightarrow> string \<Rightarrow> string result" where
  "FindSocket findDataDirs stat envSock socketNode =
     (if envSock \<noteq> [] then Inr envSock
      else case FindSockets findDataDirs stat socketNode of
        Inl err \<Rightarrow> Inl (Wrapf ''error listing socket files'' err)
      | Inr socketList \<Rightarrow>
          if length socketList = 0 then Inl ErrNoNode
          else if length socketList > 1 then Inl ErrMultipleNode
          else Inr (socketList ! 0))"

text \<open>
  The client that is made: its socket, the address its requests name, and the token in its cookie. \<open>urlParse\<close>
  is the error of \<open>url.Parse\<close>; making a cookie jar without options does not fail.
\<close>

record socket_client =
  sc_socket :: string
  sc_url :: string
  sc_token :: string

definition NewSocketClient ::
    "(string \<Rightarrow> go_error option) \<Rightarrow> (string \<Rightarrow> string list result) \<Rightarrow> (string \<Rightarrow> file_stat) \<Rightarrow> string \<Rightarrow> string \<Rightarrow> string \<Rightarrow> string \<Rightarrow> string
       \<Rightarrow> socket_client result" where
  "NewSocketClient urlParse findDataDirs stat envSock socketFile socketNode authToken proxyTo =
     (case (if socketFile = [] then FindSocket findDataDirs stat envSock socketNode else Inr socketFile) of
        Inl err \<Rightarrow> Inl err
      | Inr socketFile \<Rightarrow>
          let clientURL = (if proxyTo \<noteq> [] then ''http://cpctl.sock/proxy/'' @ proxyTo @ ''/query''
                           else ''http://cpctl.sock/query'')
          in if stat socketFile = NoSuchFile
             then Inl (Errorf (''stat '' @ socketFile @ '': no such file or directory''))
             else (case urlParse clientURL of
                     Some err \<Rightarrow> Inl (Wrapf ''error parsing client URL'' err)
                   | None \<Rightarrow> Inr \<lparr>sc_socket = socketFile, sc_url = clientURL, sc_token = authToken\<rparr>))"

definition NewTokenAndSocketClient ::
    "string result \<Rightarrow> (string \<Rightarrow> socket_client result) \<Rightarrow> socket_client result" where
  "NewTokenAndSocketClient genToken newSocketClient =
     (case genToken of
        Inl err \<Rightarrow> Inl (Wrapf ''error generating token'' err)
      | Inr tok \<Rightarrow> newSocketClient tok)"

section \<open>Properties\<close>

text \<open>
  The status shows the whole network in a fixed order: one entry for every node of the router's table and for
  every session, sorted by address, whatever the order of the maps they are read from.
\<close>

lemma status_sorted:
  assumes "Resolver_Status format ssh (Some c) n = Some s"
  shows "sorted (map sn_Addr (cs_Nodes s))" "sorted (map sts_Addr (cs_Sessions s))"
    "mset (map sn_Addr (cs_Nodes s)) = mset (map fst (st_RouterNodes (netopus_Status n)))"
    "mset (map sts_Addr (cs_Sessions s)) = mset (map fst (st_Sessions (netopus_Status n)))"
proof -
  have f: "sn_Addr \<circ> status_node m = fst" for m by (auto simp: status_node_def)
  note s = assms [unfolded Resolver_Status_def Let_def option.case option.inject, symmetric]
  show "sorted (map sn_Addr (cs_Nodes s))" "sorted (map sts_Addr (cs_Sessions s))" by (simp_all add: s)
  have "mset (map sn_Addr (cs_Nodes s)) = image_mset sn_Addr (mset (map (status_node (st_AddrToName (netopus_Status n))) (st_RouterNodes (netopus_Status n))))"
    by (simp add: s)
  then show "mset (map sn_Addr (cs_Nodes s)) = mset (map fst (st_RouterNodes (netopus_Status n)))"
    by (simp add: f multiset.map_comp)
  have g: "sts_Addr \<circ> (\<lambda>(a, t). \<lparr>sts_Addr = a, sts_Connected = ss_Connected t, sts_ConnStart = format (ss_ConnStart t)\<rparr>) = fst"
    by auto
  have "mset (map sts_Addr (cs_Sessions s)) = image_mset sts_Addr (mset (map (\<lambda>(a, t). \<lparr>sts_Addr = a, sts_Connected = ss_Connected t,
      sts_ConnStart = format (ss_ConnStart t)\<rparr>) (st_Sessions (netopus_Status n))))" by (simp add: s)
  then show "mset (map sts_Addr (cs_Sessions s)) = mset (map fst (st_Sessions (netopus_Status n)))"
    by (simp add: g multiset.map_comp)
qed

text \<open>The mutation is answered with an id only if the configuration was authorised and installed.\<close>

lemma control_update_authorized:
  assumes "Resolver_UpdateConfig ops fail uuid yaml sig ni fs = (Inr u, ni', fs', rc)"
  shows "\<exists>cfg. ParseAndCheckConfig ops yaml sig (gl_AuthorizedKeys (cfg_Global (ni_cfg ni))) = Inr cfg \<and> rc = Some cfg"
proof -
  have "nodeInstance_NewConfig ops fail yaml sig ni fs = (ni', fs', None, rc)"
    using assms by (auto simp: Resolver_UpdateConfig_def split: prod.splits option.splits)
  then show ?thesis by (rule NewConfig_ok) blast
qed

text \<open>A token expires unless it was asked for as \<open>forever\<close>, by default after a day.\<close>

lemma token_expiry:
  assumes "token_claims e now d = Inr c"
  shows "cl_ExpiresAt c = None \<longleftrightarrow> d = ''forever''" "d = [] \<Longrightarrow> cl_ExpiresAt c = Some (now + 86400 * second)"
  using assms by (auto simp: token_claims_def Let_def split: if_splits sum.splits)

text \<open>
  Without an explicit socket, the client finds the node exactly when one data directory has a socket; the
  error tells none from several.
\<close>

lemma socket_choice:
  assumes "FindSockets findDataDirs stat node = Inr socks"
  shows "FindSocket findDataDirs stat [] node =
    (case socks of [] \<Rightarrow> Inl ErrNoNode | [s] \<Rightarrow> Inr s | _ \<Rightarrow> Inl ErrMultipleNode)"
  using assms by (auto simp: FindSocket_def split: list.split)

text \<open>A failed \<open>ServeUnix\<close> leaves no listener open.\<close>

lemma ServeUnix_closed: "ServeUnix e f = (r, opened) \<Longrightarrow> opened \<longleftrightarrow> (\<exists>li. r = Inr li)"
  by (cases "ue_Listen e f") (auto simp: ServeUnix_def split: option.splits prod.splits bool.splits, metis+)

end
