(* ===== verification/Links.thy ===== *)
theory Links
  imports Supervisor
begin

text \<open>
  \<^verbatim>\<open>pkg/links\<close>: the links that carry packets between a node and the operating system. \<^verbatim>\<open>tun_linux.go\<close> prepares
  a tunnel device and \<^verbatim>\<open>netns_linux.go\<close> a network namespace with a helper process (the shim).

  The operating system is a parameter: \<open>net_ops\<close> holds the calls of the \<open>netlink\<close> and \<open>water\<close> packages over
  a state of any type, each of which may fail in any state. What \<open>SetupLink\<close> relies on is stated by
  \<open>kernel_ok\<close> through a view of the devices. The shim is a sequence of system calls, so its model is the
  list of the calls it makes, together with its result.
\<close>

section \<open>Calls of the operating system\<close>

record linkOptInfo =
  lo_setUser :: bool
  lo_uid :: nat
  lo_gid :: nat
  lo_persist :: bool
  lo_check :: bool

text \<open>The attributes of a link, as they were when it was looked up.\<close>

record link_attrs =
  la_Name :: string
  la_Index :: int
  la_MTU :: int
  la_Up :: bool

record nl_route =
  rt_LinkIndex :: int
  rt_Scope :: nat
  rt_Src :: ip
  rt_Dst :: "ipnet option"

definition SCOPE_UNIVERSE :: nat where "SCOPE_UNIVERSE = 0"

record water_config =
  wc_Name :: string
  wc_Persist :: bool
  wc_Permissions :: "(nat \<times> nat) option"

text \<open>A failed \<open>LinkByName\<close> says whether its error is a \<open>LinkNotFoundError\<close>.\<close>

record ('s, 'i) net_ops =
  no_LinkByName :: "'s \<Rightarrow> string \<Rightarrow> (bool \<times> go_error) + link_attrs"
  no_New :: "water_config \<Rightarrow> 's \<Rightarrow> 's \<times> 'i result"
  no_AddrList :: "'s \<Rightarrow> link_attrs \<Rightarrow> ipnet list result"
  no_AddrAdd :: "link_attrs \<Rightarrow> ipnet \<Rightarrow> 's \<Rightarrow> 's \<times> go_error option"
  no_LinkSetMTU :: "link_attrs \<Rightarrow> int \<Rightarrow> 's \<Rightarrow> 's \<times> go_error option"
  no_LinkSetUp :: "link_attrs \<Rightarrow> 's \<Rightarrow> 's \<times> go_error option"
  no_RouteList :: "'s \<Rightarrow> link_attrs \<Rightarrow> nl_route list result"
  no_RouteAdd :: "nl_route \<Rightarrow> 's \<Rightarrow> 's \<times> go_error option"
  no_Close :: "'i \<Rightarrow> 's \<Rightarrow> 's"

section \<open>Tunnel devices\<close>

definition WithUidGid :: "nat \<Rightarrow> nat \<Rightarrow> linkOptInfo \<Rightarrow> linkOptInfo" where
  "WithUidGid uid gid o1 = o1\<lparr>lo_setUser := True, lo_uid := uid, lo_gid := gid\<rparr>"

definition WithPersist :: "linkOptInfo \<Rightarrow> linkOptInfo" where
  "WithPersist o1 = o1\<lparr>lo_persist := True\<rparr>"

definition WithCheck :: "linkOptInfo \<Rightarrow> linkOptInfo" where
  "WithCheck o1 = o1\<lparr>lo_check := True\<rparr>"

definition link_options :: "(linkOptInfo \<Rightarrow> linkOptInfo) list \<Rightarrow> linkOptInfo" where
  "link_options opts =
     fold (\<lambda>f o1. f o1) opts \<lparr>lo_setUser = False, lo_uid = 0, lo_gid = 0, lo_persist = False, lo_check = False\<rparr>"

text \<open>One stage of the setup: the state it leaves, and its error. The next stage runs when there is none.\<close>

fun and_then :: "'s \<times> go_error option \<Rightarrow> ('s \<Rightarrow> 's \<times> go_error option) \<Rightarrow> 's \<times> go_error option" where
  "and_then (s, None) k = k s"
| "and_then (s, Some err) k = (s, Some err)"

fun wrap_err :: "string \<Rightarrow> 's \<times> go_error option \<Rightarrow> 's \<times> go_error option" where
  "wrap_err msg (s, err) = (s, map_option (Wrapf msg) err)"

text \<open>The text of an \<open>int\<close>.\<close>

definition strconv_Itoa :: "int \<Rightarrow> string" where
  "strconv_Itoa i = (if i < 0 then ''-'' @ itoa (nat (- i)) else itoa (nat i))"

definition tunMask :: mask where
  "tunMask = net_CIDRMask (8 * 16) (8 * 16)"

definition has_address :: "ip \<Rightarrow> ipnet \<Rightarrow> bool" where
  "has_address tunAddr addr \<longleftrightarrow> net_Equal (ipn_IP addr) tunAddr \<and> Mask_String (ipn_Mask addr) = Mask_String tunMask"

definition ensure_address ::
    "('s, 'i) net_ops \<Rightarrow> bool \<Rightarrow> string \<Rightarrow> ip \<Rightarrow> link_attrs \<Rightarrow> 's \<Rightarrow> 's \<times> go_error option" where
  "ensure_address ops check deviceName tunAddr nl s =
     (case no_AddrList ops s nl of
        Inl err \<Rightarrow> (s, Some (Wrapf ''error listing addresses of tun device'' err))
      | Inr addrs \<Rightarrow>
          if list_ex (has_address tunAddr) addrs then (s, None)
          else if check
            then (s, Some (Errorf (''tun device '' @ deviceName @ '' does not have address '' @ net_IP_String tunAddr)))
          else wrap_err ''error setting tun device address''
                 (no_AddrAdd ops nl \<lparr>ipn_IP = tunAddr, ipn_Mask = net_CIDRMask (8 * 16) (8 * 16)\<rparr> s))"

definition ensure_mtu ::
    "('s, 'i) net_ops \<Rightarrow> bool \<Rightarrow> string \<Rightarrow> 16 word \<Rightarrow> link_attrs \<Rightarrow> 's \<Rightarrow> 's \<times> go_error option" where
  "ensure_mtu ops check deviceName mtu nl s =
     (if la_MTU nl = uint mtu then (s, None)
      else if check
        then (s, Some (Errorf (''tun device '' @ deviceName @ '' has MTU '' @ strconv_Itoa (la_MTU nl) @ '' but should be '' @ itoa (unat mtu))))
      else wrap_err (''error setting tun interface MTU to '' @ itoa (unat mtu)) (no_LinkSetMTU ops nl (uint mtu) s))"

definition ensure_up :: "('s, 'i) net_ops \<Rightarrow> bool \<Rightarrow> string \<Rightarrow> link_attrs \<Rightarrow> 's \<Rightarrow> 's \<times> go_error option" where
  "ensure_up ops check deviceName nl s =
     (if la_Up nl then (s, None)
      else if check then (s, Some (Errorf (''tun device '' @ deviceName @ '' is down'')))
      else wrap_err ''error activating tun device'' (no_LinkSetUp ops nl s))"

text \<open>A route without a destination is a default route; its text is that of a nil \<open>*net.IPNet\<close>.\<close>

definition dst_String :: "ipnet option \<Rightarrow> string" where
  "dst_String d = (case d of None \<Rightarrow> ''<nil>'' | Some n \<Rightarrow> net_IPNet_String n)"

definition has_route :: "ip \<Rightarrow> ipnet \<Rightarrow> nl_route \<Rightarrow> bool" where
  "has_route tunAddr sub route \<longleftrightarrow>
     rt_Scope route = SCOPE_UNIVERSE \<and> net_Equal (rt_Src route) tunAddr \<and> dst_String (rt_Dst route) = net_IPNet_String sub"

definition tun_route :: "ip \<Rightarrow> ipnet \<Rightarrow> link_attrs \<Rightarrow> nl_route" where
  "tun_route tunAddr sub nl =
     \<lparr>rt_LinkIndex = la_Index nl, rt_Scope = SCOPE_UNIVERSE, rt_Src = tunAddr, rt_Dst = Some sub\<rparr>"

definition ensure_route ::
    "('s, 'i) net_ops \<Rightarrow> bool \<Rightarrow> string \<Rightarrow> ip \<Rightarrow> ipnet \<Rightarrow> link_attrs \<Rightarrow> 's \<Rightarrow> 's \<times> go_error option" where
  "ensure_route ops check deviceName tunAddr sub nl s =
     (case no_RouteList ops s nl of
        Inl err \<Rightarrow> (s, Some (Wrapf ''error listing routes'' err))
      | Inr routes \<Rightarrow>
          if list_ex (has_route tunAddr sub) routes then (s, None)
          else if check
            then (s, Some (Errorf (''tun device '' @ deviceName @ '' does not have a route to '' @ net_IPNet_String sub)))
          else wrap_err (''error adding route '' @ net_IPNet_String sub @ '' to tun device'')
                 (no_RouteAdd ops (tun_route tunAddr sub nl) s))"

definition configure_link ::
    "('s, 'i) net_ops \<Rightarrow> bool \<Rightarrow> string \<Rightarrow> ip \<Rightarrow> ipnet \<Rightarrow> 16 word \<Rightarrow> link_attrs \<Rightarrow> 's \<Rightarrow> 's \<times> go_error option" where
  "configure_link ops check deviceName tunAddr sub mtu nl s =
     and_then (ensure_address ops check deviceName tunAddr nl s) (\<lambda>s.
     and_then (ensure_mtu ops check deviceName mtu nl s) (\<lambda>s.
     and_then (ensure_up ops check deviceName nl s) (\<lambda>s.
     ensure_route ops check deviceName tunAddr sub nl s)))"

text \<open>
  Opening the device: the interface is closed when a later stage fails. A link that did not exist before
  is looked up once the interface is open.
\<close>

definition open_link ::
    "('s, 'i) net_ops \<Rightarrow> linkOptInfo \<Rightarrow> bool \<Rightarrow> string \<Rightarrow> ip \<Rightarrow> ipnet \<Rightarrow> 16 word \<Rightarrow> link_attrs option \<Rightarrow> 's
      \<Rightarrow> 's \<times> 'i option result" where
  "open_link ops o1 persistTun deviceName tunAddr sub mtu nl s =
     (case no_New ops \<lparr>wc_Name = deviceName, wc_Persist = persistTun,
                       wc_Permissions = (if lo_setUser o1 then Some (lo_uid o1, lo_gid o1) else None)\<rparr> s of
        (s, Inl err) \<Rightarrow> (s, Inl (Wrapf ''error opening tunnel interface'' err))
      | (s, Inr tunIf) \<Rightarrow>
          (case (case nl of Some l \<Rightarrow> Inr l | None \<Rightarrow> no_LinkByName ops s deviceName) of
             Inl (notFound, err) \<Rightarrow> (no_Close ops tunIf s, Inl (Wrapf ''error accessing tun device'' err))
           | Inr l \<Rightarrow>
               (case configure_link ops False deviceName tunAddr sub mtu l s of
                  (s, Some err) \<Rightarrow> (no_Close ops tunIf s, Inl err)
                | (s, None) \<Rightarrow> (s, Inr (Some tunIf)))))"

definition SetupLink ::
    "('s, 'i) net_ops \<Rightarrow> string \<Rightarrow> ip \<Rightarrow> ipnet \<Rightarrow> 16 word \<Rightarrow> (linkOptInfo \<Rightarrow> linkOptInfo) list \<Rightarrow> 's
      \<Rightarrow> 's \<times> 'i option result" where
  "SetupLink ops deviceName tunAddr sub mtu opts s =
     (let linkOpts = link_options opts in
      case no_LinkByName ops s deviceName of
        Inl (True, err) \<Rightarrow>
          if lo_check linkOpts then (s, Inl (Errorf (''tun device '' @ deviceName @ '' does not exist'')))
          else open_link ops linkOpts (lo_persist linkOpts) deviceName tunAddr sub mtu None s
      | Inl (False, err) \<Rightarrow> (s, Inl (Wrapf ''error accessing tun device'' err))
      | Inr nl \<Rightarrow>
          if lo_check linkOpts
          then (case configure_link ops True deviceName tunAddr sub mtu nl s of
                  (s, Some err) \<Rightarrow> (s, Inl err)
                | (s, None) \<Rightarrow> (s, Inr None))
          else open_link ops linkOpts True deviceName tunAddr sub mtu (Some nl) s)"

record 'i tun_Link =
  tl_tunRWC :: "'i option"
  tl_mtu :: "16 word"

text \<open>\<open>New\<close>; the publisher of the link reads packets of at most \<open>mtu\<close> bytes.\<close>

definition tun_New ::
    "('s, 'i) net_ops \<Rightarrow> string \<Rightarrow> ip \<Rightarrow> ipnet \<Rightarrow> 16 word \<Rightarrow> 's \<Rightarrow> 's \<times> ('i tun_Link \<times> nat) result" where
  "tun_New ops deviceName tunAddr sub mtu s =
     (case SetupLink ops deviceName tunAddr sub mtu [] s of
        (s, Inl err) \<Rightarrow> (s, Inl err)
      | (s, Inr tunIf) \<Rightarrow> (s, Inr (\<lparr>tl_tunRWC = tunIf, tl_mtu = mtu\<rparr>, unat mtu)))"

definition tun_SendPacket :: "(bytes \<Rightarrow> nat result) \<Rightarrow> bytes \<Rightarrow> go_error option" where
  "tun_SendPacket rwc_Write packet =
     (case rwc_Write packet of
        Inl err \<Rightarrow> Some err
      | Inr n \<Rightarrow>
          if n \<noteq> length packet
          then Some (Errorf (''tun device only wrote '' @ itoa n @ '' bytes of '' @ itoa (length packet)))
          else None)"

definition tun_MTU :: "'i tun_Link \<Rightarrow> 16 word" where
  "tun_MTU l = tl_mtu l"

section \<open>A tunnel that has been set up passes the check\<close>

text \<open>
  What the setup relies on: the calls that report on a device agree with a view of the devices, and those that change
  one have the documented effect when they report success. Opening an existing device leaves it as it is;
  adding an address, raising the device and adding a route keep what is there; and changing the MTU
  keeps the addresses, provided that it is not below the least MTU of IPv6 (1280), where Linux
  drops them. A route is listed as it was added when its destination has no host bits. Other devices
  keep what they have.
\<close>

record device =
  dv_Index :: int
  dv_MTU :: int
  dv_Up :: bool
  dv_Addrs :: "ipnet list"
  dv_Routes :: "nl_route list"

definition link_of :: "string \<Rightarrow> device \<Rightarrow> link_attrs" where
  "link_of n d = \<lparr>la_Name = n, la_Index = dv_Index d, la_MTU = dv_MTU d, la_Up = dv_Up d\<rparr>"

definition network_only :: "ipnet \<Rightarrow> bool" where
  "network_only n \<longleftrightarrow> net_IP_Mask (ipn_IP n) (ipn_Mask n) = ipn_IP n"

definition reads_agree :: "('s, 'i) net_ops \<Rightarrow> ('s \<Rightarrow> string \<Rightarrow> device option) \<Rightarrow> bool" where
  "reads_agree ops view \<longleftrightarrow>
     (\<forall>s n l. no_LinkByName ops s n = Inr l \<longrightarrow> (\<exists>d. view s n = Some d \<and> l = link_of n d)) \<and>
     (\<forall>s l as d. no_AddrList ops s l = Inr as \<and> view s (la_Name l) = Some d \<longrightarrow> as = dv_Addrs d) \<and>
     (\<forall>s l rs d. no_RouteList ops s l = Inr rs \<and> view s (la_Name l) = Some d \<longrightarrow> rs = dv_Routes d)"

definition keeps_settings :: "device \<Rightarrow> device \<Rightarrow> bool" where
  "keeps_settings d d' \<longleftrightarrow> dv_Index d' = dv_Index d \<and> dv_MTU d' = dv_MTU d \<and> set (dv_Addrs d) \<subseteq> set (dv_Addrs d')"

definition grows :: "device \<Rightarrow> device \<Rightarrow> bool" where
  "grows d d' \<longleftrightarrow> keeps_settings d d' \<and> dv_Up d' = dv_Up d \<and> set (dv_Routes d) \<subseteq> set (dv_Routes d')"

definition spares_others :: "('s \<Rightarrow> string \<Rightarrow> device option) \<Rightarrow> string \<Rightarrow> 's \<Rightarrow> 's \<Rightarrow> bool" where
  "spares_others view n s s' \<longleftrightarrow>
     (\<forall>n' d. n' \<noteq> n \<and> view s n' = Some d \<longrightarrow> (\<exists>d'. view s' n' = Some d' \<and> grows d d'))"

definition changes_work :: "('s, 'i) net_ops \<Rightarrow> ('s \<Rightarrow> string \<Rightarrow> device option) \<Rightarrow> bool" where
  "changes_work ops view \<longleftrightarrow>
     (\<forall>c s s' i. no_New ops c s = (s', Inr i) \<longrightarrow> spares_others view (wc_Name c) s s' \<and>
        (\<forall>d. view s (wc_Name c) = Some d \<longrightarrow> view s' (wc_Name c) = Some d)) \<and>
     (\<forall>l a s s' d. no_AddrAdd ops l a s = (s', None) \<and> view s (la_Name l) = Some d \<longrightarrow> spares_others view (la_Name l) s s' \<and>
        (\<exists>d'. view s' (la_Name l) = Some d' \<and> keeps_settings d d' \<and> dv_Up d' = dv_Up d \<and> a \<in> set (dv_Addrs d'))) \<and>
     (\<forall>l m s s' d. no_LinkSetMTU ops l m s = (s', None) \<and> view s (la_Name l) = Some d \<and> 1280 \<le> m \<longrightarrow>
        spares_others view (la_Name l) s s' \<and>
        (\<exists>d'. view s' (la_Name l) = Some d' \<and> keeps_settings (d\<lparr>dv_MTU := m\<rparr>) d' \<and> dv_Up d' = dv_Up d)) \<and>
     (\<forall>l s s' d. no_LinkSetUp ops l s = (s', None) \<and> view s (la_Name l) = Some d \<longrightarrow> spares_others view (la_Name l) s s' \<and>
        (\<exists>d'. view s' (la_Name l) = Some d' \<and> keeps_settings d d' \<and> dv_Up d')) \<and>
     (\<forall>r s s' n d dst. no_RouteAdd ops r s = (s', None) \<and> view s n = Some d \<and> rt_LinkIndex r = dv_Index d \<and>
          rt_Dst r = Some dst \<and> network_only dst \<longrightarrow> spares_others view n s s' \<and>
        (\<exists>d'. view s' n = Some d' \<and> keeps_settings d d' \<and> dv_Up d' = dv_Up d \<and> r \<in> set (dv_Routes d')))"

definition kernel_ok :: "('s, 'i) net_ops \<Rightarrow> ('s \<Rightarrow> string \<Rightarrow> device option) \<Rightarrow> bool" where
  "kernel_ok ops view \<longleftrightarrow> reads_agree ops view \<and> changes_work ops view"

definition device_ready :: "ip \<Rightarrow> ipnet \<Rightarrow> 16 word \<Rightarrow> device \<Rightarrow> bool" where
  "device_ready tunAddr sub mtu d \<longleftrightarrow>
     list_ex (has_address tunAddr) (dv_Addrs d) \<and> dv_MTU d = uint mtu \<and> dv_Up d \<and> list_ex (has_route tunAddr sub) (dv_Routes d)"

text \<open>Reports on a state that do not fail.\<close>

definition reports :: "('s, 'i) net_ops \<Rightarrow> 's \<Rightarrow> string \<Rightarrow> bool" where
  "reports ops s n \<longleftrightarrow>
     (\<exists>l as rs. no_LinkByName ops s n = Inr l \<and> no_AddrList ops s l = Inr as \<and> no_RouteList ops s l = Inr rs)"

lemma wf_subnet_network_only: "wf_subnet s \<Longrightarrow> network_only (Subnet_AsIPNet s)"
  by (simp add: network_only_def Subnet_AsIPNet_def wf_subnet_masked)

lemma net_Equal_refl [simp]: "net_Equal a a"
  by (simp add: net_Equal_def)

lemma list_ex_mono: "list_ex P xs \<Longrightarrow> set xs \<subseteq> set ys \<Longrightarrow> list_ex P ys"
  by (auto simp: list_ex_iff)

lemma wrap_err_None [simp]: "wrap_err m r = (s, None) \<longleftrightarrow> r = (s, None)"
  by (cases r) auto

lemma and_then_None: "and_then r k = (s', None) \<longleftrightarrow> (\<exists>s. r = (s, None) \<and> k s = (s', None))"
proof (cases r)
  case (Pair s err)
  then show ?thesis by (cases err) auto
qed

lemma New_works:
  "kernel_ok ops view \<Longrightarrow> no_New ops c s = (s', Inr i) \<Longrightarrow> spares_others view (wc_Name c) s s' \<and>
   (view s (wc_Name c) = Some d \<longrightarrow> view s' (wc_Name c) = Some d)"
  unfolding kernel_ok_def changes_work_def by metis

lemma AddrAdd_works:
  "kernel_ok ops view \<Longrightarrow> no_AddrAdd ops l a s = (s', None) \<Longrightarrow> view s (la_Name l) = Some d \<Longrightarrow>
   spares_others view (la_Name l) s s' \<and>
   (\<exists>d'. view s' (la_Name l) = Some d' \<and> keeps_settings d d' \<and> dv_Up d' = dv_Up d \<and> a \<in> set (dv_Addrs d'))"
  unfolding kernel_ok_def changes_work_def by blast

lemma LinkSetMTU_works:
  "kernel_ok ops view \<Longrightarrow> no_LinkSetMTU ops l m s = (s', None) \<Longrightarrow> view s (la_Name l) = Some d \<Longrightarrow> 1280 \<le> m \<Longrightarrow>
   spares_others view (la_Name l) s s' \<and>
   (\<exists>d'. view s' (la_Name l) = Some d' \<and> keeps_settings (d\<lparr>dv_MTU := m\<rparr>) d' \<and> dv_Up d' = dv_Up d)"
  unfolding kernel_ok_def changes_work_def by blast

lemma LinkSetUp_works:
  "kernel_ok ops view \<Longrightarrow> no_LinkSetUp ops l s = (s', None) \<Longrightarrow> view s (la_Name l) = Some d \<Longrightarrow>
   spares_others view (la_Name l) s s' \<and>
   (\<exists>d'. view s' (la_Name l) = Some d' \<and> keeps_settings d d' \<and> dv_Up d')"
  unfolding kernel_ok_def changes_work_def by blast

lemma RouteAdd_works:
  "kernel_ok ops view \<Longrightarrow> no_RouteAdd ops r s = (s', None) \<Longrightarrow> view s n = Some d \<Longrightarrow> rt_LinkIndex r = dv_Index d \<Longrightarrow>
   rt_Dst r = Some dst \<Longrightarrow> network_only dst \<Longrightarrow>
   spares_others view n s s' \<and>
   (\<exists>d'. view s' n = Some d' \<and> keeps_settings d d' \<and> dv_Up d' = dv_Up d \<and> r \<in> set (dv_Routes d'))"
  unfolding kernel_ok_def changes_work_def by blast

lemma keeps_settings_refl [simp]: "keeps_settings d d"
  by (simp add: keeps_settings_def)

lemma grows_trans: "grows d d' \<Longrightarrow> grows d' d'' \<Longrightarrow> grows d d''"
  by (auto simp: grows_def keeps_settings_def)

lemma spares_refl [simp]: "spares_others view n s s"
  by (auto simp: spares_others_def grows_def)

lemma spares_trans: "spares_others view n s s1 \<Longrightarrow> spares_others view n s1 s2 \<Longrightarrow> spares_others view n s s2"
  unfolding spares_others_def by (meson grows_trans)

lemma ensure_address_ready:
  assumes k: "kernel_ok ops view" and v: "view s (la_Name nl) = Some d"
    and run: "ensure_address ops False n a nl s = (s', None)"
  shows "spares_others view (la_Name nl) s s' \<and>
    (\<exists>d'. view s' (la_Name nl) = Some d' \<and> keeps_settings d d' \<and> dv_Up d' = dv_Up d \<and> list_ex (has_address a) (dv_Addrs d'))"
proof (cases "no_AddrList ops s nl")
  case (Inr addrs)
  then have addrs: "addrs = dv_Addrs d"
    using k v by (simp add: kernel_ok_def reads_agree_def)
  show ?thesis
  proof (cases "list_ex (has_address a) addrs")
    case True
    then show ?thesis using run v Inr addrs by (auto simp: ensure_address_def)
  next
    case False
    let ?a = "\<lparr>ipn_IP = a, ipn_Mask = net_CIDRMask (8 * 16) (8 * 16)\<rparr>"
    have "no_AddrAdd ops nl ?a s = (s', None)" using run Inr False by (simp add: ensure_address_def)
    then obtain d' where d': "spares_others view (la_Name nl) s s'" "view s' (la_Name nl) = Some d'" "keeps_settings d d'" "dv_Up d' = dv_Up d" "?a \<in> set (dv_Addrs d')"
      using AddrAdd_works [OF k _ v] by blast
    moreover have "has_address a ?a" by (simp add: has_address_def tunMask_def)
    ultimately show ?thesis by (auto simp: list_ex_iff)
  qed
qed (use run in \<open>simp add: ensure_address_def\<close>)

lemma ensure_mtu_ready:
  assumes k: "kernel_ok ops view" and v: "view s (la_Name nl) = Some d" "la_MTU nl = dv_MTU d" and mtu: "1280 \<le> uint mtu"
    and run: "ensure_mtu ops False n mtu nl s = (s', None)"
  shows "spares_others view (la_Name nl) s s' \<and>
    (\<exists>d'. view s' (la_Name nl) = Some d' \<and> keeps_settings (d\<lparr>dv_MTU := uint mtu\<rparr>) d' \<and> dv_Up d' = dv_Up d)"
proof (cases "la_MTU nl = uint mtu")
  case True
  then show ?thesis using run v by (auto simp: ensure_mtu_def keeps_settings_def)
next
  case False
  then have "no_LinkSetMTU ops nl (uint mtu) s = (s', None)" using run by (simp add: ensure_mtu_def)
  then show ?thesis using LinkSetMTU_works [OF k _ v(1) mtu] by blast
qed

lemma ensure_up_ready:
  assumes k: "kernel_ok ops view" and v: "view s (la_Name nl) = Some d" "la_Up nl = dv_Up d"
    and run: "ensure_up ops False n nl s = (s', None)"
  shows "spares_others view (la_Name nl) s s' \<and>
    (\<exists>d'. view s' (la_Name nl) = Some d' \<and> keeps_settings d d' \<and> dv_Up d')"
proof (cases "la_Up nl")
  case True
  then show ?thesis using run v by (auto simp: ensure_up_def)
next
  case False
  then have "no_LinkSetUp ops nl s = (s', None)" using run by (simp add: ensure_up_def)
  then show ?thesis using LinkSetUp_works [OF k _ v(1)] by blast
qed

lemma ensure_route_ready:
  assumes k: "kernel_ok ops view" and v: "view s (la_Name nl) = Some d" "la_Index nl = dv_Index d" and sub: "network_only sub"
    and run: "ensure_route ops False n a sub nl s = (s', None)"
  shows "spares_others view (la_Name nl) s s' \<and>
    (\<exists>d'. view s' (la_Name nl) = Some d' \<and> keeps_settings d d' \<and> dv_Up d' = dv_Up d \<and> list_ex (has_route a sub) (dv_Routes d'))"
proof (cases "no_RouteList ops s nl")
  case (Inr routes)
  then have routes: "routes = dv_Routes d"
    using k v by (simp add: kernel_ok_def reads_agree_def)
  show ?thesis
  proof (cases "list_ex (has_route a sub) routes")
    case True
    then show ?thesis using run v Inr routes by (auto simp: ensure_route_def)
  next
    case False
    let ?r = "tun_route a sub nl"
    have "no_RouteAdd ops ?r s = (s', None)" using run Inr False by (simp add: ensure_route_def)
    moreover have "rt_LinkIndex ?r = dv_Index d" "rt_Dst ?r = Some sub" using v by (simp_all add: tun_route_def)
    moreover have "has_route a sub ?r" by (simp add: has_route_def tun_route_def dst_String_def)
    ultimately obtain d' where "spares_others view (la_Name nl) s s'" "view s' (la_Name nl) = Some d'" "keeps_settings d d'"
        "dv_Up d' = dv_Up d" "?r \<in> set (dv_Routes d')"
      using RouteAdd_works [OF k _ v(1) _ _ sub] by blast
    with \<open>has_route a sub ?r\<close> show ?thesis by (auto simp: list_ex_iff)
  qed
qed (use run in \<open>simp add: ensure_route_def\<close>)

lemma configure_link_ready:
  assumes k: "kernel_ok ops view" and v: "view s n = Some d" and nl: "nl = link_of n d"
    and mtu: "1280 \<le> uint mtu" and sub: "network_only sub"
    and run: "configure_link ops False n a sub mtu nl s = (s', None)"
  shows "spares_others view n s s' \<and> (\<exists>d'. view s' n = Some d' \<and> device_ready a sub mtu d')"
proof -
  obtain s1 s2 s3 where r: "ensure_address ops False n a nl s = (s1, None)" "ensure_mtu ops False n mtu nl s1 = (s2, None)"
      "ensure_up ops False n nl s2 = (s3, None)" "ensure_route ops False n a sub nl s3 = (s', None)"
    using run by (auto simp: configure_link_def and_then_None)
  have name: "la_Name nl = n" using nl by (simp add: link_of_def)
  obtain d1 where d1: "spares_others view n s s1" "view s1 n = Some d1" "keeps_settings d d1" "dv_Up d1 = dv_Up d" "list_ex (has_address a) (dv_Addrs d1)"
    using ensure_address_ready [OF k _ r(1)] v name by auto
  then have "la_MTU nl = dv_MTU d1" using nl by (simp add: link_of_def keeps_settings_def)
  then obtain d2 where d2: "spares_others view n s1 s2" "view s2 n = Some d2" "keeps_settings (d1\<lparr>dv_MTU := uint mtu\<rparr>) d2" "dv_Up d2 = dv_Up d1"
    using ensure_mtu_ready [OF k _ _ mtu r(2)] d1(2) name by auto
  then have "la_Up nl = dv_Up d2" using nl d1(4) by (simp add: link_of_def)
  then obtain d3 where d3: "spares_others view n s2 s3" "view s3 n = Some d3" "keeps_settings d2 d3" "dv_Up d3"
    using ensure_up_ready [OF k _ _ r(3)] d2(2) name by auto
  have "la_Index nl = dv_Index d3" using nl d1(3) d2(3) d3(3) by (simp add: link_of_def keeps_settings_def)
  then obtain d4 where d4: "spares_others view n s3 s'" "view s' n = Some d4" "keeps_settings d3 d4" "dv_Up d4 = dv_Up d3" "list_ex (has_route a sub) (dv_Routes d4)"
    using ensure_route_ready [OF k _ _ sub r(4)] d3(2) name by auto
  have "set (dv_Addrs d1) \<subseteq> set (dv_Addrs d4)" "dv_MTU d4 = uint mtu"
    using d2(3) d3(3) d4(3) by (auto simp: keeps_settings_def)
  then have "device_ready a sub mtu d4" using d1(5) d3(4) d4 list_ex_mono by (auto simp: device_ready_def)
  moreover have "spares_others view n s s'" using d1(1) d2(1) d3(1) d4(1) by (blast intro: spares_trans)
  ultimately show ?thesis using d4(2) by blast
qed

lemma open_link_ready:
  assumes k: "kernel_ok ops view" and known: "\<And>l. nl = Some l \<Longrightarrow> \<exists>d. view s n = Some d \<and> l = link_of n d"
    and mtu: "1280 \<le> uint mtu" and sub: "network_only sub"
    and run: "open_link ops o1 p n a sub mtu nl s = (s', Inr r)"
  shows "spares_others view n s s' \<and> (\<exists>d'. view s' n = Some d' \<and> device_ready a sub mtu d')"
proof -
  let ?c = "\<lparr>wc_Name = n, wc_Persist = p, wc_Permissions = (if lo_setUser o1 then Some (lo_uid o1, lo_gid o1) else None)\<rparr>"
  obtain s1 i where new: "no_New ops ?c s = (s1, Inr i)"
    using run by (cases "no_New ops ?c s"; cases "snd (no_New ops ?c s)") (auto simp: open_link_def)
  obtain l where l: "(case nl of Some l \<Rightarrow> Inr l | None \<Rightarrow> no_LinkByName ops s1 n) = Inr l"
    using run new
    by (cases "case nl of Some l \<Rightarrow> Inr l | None \<Rightarrow> no_LinkByName ops s1 n") (auto simp: open_link_def split: prod.splits)
  have conf: "configure_link ops False n a sub mtu l s1 = (s', None)"
    using run new l by (auto simp: open_link_def split: prod.splits option.splits)
  have "\<exists>d. view s1 n = Some d \<and> l = link_of n d"
  proof (cases nl)
    case None
    then show ?thesis using l k by (auto simp: kernel_ok_def reads_agree_def)
  next
    case (Some l')
    then obtain d where d: "view s n = Some d" "l = link_of n d" using known l by auto
    have "view s (wc_Name ?c) = Some d" using d by simp
    then have "view s1 (wc_Name ?c) = Some d" using New_works [OF k new] by blast
    then show ?thesis using d by simp
  qed
  then obtain d where "view s1 n = Some d" "l = link_of n d" by blast
  from configure_link_ready [OF k this mtu sub conf] have
    "spares_others view n s1 s' \<and> (\<exists>d'. view s' n = Some d' \<and> device_ready a sub mtu d')" .
  moreover have "spares_others view n s s1" using New_works [OF k new] by simp
  ultimately show ?thesis by (blast intro: spares_trans)
qed

lemma link_options_check: "lo_check (link_options (opts @ [WithCheck]))"
  by (simp add: link_options_def WithCheck_def)

lemma configure_link_check: "fst (configure_link ops True n a sub mtu nl s) = s"
  by (simp add: configure_link_def ensure_address_def ensure_mtu_def ensure_up_def ensure_route_def split: sum.split)

lemma configure_link_check_ready:
  assumes k: "kernel_ok ops view" and v: "view s n = Some d" "device_ready a sub mtu d" and l: "no_LinkByName ops s n = Inr l"
    and as: "no_AddrList ops s l = Inr as" and rs: "no_RouteList ops s l = Inr rs"
  shows "configure_link ops True n a sub mtu l s = (s, None)"
proof -
  obtain d' where "view s n = Some d'" "l = link_of n d'" using k l unfolding kernel_ok_def reads_agree_def by blast
  with v(1) have nl: "l = link_of n d" by simp
  then have "la_Name l = n" by (simp add: link_of_def)
  then have "as = dv_Addrs d" "rs = dv_Routes d" using k v(1) as rs by (auto simp: kernel_ok_def reads_agree_def)
  then show ?thesis using v(2) nl as rs
    by (simp add: configure_link_def ensure_address_def ensure_mtu_def ensure_up_def ensure_route_def device_ready_def link_of_def)
qed

lemma SetupLink_ready:
  assumes k: "kernel_ok ops view" and mtu: "1280 \<le> uint mtu" and sub: "network_only sub"
    and nocheck: "\<not> lo_check (link_options opts)"
    and run: "SetupLink ops n a sub mtu opts s = (s', Inr r)"
  shows "spares_others view n s s' \<and> (\<exists>d'. view s' n = Some d' \<and> device_ready a sub mtu d')"
proof (cases "no_LinkByName ops s n")
  case (Inl e)
  then have "open_link ops (link_options opts) (lo_persist (link_options opts)) n a sub mtu None s = (s', Inr r)"
    using run nocheck by (cases e; cases "fst e") (auto simp: SetupLink_def Let_def)
  from open_link_ready [OF k _ mtu sub this] show ?thesis by simp
next
  case (Inr l)
  then have o: "open_link ops (link_options opts) True n a sub mtu (Some l) s = (s', Inr r)"
    using run nocheck by (simp add: SetupLink_def)
  have "\<exists>d. view s n = Some d \<and> l = link_of n d" using k Inr by (auto simp: kernel_ok_def reads_agree_def)
  with open_link_ready [OF k _ mtu sub o] show ?thesis by simp
qed

text \<open>The check never changes anything, whatever the operating system answers.\<close>

lemma SetupLink_check_pure: "fst (SetupLink ops n a sub mtu (opts @ [WithCheck]) s) = s"
proof (cases "no_LinkByName ops s n")
  case (Inl e)
  then show ?thesis using link_options_check [of opts] by (cases e; cases "fst e") (auto simp: SetupLink_def Let_def)
next
  case (Inr l)
  then show ?thesis using link_options_check [of opts] configure_link_check [of ops n a sub mtu l s]
    by (auto simp: SetupLink_def Let_def split: prod.split option.split)
qed

text \<open>
  Setting up a tunnel establishes what the check looks for: when \<open>SetupLink\<close> succeeds, the device has
  the address, the MTU and the route it was asked for and is up; and a check of the same parameters, when the
  system can be read, then succeeds without opening an interface or changing anything.
\<close>

theorem tunnel_setup_passes_check:
  assumes k: "kernel_ok ops view" and mtu: "1280 \<le> uint mtu" and sub: "network_only sub"
    and nocheck: "\<not> lo_check (link_options opts)"
    and run: "SetupLink ops n a sub mtu opts s = (s', Inr r)" and rd: "reports ops s' n"
  shows "(\<exists>d. view s' n = Some d \<and> device_ready a sub mtu d) \<and> SetupLink ops n a sub mtu [WithCheck] s' = (s', Inr None)"
proof -
  obtain d where d: "view s' n = Some d" "device_ready a sub mtu d"
    using SetupLink_ready [OF k mtu sub nocheck run] by blast
  obtain l as rs where l: "no_LinkByName ops s' n = Inr l" "no_AddrList ops s' l = Inr as" "no_RouteList ops s' l = Inr rs"
    using rd by (auto simp: reports_def)
  have "configure_link ops True n a sub mtu l s' = (s', None)" by (rule configure_link_check_ready [OF k d l])
  then have "SetupLink ops n a sub mtu [WithCheck] s' = (s', Inr None)"
    using link_options_check [of "[]"] l(1) by (simp add: SetupLink_def)
  with d show ?thesis by blast
qed

text \<open>A table of devices that satisfies the laws, for concrete runs.\<close>

definition ex_update :: "string \<Rightarrow> (device \<Rightarrow> device) \<Rightarrow> (string, device) gomap \<Rightarrow> (string, device) gomap \<times> go_error option" where
  "ex_update n f m = (case go_get m n of None \<Rightarrow> (m, Some (Errorf ''no such device'')) | Some d \<Rightarrow> (go_set m n (f d), None))"

definition ex_kernel :: "((string, device) gomap, string) net_ops" where
  "ex_kernel =
     \<lparr>no_LinkByName = (\<lambda>m n. case go_get m n of None \<Rightarrow> Inl (True, Errorf ''Link not found'') | Some d \<Rightarrow> Inr (link_of n d)),
      no_New = (\<lambda>c m. (if go_get m (wc_Name c) = None
                        then go_set m (wc_Name c) \<lparr>dv_Index = int (length m), dv_MTU = 1500, dv_Up = False, dv_Addrs = [], dv_Routes = []\<rparr>
                        else m, Inr (wc_Name c))),
      no_AddrList = (\<lambda>m l. case go_get m (la_Name l) of None \<Rightarrow> Inl (Errorf ''no such device'') | Some d \<Rightarrow> Inr (dv_Addrs d)),
      no_AddrAdd = (\<lambda>l a. ex_update (la_Name l) (\<lambda>d. d\<lparr>dv_Addrs := a # dv_Addrs d\<rparr>)),
      no_LinkSetMTU = (\<lambda>l mtu. ex_update (la_Name l) (\<lambda>d. d\<lparr>dv_MTU := mtu\<rparr>)),
      no_LinkSetUp = (\<lambda>l. ex_update (la_Name l) (\<lambda>d. d\<lparr>dv_Up := True\<rparr>)),
      no_RouteList = (\<lambda>m l. case go_get m (la_Name l) of None \<Rightarrow> Inl (Errorf ''no such device'') | Some d \<Rightarrow> Inr (dv_Routes d)),
      no_RouteAdd = (\<lambda>r m. (map (\<lambda>(n, d). (n, if dv_Index d = rt_LinkIndex r then d\<lparr>dv_Routes := r # dv_Routes d\<rparr> else d)) m, None)),
      no_Close = (\<lambda>i m. m)\<rparr>"

lemma map_of_map_snd: "map_of (map (\<lambda>(n, d). (n, f d)) m) n = map_option f (map_of m n)"
  by (induction m) auto

lemma ex_kernel_ok: "kernel_ok ex_kernel map_of"
proof -
  have "reads_agree ex_kernel map_of"
    unfolding reads_agree_def ex_kernel_def by (auto simp: link_of_def split: option.splits)
  moreover have "changes_work ex_kernel map_of"
    unfolding changes_work_def ex_kernel_def
    by (auto simp: ex_update_def spares_others_def grows_def keeps_settings_def update_conv map_of_map_snd split: option.splits if_splits)
  ultimately show ?thesis by (simp add: kernel_ok_def)
qed

definition ex_sub :: ipnet where
  "ex_sub = \<lparr>ipn_IP = [0xfd] @ replicate 15 0, ipn_Mask = net_CIDRMask 8 128\<rparr>"

definition ex_tun_addr :: ip where
  "ex_tun_addr = [0xfd] @ replicate 14 0 @ [2]"

definition ex_device :: device where
  "ex_device = \<lparr>dv_Index = 0, dv_MTU = 1400, dv_Up = True, dv_Addrs = [\<lparr>ipn_IP = ex_tun_addr, ipn_Mask = net_CIDRMask 128 128\<rparr>],
                dv_Routes = [\<lparr>rt_LinkIndex = 0, rt_Scope = SCOPE_UNIVERSE, rt_Src = ex_tun_addr, rt_Dst = Some ex_sub\<rparr>]\<rparr>"

lemmas setup_eval = SetupLink_def open_link_def configure_link_def ensure_address_def ensure_mtu_def ensure_up_def ensure_route_def
  link_options_def WithPersist_def WithCheck_def ex_kernel_def ex_update_def link_of_def tun_route_def

theorem tunnel_setup_passes_check_witness:
  "SetupLink ex_kernel ''tun0'' ex_tun_addr ex_sub 1400 [WithPersist] [] = ([(''tun0'', ex_device)], Inr (Some ''tun0''))
   \<and> SetupLink ex_kernel ''tun0'' ex_tun_addr ex_sub 1400 [WithCheck] [(''tun0'', ex_device)] = ([(''tun0'', ex_device)], Inr None)"
proof -
  have run: "SetupLink ex_kernel ''tun0'' ex_tun_addr ex_sub 1400 [WithPersist] [] = ([(''tun0'', ex_device)], Inr (Some ''tun0''))"
    by (simp add: setup_eval Let_def ex_device_def)
  have "network_only ex_sub" by code_simp
  moreover have "\<not> lo_check (link_options [WithPersist])" by (simp add: link_options_def WithPersist_def)
  moreover have "reports ex_kernel [(''tun0'', ex_device)] ''tun0''" by (simp add: reports_def ex_kernel_def link_of_def)
  ultimately show ?thesis
    using tunnel_setup_passes_check [OF ex_kernel_ok _ _ _ run] run by simp
qed

section \<open>Namespaces\<close>

definition linkReadyMessage :: string where
  "linkReadyMessage = ''netns_shim link ready'' @ [CHR 0x0A]"

record newParams =
  np_mtu :: "16 word"
  np_shimBin :: string

definition WithShimBin :: "string \<Rightarrow> newParams \<Rightarrow> newParams" where
  "WithShimBin shimBin p = p\<lparr>np_shimBin := shimBin\<rparr>"

definition ns_WithMTU :: "16 word \<Rightarrow> newParams \<Rightarrow> newParams" where
  "ns_WithMTU mtu p = p\<lparr>np_mtu := mtu\<rparr>"

record netns_Link =
  nsl_shimFd :: int
  nsl_pid :: int
  nsl_mtu :: "16 word"

text \<open>
  What the operating system answers while a namespace is made: the two ends of the socket pair, the path of the
  running program, the pipes, the process that is started with a program and arguments, and closing
  the end that the process has.
\<close>

record netns_env =
  ne_Socketpair :: "(int \<times> int) result"
  ne_Executable :: "string result"
  ne_StdoutPipe :: "go_error option"
  ne_StderrPipe :: "go_error option"
  ne_Start :: "string \<Rightarrow> string list \<Rightarrow> int result"
  ne_Close :: "int \<Rightarrow> go_error option"

definition shim_args :: "ip \<Rightarrow> string \<Rightarrow> string \<Rightarrow> 16 word \<Rightarrow> string list" where
  "shim_args addr domain dnsServer mtu =
     [''netns_shim'', ''--fd'', ''3'', ''--tunif'', ''nstun'', ''--addr'', net_IP_String addr @ ''/128'',
      ''--mtu'', itoa (unat mtu), ''--domain'', domain, ''--dns-server'', dnsServer]"

text \<open>\<open>New\<close>: the link, and the buffer size of its publisher. It waits for the shim, but returns the link in any case.\<close>

definition netns_New ::
    "netns_env \<Rightarrow> ip \<Rightarrow> string \<Rightarrow> string \<Rightarrow> (newParams \<Rightarrow> newParams) list \<Rightarrow> (netns_Link \<times> nat) result" where
  "netns_New e addr domain dnsServer mods =
     (let params = fold (\<lambda>f p. f p) mods \<lparr>np_mtu = 1500, np_shimBin = []\<rparr> in
      case ne_Socketpair e of
        Inl err \<Rightarrow> Inl err
      | Inr (fd0, fd1) \<Rightarrow>
          (case (if np_shimBin params = [] then ne_Executable e else Inr (np_shimBin params)) of
             Inl err \<Rightarrow> Inl err
           | Inr myExec \<Rightarrow>
               (case ne_StdoutPipe e of
                  Some err \<Rightarrow> Inl err
                | None \<Rightarrow>
                    (case ne_StderrPipe e of
                       Some err \<Rightarrow> Inl err
                     | None \<Rightarrow>
                         (case ne_Start e myExec (shim_args addr domain dnsServer (np_mtu params)) of
                            Inl err \<Rightarrow> Inl err
                          | Inr pid \<Rightarrow>
                              (case ne_Close e fd1 of
                                 Some err \<Rightarrow> Inl err
                               | None \<Rightarrow> Inr (\<lparr>nsl_shimFd = fd0, nsl_pid = pid, nsl_mtu = np_mtu params\<rparr>, 1500)))))))"

text \<open>
  The lines of the shim's output: the value is how often the ready channel is closed (closing it twice
  would panic) and the lines that are logged as extra output.
\<close>

fun stdout_loop :: "bool \<Rightarrow> string list \<Rightarrow> nat \<times> string list" where
  "stdout_loop closed [] = (0, [])"
| "stdout_loop closed (s # ss) =
     (if \<not> closed \<and> s = linkReadyMessage
      then (case stdout_loop True ss of (n, extra) \<Rightarrow> (Suc n, extra))
      else (case stdout_loop closed ss of (n, extra) \<Rightarrow> (n, s # extra)))"

definition netns_SendPacket :: "(int \<Rightarrow> bytes \<Rightarrow> nat result) \<Rightarrow> netns_Link \<Rightarrow> bytes \<Rightarrow> go_error option" where
  "netns_SendPacket syscall_Write ns packet =
     (case syscall_Write (nsl_shimFd ns) packet of Inl err \<Rightarrow> Some err | Inr _ \<Rightarrow> None)"

definition netns_PID :: "netns_Link \<Rightarrow> int" where
  "netns_PID ns = nsl_pid ns"

definition netns_MTU :: "netns_Link \<Rightarrow> 16 word" where
  "netns_MTU ns = nsl_mtu ns"

text \<open>\<open>shlex.Split\<close>, the caller's \<open>prep\<close> (\<open>None\<close> when it is nil) and starting the command are parameters.\<close>

definition RunInNamespace ::
    "(string \<Rightarrow> string list result) \<Rightarrow> (string \<Rightarrow> string list \<Rightarrow> go_error option) option
      \<Rightarrow> (string \<Rightarrow> string list \<Rightarrow> go_error option) \<Rightarrow> netns_Link \<Rightarrow> string \<Rightarrow> (string \<times> string list) result" where
  "RunInNamespace shlex_Split prep start ns command =
     (case shlex_Split command of
        Inl err \<Rightarrow> Inl (Wrapf ''error splitting command args'' err)
      | Inr args \<Rightarrow>
          let args = [''--preserve-credentials'', ''--user'', ''--mount'', ''--net'', ''--uts'', ''-t'', strconv_Itoa (nsl_pid ns)] @ args in
          case (case prep of None \<Rightarrow> None | Some p \<Rightarrow> p ''nsenter'' args) of
            Some err \<Rightarrow> Inl err
          | None \<Rightarrow>
              (case start ''nsenter'' args of
                 Some err \<Rightarrow> Inl (Wrapf ''error running command'' err)
               | None \<Rightarrow> Inr (''nsenter'', args)))"

subsection \<open>The shim\<close>

text \<open>
  The calls the shim makes, in its own terms: a device is named, a temporary file is named by what \<open>CreateTemp\<close>
  returned, and \<open>WriteFile\<close> is one \<open>Fprintf\<close> to it.
\<close>

datatype shim_call =
    LinkByName string
  | LinkSetUp string
  | NewTun water_config
  | ParseAddr string
  | AddrAdd string string
  | LinkSetMTU string int
  | RouteAdd string ipnet nat
  | CreateTemp string
  | WriteFile string string
  | CloseFile string
  | Mount string string
  | ReadFile string
  | Print string
  | CloseTun
  | CloseConn
  | DeleteNow string

text \<open>The answers: the error of each call, the name of a new temporary file, and the contents of \<^verbatim>\<open>/etc/nsswitch.conf\<close>.\<close>

record shim_env =
  se_err :: "shim_call \<Rightarrow> go_error option"
  se_tempName :: "string \<Rightarrow> string"
  se_nsswitch :: string

type_synonym shim_run = "shim_call list \<times> go_error option"

fun prefix_run :: "shim_call \<Rightarrow> shim_run \<Rightarrow> shim_run" where
  "prefix_run c (t, r) = (c # t, r)"

definition shim_try :: "shim_env \<Rightarrow> shim_call \<Rightarrow> string \<Rightarrow> shim_run \<Rightarrow> shim_run" where
  "shim_try e c msg k = (case se_err e c of Some err \<Rightarrow> ([c], Some (Wrapf msg err)) | None \<Rightarrow> prefix_run c k)"

definition TrimLeft_space :: "string \<Rightarrow> string" where
  "TrimLeft_space s = dropWhile (\<lambda>c. c = CHR '' '') s"

definition nsswitch_line :: "string \<Rightarrow> string" where
  "nsswitch_line line = (if take 6 (TrimLeft_space line) = ''hosts:'' then ''hosts: files dns'' else line)"

text \<open>\<open>Fprintf(nsf, "%s\n", line)\<close> for every line of the original file.\<close>

fun write_lines :: "shim_env \<Rightarrow> string \<Rightarrow> string list \<Rightarrow> shim_run \<Rightarrow> shim_run" where
  "write_lines e f [] k = k"
| "write_lines e f (line # ls) k =
     shim_try e (WriteFile f (nsswitch_line line @ [CHR 0x0A])) ''error writing resolv.conf temp file'' (write_lines e f ls k)"

definition default_route :: "nat \<Rightarrow> ipnet" where
  "default_route bits =
     (if bits = 32 then \<lparr>ipn_IP = v4InV6Prefix @ replicate 4 0, ipn_Mask = net_CIDRMask 0 32\<rparr>
      else \<lparr>ipn_IP = replicate 16 0, ipn_Mask = net_CIDRMask 0 128\<rparr>)"

definition shim_network :: "shim_env \<Rightarrow> string \<Rightarrow> 16 word \<Rightarrow> string \<Rightarrow> shim_run \<Rightarrow> shim_run" where
  "shim_network e tunif mtu addr k =
     shim_try e (LinkByName ''lo'') ''error opening lo'' (
     shim_try e (LinkSetUp ''lo'') ''error bringing up lo'' (
     shim_try e (NewTun \<lparr>wc_Name = tunif, wc_Persist = True, wc_Permissions = None\<rparr>) ''error creating tun interface'' (
     shim_try e (LinkByName tunif) ''error opening tun interface'' (
     shim_try e (ParseAddr addr) ''error parsing IP address'' (
     shim_try e (AddrAdd tunif addr) ''error adding IP address to tun interface'' (
     shim_try e (LinkSetMTU tunif (uint mtu)) ''error setting tun interface MTU'' (
     shim_try e (LinkSetUp tunif) ''error bringing up tun'' (
     shim_try e (RouteAdd tunif (default_route 32) 30) ''error adding IPv4 route to tun interface'' (
     shim_try e (RouteAdd tunif (default_route 128) 30) ''error adding IPv6 route to tun interface'' k)))))))))"

definition shim_resolv :: "shim_env \<Rightarrow> string \<Rightarrow> string \<Rightarrow> shim_run \<Rightarrow> shim_run" where
  "shim_resolv e domain dnsServer k =
     (let rf = se_tempName e ''connectopus-resolv-*.conf'' in
      shim_try e (CreateTemp ''connectopus-resolv-*.conf'') ''error creating resolv.conf temp file'' (
      shim_try e (WriteFile rf (''nameserver '' @ dnsServer @ [CHR 0x0A])) ''error writing resolv.conf temp file'' (
      shim_try e (WriteFile rf (''search '' @ domain @ [CHR 0x0A])) ''error writing resolv.conf temp file'' (
      shim_try e (CloseFile rf) ''error closing resolv.conf temp file'' (
      shim_try e (Mount rf ''/etc/resolv.conf'') ''error binding resolv.conf'' k)))))"

definition shim_nsswitch :: "shim_env \<Rightarrow> shim_run \<Rightarrow> shim_run" where
  "shim_nsswitch e k =
     (let nsf = se_tempName e ''connectopus-nsswitch-*.conf'' in
      shim_try e (ReadFile ''/etc/nsswitch.conf'') ''error reading nsswitch.conf'' (
      shim_try e (CreateTemp ''connectopus-nsswitch-*.conf'') ''error creating nsswitch.conf temp file'' (
      write_lines e nsf (split_on (CHR 0x0A) (se_nsswitch e)) (
      shim_try e (CloseFile nsf) ''error closing nsswitch.conf temp file'' (
      shim_try e (Mount nsf ''/etc/nsswitch.conf'') ''error binding nsswitch.conf'' k)))))"

text \<open>
  Copying: each direction ends with an error or without one, and the shim returns after the first end. \<open>ends\<close> are the
  ends that have happened when the error is read; the last error that was set is the one returned.
\<close>

definition copy_result :: "go_error option list \<Rightarrow> go_error option" where
  "copy_result ends = fold (\<lambda>gerr serr. case gerr of None \<Rightarrow> serr | Some err \<Rightarrow> Some err) ends None"

definition shim_copy :: "shim_env \<Rightarrow> go_error option list \<Rightarrow> shim_run" where
  "shim_copy e ends =
     ([Print linkReadyMessage, CloseTun, CloseConn, DeleteNow (se_tempName e ''connectopus-resolv-*.conf''),
       DeleteNow (se_tempName e ''connectopus-nsswitch-*.conf'')], copy_result ends)"

definition RunShim :: "shim_env \<Rightarrow> string \<Rightarrow> 16 word \<Rightarrow> string \<Rightarrow> string \<Rightarrow> string \<Rightarrow> go_error option list \<Rightarrow> shim_run" where
  "RunShim e tunif mtu addr domain dnsServer ends =
     shim_network e tunif mtu addr (shim_resolv e domain dnsServer (shim_nsswitch e (shim_copy e ends)))"

section \<open>What the shim sets up\<close>

text \<open>The plan of the shim: every call it makes before it reports that the link is ready, if none fails.\<close>

definition shim_plan :: "shim_env \<Rightarrow> string \<Rightarrow> 16 word \<Rightarrow> string \<Rightarrow> string \<Rightarrow> string \<Rightarrow> shim_call list" where
  "shim_plan e tunif mtu addr domain dnsServer =
     (let rf = se_tempName e ''connectopus-resolv-*.conf''; nsf = se_tempName e ''connectopus-nsswitch-*.conf'' in
      [LinkByName ''lo'', LinkSetUp ''lo'', NewTun \<lparr>wc_Name = tunif, wc_Persist = True, wc_Permissions = None\<rparr>,
       LinkByName tunif, ParseAddr addr, AddrAdd tunif addr, LinkSetMTU tunif (uint mtu), LinkSetUp tunif,
       RouteAdd tunif (default_route 32) 30, RouteAdd tunif (default_route 128) 30,
       CreateTemp ''connectopus-resolv-*.conf'', WriteFile rf (''nameserver '' @ dnsServer @ [CHR 0x0A]),
       WriteFile rf (''search '' @ domain @ [CHR 0x0A]), CloseFile rf, Mount rf ''/etc/resolv.conf'',
       ReadFile ''/etc/nsswitch.conf'', CreateTemp ''connectopus-nsswitch-*.conf''] @
      map (\<lambda>line. WriteFile nsf (nsswitch_line line @ [CHR 0x0A])) (split_on (CHR 0x0A) (se_nsswitch e)) @
      [CloseFile nsf, Mount nsf ''/etc/nsswitch.conf''])"

text \<open>A run of a plan: up to and including the first call that fails.\<close>

definition runs_plan :: "shim_env \<Rightarrow> shim_call list \<Rightarrow> shim_run \<Rightarrow> shim_run \<Rightarrow> bool" where
  "runs_plan e plan k run \<longleftrightarrow>
     (case dropWhile (\<lambda>c. se_err e c = None) plan of
        [] \<Rightarrow> run = (plan @ fst k, snd k)
      | c # _ \<Rightarrow> \<exists>msg. run = (takeWhile (\<lambda>c. se_err e c = None) plan @ [c], Some (Wrapf msg (the (se_err e c)))))"

lemma runs_plan_Nil: "runs_plan e [] k k"
  by (simp add: runs_plan_def)

lemma runs_plan_try: "runs_plan e plan k run \<Longrightarrow> runs_plan e (c # plan) k (shim_try e c msg run)"
  by (cases run; cases "dropWhile (\<lambda>c. se_err e c = None) plan"; cases "se_err e c")
    (auto simp: runs_plan_def shim_try_def simp del: dropWhile_eq_Nil_conv)

lemma runs_plan_stops:
  assumes "runs_plan e plan k (t, r)" "t \<noteq> plan @ fst k"
  shows "\<exists>c cs msg. dropWhile (\<lambda>c. se_err e c = None) plan = c # cs \<and>
    t = takeWhile (\<lambda>c. se_err e c = None) plan @ [c] \<and> r = Some (Wrapf msg (the (se_err e c)))"
  using assms by (cases "dropWhile (\<lambda>c. se_err e c = None) plan") (auto simp: runs_plan_def simp del: dropWhile_eq_Nil_conv)

lemma runs_plan_lines:
  "runs_plan e plan k run \<Longrightarrow>
   runs_plan e (map (\<lambda>line. WriteFile f (nsswitch_line line @ [CHR 0x0A])) ls @ plan) k (write_lines e f ls run)"
  by (induction ls) (simp_all add: runs_plan_try)

lemma RunShim_plan:
  "runs_plan e (shim_plan e tunif mtu addr domain dnsServer) (shim_copy e ends) (RunShim e tunif mtu addr domain dnsServer ends)"
  unfolding shim_plan_def RunShim_def shim_network_def shim_resolv_def shim_nsswitch_def Let_def append_Cons append_Nil
  by (intro runs_plan_try runs_plan_lines runs_plan_Nil)

text \<open>What has been written to a file, and the text that is found under a path once it has been bound.\<close>

fun written :: "string \<Rightarrow> shim_call list \<Rightarrow> string" where
  "written f [] = []"
| "written f (WriteFile f' txt # t) = (if f' = f then txt @ written f t else written f t)"
| "written f (_ # t) = written f t"

fun bound_to :: "string \<Rightarrow> shim_call list \<Rightarrow> string option" where
  "bound_to p [] = None"
| "bound_to p (Mount f p' # t) = (case bound_to p t of Some f' \<Rightarrow> Some f' | None \<Rightarrow> if p' = p then Some f else None)"
| "bound_to p (_ # t) = bound_to p t"

lemma written_append [simp]: "written f (t @ u) = written f t @ written f u"
  by (induction f t rule: written.induct) auto

lemma written_lines [simp]:
  "written f (map (\<lambda>line. WriteFile f' (h line)) ls) = (if f' = f then concat (map h ls) else [])"
  by (induction ls) auto

lemma bound_to_append: "bound_to p (t @ u) = (case bound_to p u of Some f \<Rightarrow> Some f | None \<Rightarrow> bound_to p t)"
  by (induction p t rule: bound_to.induct) (auto split: option.split)

lemma bound_to_lines [simp]: "bound_to p (map (\<lambda>line. WriteFile f (h line)) ls) = None"
  by (induction ls) auto

lemma not_ready_before:
  "Print m \<notin> set (shim_plan e tunif mtu addr domain dnsServer)"
  by (auto simp: shim_plan_def Let_def)

definition resolv_text :: "string \<Rightarrow> string \<Rightarrow> string" where
  "resolv_text domain dnsServer = ''nameserver '' @ dnsServer @ [CHR 0x0A] @ ''search '' @ domain @ [CHR 0x0A]"

definition nsswitch_text :: "string \<Rightarrow> string" where
  "nsswitch_text orig = concat (map (\<lambda>line. nsswitch_line line @ [CHR 0x0A]) (split_on (CHR 0x0A) orig))"

lemma shim_ready_run:
  assumes "RunShim e tunif mtu addr domain dnsServer ends = (t, r)" "Print linkReadyMessage \<in> set t"
  shows "t = shim_plan e tunif mtu addr domain dnsServer @ fst (shim_copy e ends) \<and> r = copy_result ends \<and>
    list_all (\<lambda>c. se_err e c = None) (shim_plan e tunif mtu addr domain dnsServer)"
proof -
  let ?p = "shim_plan e tunif mtu addr domain dnsServer" and ?ok = "\<lambda>c. se_err e c = None"
  have run: "runs_plan e ?p (shim_copy e ends) (t, r)" using RunShim_plan assms(1) by metis
  show ?thesis
  proof (cases "dropWhile ?ok ?p")
    case Nil
    then have "(t, r) = (?p @ fst (shim_copy e ends), snd (shim_copy e ends))" using run by (simp add: runs_plan_def del: dropWhile_eq_Nil_conv)
    moreover from Nil have "list_all ?ok ?p" by (simp add: dropWhile_eq_Nil_conv list_all_iff)
    ultimately show ?thesis by (simp add: shim_copy_def)
  next
    case (Cons c cs)
    then have t: "t = takeWhile ?ok ?p @ [c]" using run by (auto simp: runs_plan_def)
    from Cons have c: "c \<in> set ?p" by (metis list.set_intros(1) set_dropWhileD)
    have "set t \<subseteq> set ?p" unfolding t using c set_takeWhileD by fastforce
    with assms(2) not_ready_before show ?thesis by blast
  qed
qed

text \<open>
  C31. The shim reports a namespace ready only when it is: if the ready message is printed, every call
  before it has succeeded, \<^verbatim>\<open>/etc/resolv.conf\<close> is bound to a file that names the node as the name server and
  its domain to search, and \<^verbatim>\<open>/etc/nsswitch.conf\<close> is bound to the original file with its lines for \<open>hosts\<close>
  replaced. Otherwise the run ends with the error of the call that failed.
\<close>

theorem shim_ready:
  assumes run: "RunShim e tunif mtu addr domain dnsServer ends = (t, r)"
    and tmp: "se_tempName e ''connectopus-resolv-*.conf'' \<noteq> se_tempName e ''connectopus-nsswitch-*.conf''"
  shows "if Print linkReadyMessage \<in> set t
    then list_all (\<lambda>c. se_err e c = None) (takeWhile (\<lambda>c. c \<noteq> Print linkReadyMessage) t) \<and> r = copy_result ends \<and>
      map_option (\<lambda>f. written f t) (bound_to ''/etc/resolv.conf'' t) = Some (resolv_text domain dnsServer) \<and>
      map_option (\<lambda>f. written f t) (bound_to ''/etc/nsswitch.conf'' t) = Some (nsswitch_text (se_nsswitch e))
    else list_all (\<lambda>c. se_err e c = None) (butlast t) \<and> (\<exists>msg err. se_err e (last t) = Some err \<and> r = Some (Wrapf msg err))"
proof (cases "Print linkReadyMessage \<in> set t")
  case True
  let ?p = "shim_plan e tunif mtu addr domain dnsServer"
  note run = shim_ready_run [OF run True]
  then have t: "t = ?p @ Print linkReadyMessage # tl (fst (shim_copy e ends))" by (simp add: shim_copy_def)
  have "takeWhile (\<lambda>c. c \<noteq> Print linkReadyMessage) t = ?p"
    unfolding t using not_ready_before by (subst takeWhile_append2) (metis, simp)
  moreover have "bound_to ''/etc/resolv.conf'' t = Some (se_tempName e ''connectopus-resolv-*.conf'')"
    "bound_to ''/etc/nsswitch.conf'' t = Some (se_tempName e ''connectopus-nsswitch-*.conf'')"
    by (simp_all add: t shim_plan_def shim_copy_def Let_def bound_to_append)
  moreover have "written (se_tempName e ''connectopus-resolv-*.conf'') t = resolv_text domain dnsServer"
    "written (se_tempName e ''connectopus-nsswitch-*.conf'') t = nsswitch_text (se_nsswitch e)"
    using tmp by (simp_all add: t shim_plan_def shim_copy_def Let_def resolv_text_def nsswitch_text_def)
  ultimately show ?thesis using True run by simp
next
  case False
  let ?p = "shim_plan e tunif mtu addr domain dnsServer" and ?ok = "\<lambda>c. se_err e c = None"
  have "runs_plan e ?p (shim_copy e ends) (t, r)" using RunShim_plan run by metis
  moreover have "t \<noteq> ?p @ fst (shim_copy e ends)" using False by (auto simp: shim_copy_def)
  ultimately obtain c cs msg where
      c: "dropWhile ?ok ?p = c # cs" "t = takeWhile ?ok ?p @ [c]" "r = Some (Wrapf msg (the (se_err e c)))"
    using runs_plan_stops by blast
  from c(1) have "se_err e c \<noteq> None" by (simp add: dropWhile_eq_Cons_conv)
  moreover have "list_all ?ok (takeWhile ?ok ?p)" by (auto simp: list_all_iff dest: set_takeWhileD)
  ultimately show ?thesis using False c by auto
qed

text \<open>A file without lines for \<open>hosts\<close> is copied, with a newline more at its end.\<close>

lemma split_on_nonempty: "split_on d s \<noteq> []"
  by (cases s) (auto split: list.split)

lemma concat_split_on: "concat (map (\<lambda>l. l @ [d]) (split_on d s)) = s @ [d]"
proof (induction s)
  case (Cons c s)
  then show ?case by (cases "split_on d s") (simp_all add: split_on_nonempty)
qed simp

lemma nsswitch_text_other:
  "list_all (\<lambda>l. take 6 (TrimLeft_space l) \<noteq> ''hosts:'') (split_on (CHR 0x0A) orig) \<Longrightarrow> nsswitch_text orig = orig @ [CHR 0x0A]"
proof -
  assume "list_all (\<lambda>l. take 6 (TrimLeft_space l) \<noteq> ''hosts:'') (split_on (CHR 0x0A) orig)"
  then have "map (\<lambda>l. nsswitch_line l @ [CHR 0x0A]) (split_on (CHR 0x0A) orig) = map (\<lambda>l. l @ [CHR 0x0A]) (split_on (CHR 0x0A) orig)"
    by (auto simp: list_all_iff nsswitch_line_def)
  then show ?thesis by (simp only: nsswitch_text_def concat_split_on)
qed

text \<open>The ready channel is closed at most once, and exactly when the message has been read.\<close>

lemma stdout_loop_closed: "fst (stdout_loop True ls) = 0"
  by (induction ls) (auto split: prod.splits)

lemma stdout_loop_once: "fst (stdout_loop False ls) = (if linkReadyMessage \<in> set ls then 1 else 0)"
proof (induction ls)
  case (Cons s ls)
  then show ?case using stdout_loop_closed [of ls] by (cases "stdout_loop True ls"; cases "stdout_loop False ls") auto
qed simp

definition ex_shim_env :: shim_env where
  "ex_shim_env = \<lparr>se_err = (\<lambda>c. None), se_tempName = (\<lambda>p. ''/tmp/'' @ p), se_nsswitch = ''hosts: nis''\<rparr>"

theorem shim_ready_witness:
  "bound_to ''/etc/resolv.conf'' (fst (RunShim ex_shim_env ''nstun'' 1500 ''fd00::1/128'' ''demo'' ''fd00::2'' [None]))
     = Some ''/tmp/connectopus-resolv-*.conf''
   \<and> written ''/tmp/connectopus-resolv-*.conf'' (fst (RunShim ex_shim_env ''nstun'' 1500 ''fd00::1/128'' ''demo'' ''fd00::2'' [None]))
     = ''nameserver fd00::2'' @ [CHR 0x0A] @ ''search demo'' @ [CHR 0x0A]
   \<and> written ''/tmp/connectopus-nsswitch-*.conf'' (fst (RunShim ex_shim_env ''nstun'' 1500 ''fd00::1/128'' ''demo'' ''fd00::2'' [None]))
     = ''hosts: files dns'' @ [CHR 0x0A]"
proof -
  let ?t = "RunShim ex_shim_env ''nstun'' 1500 ''fd00::1/128'' ''demo'' ''fd00::2'' [None]"
  have "Print linkReadyMessage \<in> set (fst ?t)"
    by (simp add: RunShim_def shim_network_def shim_resolv_def shim_nsswitch_def shim_copy_def shim_try_def ex_shim_env_def Let_def)
  moreover have "bound_to ''/etc/resolv.conf'' (fst ?t) = Some ''/tmp/connectopus-resolv-*.conf''"
    "bound_to ''/etc/nsswitch.conf'' (fst ?t) = Some ''/tmp/connectopus-nsswitch-*.conf''"
    by (simp_all add: RunShim_def shim_network_def shim_resolv_def shim_nsswitch_def shim_copy_def shim_try_def ex_shim_env_def Let_def)
  moreover have "nsswitch_text (se_nsswitch ex_shim_env) = ''hosts: files dns'' @ [CHR 0x0A]"
    by (simp add: nsswitch_text_def nsswitch_line_def TrimLeft_space_def ex_shim_env_def)
  ultimately show ?thesis
    using shim_ready [of ex_shim_env "''nstun''" 1500 "''fd00::1/128''" "''demo''" "''fd00::2''" "[None]" "fst ?t" "snd ?t"]
    by (simp add: resolv_text_def) (simp add: ex_shim_env_def)
qed

section \<open>Links of a running node\<close>

text \<open>
  The MTU that a node gives to its links is that of a known backend or the default, so a tunnel device keeps its
  IPv6 addresses when it is set, and the buffer of a namespace's publisher, which does not depend on the
  MTU, holds every packet.
\<close>

lemma node_link_mtu: "LeastMTU registry_init node 1500 \<in> {1452, 1500}"
proof (cases "known_MTUs registry_init node = {}")
  case True
  then show ?thesis by (simp add: least_mtu)
next
  case False
  have sub: "known_MTUs registry_init node \<subseteq> {1452, 1500}"
    by (fastforce simp: known_MTUs_def dest: init_MTU)
  then have "finite (known_MTUs registry_init node)" by (rule finite_subset) simp
  then have "Min (known_MTUs registry_init node) \<in> known_MTUs registry_init node" using False by (rule Min_in)
  with sub have "Min (known_MTUs registry_init node) \<in> {1452, 1500}" by (rule subsetD)
  then show ?thesis using False by (simp add: least_mtu)
qed

lemma namespace_buffer_enough:
  assumes "netns_New e addr domain dnsServer [ns_WithMTU (LeastMTU registry_init node 1500)] = Inr (ns, buf)"
  shows "nsl_mtu ns = LeastMTU registry_init node 1500 \<and> unat (netns_MTU ns) \<le> buf"
proof -
  have "nsl_mtu ns = LeastMTU registry_init node 1500 \<and> buf = 1500"
    using assms by (auto simp: netns_New_def ns_WithMTU_def Let_def split: sum.splits option.splits)
  moreover have "unat (LeastMTU registry_init node 1500) \<le> 1500" using node_link_mtu [of node] by auto
  ultimately show ?thesis by (simp add: netns_MTU_def)
qed

text \<open>
  The supervisor makes its tunnels with \<open>tun_New\<close>; here the handle of a link is its interface. A tunnel that
  has been started has a device that is ready for its address, for the subnet of the network and for the
  MTU of the node.
\<close>

definition tun_maker_of :: "('s, nat) net_ops \<Rightarrow> 's \<Rightarrow> tun_maker" where
  "tun_maker_of ops s = (\<lambda>n a sub mtu.
     case snd (tun_New ops n a sub mtu s) of
       Inl err \<Rightarrow> Inl err
     | Inr (l, buf) \<Rightarrow> (case tl_tunRWC l of None \<Rightarrow> Inl (Errorf ''no interface'') | Some i \<Rightarrow> Inr i))"

lemma started_tunnel_device_ready:
  fixes t :: TunDev and inst :: "'key nodeInstance"
  defines "sub \<equiv> Subnet_AsIPNet (gl_Subnet (cfg_Global (ni_cfg inst)))" and "mtu \<equiv> netopus_MTU (ni_n inst)"
  assumes k: "kernel_ok ops view" and sub: "network_only sub" and mtu: "mtu = LeastMTU registry_init node 1500"
    and start: "TunDevCfg_Start (tun_maker_of ops s) name t inst = Inr inst'"
  shows "\<exists>d. view (fst (tun_New ops (tun_DeviceName t) (tun_Address t) sub mtu s)) (tun_DeviceName t) = Some d
    \<and> device_ready (tun_Address t) sub mtu d"
proof -
  obtain s' r where r: "SetupLink ops (tun_DeviceName t) (tun_Address t) sub mtu [] s = (s', Inr r)"
    using start unfolding TunDevCfg_Start_def tun_maker_of_def tun_New_def sub_def mtu_def
    by (cases "SetupLink ops (tun_DeviceName t) (tun_Address t) sub mtu [] s"; cases "snd (SetupLink ops (tun_DeviceName t) (tun_Address t) sub mtu [] s)")
      (auto simp: sub_def mtu_def)
  have "1280 \<le> uint mtu" using node_link_mtu [of node] mtu by auto
  from SetupLink_ready [OF k this sub _ r] r show ?thesis by (simp add: tun_New_def link_options_def)
qed

end
