(* ===== verification/CommandLine.thy ===== *)
theory CommandLine
  imports Control Links
begin

text \<open>
  \<^verbatim>\<open>cmd/connectopus/connectopus.go\<close>: the commands. A command is a function of its flags and of what the agent,
  the file system and the running node answer; its value is what it changes and the error it returns.
  Parsing the command line, printing, and waiting for processes are left out, with the exception of the
  lines that \<open>status\<close> prints.
\<close>

section \<open>Strings\<close>

text \<open>\<open>strings.Split\<close> at \<open>"::"\<close> and \<open>strings.SplitN\<close> at a character into at most two parts.\<close>

fun split_colons :: "string \<Rightarrow> string list" where
  "split_colons [] = [[]]"
| "split_colons [c] = [[c]]"
| "split_colons (c # d # cs) =
     (if c = CHR '':'' \<and> d = CHR '':'' then [] # split_colons cs
      else (case split_colons (d # cs) of [] \<Rightarrow> [[c]] | p # ps \<Rightarrow> (c # p) # ps))"

definition SplitN2 :: "char \<Rightarrow> string \<Rightarrow> string list" where
  "SplitN2 d s = (case first_index d s of None \<Rightarrow> [s] | Some i \<Rightarrow> [take i s, drop (i + 1) s])"

section \<open>\<open>init\<close>\<close>

record init_flags =
  if_identity :: string
  if_dataDir :: string
  if_keyFile :: string
  if_keyText :: string
  if_force :: bool
  if_domain :: string
  if_subnet :: string
  if_ip :: string
  if_backend :: string
  if_config :: string

record init_env =
  ie_UserConfigDir :: "string result"
  ie_Stat :: "string \<Rightarrow> go_error option"
  ie_RemoveAll :: "string \<Rightarrow> go_error option"
  ie_MkdirAll :: "string \<Rightarrow> go_error option"
  ie_fail :: write_failures
  ie_rand :: bytes
  ie_now :: time

definition init_key :: "'key agent_ops \<Rightarrow> string \<Rightarrow> string \<Rightarrow> 'key MarshalablePublicKey result" where
  "init_key a keyFile keyText =
     (case ag_GetSSHAgent a keyFile of
        Some err \<Rightarrow> Inl (Wrapf ''error initializing SSH agent'' err)
      | None \<Rightarrow>
          (case ag_GetMatchingKeys a keyText of
             Inl err \<Rightarrow> Inl (Wrapf ''error listing SSH keys'' err)
           | Inr keys \<Rightarrow>
               if length keys = 0 then Inl (Errorf ''no SSH keys found'')
               else if length keys > 1 then Inl ErrMultipleSSHKeys
               else Inr \<lparr>mpk_PublicKey = fst (keys ! 0), mpk_Comment = snd (keys ! 0)\<rparr>))"

text \<open>The address of the node. A string that is no address gives the nil address.\<close>

definition init_ip :: "subnet \<Rightarrow> string \<Rightarrow> ip" where
  "init_ip parsedSubnet initIP =
     (if initIP = [] \<or> take 8 initIP = ''subnet::''
      then let initIP = (if initIP = [] then ''subnet::1'' else initIP);
               initIP = drop 8 initIP;
               subnetParts = split_colons (Subnet_String parsedSubnet)
           in ParseIP (hd subnetParts @ ''::'' @ initIP)
      else ParseIP initIP)"

fun init_backend_params :: "string list \<Rightarrow> Params \<Rightarrow> Params result" where
  "init_backend_params [] be = Inr be"
| "init_backend_params (p # ps) be =
     (case SplitN2 CHR ''='' p of
        [k, v] \<Rightarrow> init_backend_params ps (go_set be k v)
      | _ \<Rightarrow> Inl (Errorf ''invalid backend parameters''))"

definition init_backends :: "string \<Rightarrow> (string, Params option) gomap result" where
  "init_backends initBackend =
     (if initBackend = [] then Inr []
      else case init_backend_params (split_on CHR '','' initBackend) [] of
             Inl err \<Rightarrow> Inl err
           | Inr be \<Rightarrow> Inr [(''b1'', Some be)])"

definition init_subnet :: "bytes \<Rightarrow> string \<Rightarrow> string result" where
  "init_subnet randb initSubnet =
     (if initSubnet = []
      then (case RandomSubnet randb (ParseIP ''fd00::'') 8 64 of Inl err \<Rightarrow> Inl err | Inr s \<Rightarrow> Inr (Subnet_String s))
      else Inr initSubnet)"

definition init_node :: "ip \<Rightarrow> (string, Params option) gomap \<Rightarrow> Node" where
  "init_node parsedIP backends =
     \<lparr>nd_Address = parsedIP, nd_Backends = backends, nd_Services = [], nd_TunDevs = [], nd_Namespaces = [],
      nd_Cpctl = \<lparr>cp_SocketFile = [], cp_NoSocket = False, cp_Port = 0\<rparr>, nd_Dns = \<lparr>dns_Disable = False\<rparr>\<rparr>"

definition init_new_config :: "bytes \<Rightarrow> init_flags \<Rightarrow> 'key MarshalablePublicKey \<Rightarrow> 'key Config result" where
  "init_new_config randb f key =
     (let initDomain = (if if_domain f = [] then ''connectopus.test'' else if_domain f) in
      case init_subnet randb (if_subnet f) of
        Inl err \<Rightarrow> Inl err
      | Inr initSubnet \<Rightarrow>
          (case ParseCIDR initSubnet of
             Inl err \<Rightarrow> Inl (Wrapf ''error parsing subnet'' err)
           | Inr (_, parsedSubnet) \<Rightarrow>
               let parsedIP = init_ip parsedSubnet (if_ip f) in
               (case init_backends (if_backend f) of
                  Inl err \<Rightarrow> Inl err
                | Inr backends \<Rightarrow>
                    Inr \<lparr>cfg_Global = \<lparr>gl_Domain = initDomain, gl_Subnet = parsedSubnet, gl_AuthorizedKeys = Some [key],
                                       gl_LastUpdated = 0\<rparr>,
                         cfg_Nodes = [(if_identity f, init_node parsedIP backends)]\<rparr>)))"

definition add_init_key :: "'key ssh_ops \<Rightarrow> 'key MarshalablePublicKey \<Rightarrow> 'key Config \<Rightarrow> 'key Config" where
  "add_init_key ssh key cfg =
     (let keys = keys_list (gl_AuthorizedKeys (cfg_Global cfg)) in
      if list_ex (\<lambda>ak. mpk_String ssh ak = mpk_String ssh key) keys then cfg
      else cfg\<lparr>cfg_Global := (cfg_Global cfg)\<lparr>gl_AuthorizedKeys := Some (keys @ [key])\<rparr>\<rparr>)"

definition init_load_config ::
    "'key yaml_ops \<Rightarrow> 'key ssh_ops \<Rightarrow> file_system \<Rightarrow> string \<Rightarrow> 'key MarshalablePublicKey \<Rightarrow> 'key Config result" where
  "init_load_config y ssh fs configFilename key =
     (case os_ReadFile fs configFilename of
        Inl err \<Rightarrow> Inl (Wrapf ''error reading config file'' err)
      | Inr data \<Rightarrow>
          (case Config_Unmarshal y data of
             Inl err \<Rightarrow> Inl (Wrapf ''error parsing config file'' err)
           | Inr newCfg \<Rightarrow> Inr (add_init_key ssh key newCfg)))"

text \<open>\<open>os.RemoveAll\<close> removes a path and everything below it.\<close>

definition os_RemoveAll :: "string \<Rightarrow> file_system \<Rightarrow> file_system" where
  "os_RemoveAll d fs = filter (\<lambda>(f, _). f \<noteq> d \<and> take (length d + 1) f \<noteq> d @ ''/'') fs"

definition init_dataDir :: "init_env \<Rightarrow> init_flags \<Rightarrow> string result" where
  "init_dataDir e f =
     (if if_dataDir f = []
      then (case ie_UserConfigDir e of
              Inl err \<Rightarrow> Inl (Wrapf ''error finding user config directory'' err)
            | Inr ucd \<Rightarrow> Inr (path_Join [ucd, ''connectopus'', if_identity f]))
      else Inr (if_dataDir f))"

definition clear_dataDir :: "init_env \<Rightarrow> bool \<Rightarrow> string \<Rightarrow> file_system \<Rightarrow> file_system \<times> go_error option" where
  "clear_dataDir e force dataDir fs =
     (case (if ie_Stat e dataDir = None
            then (if force
                  then (case ie_RemoveAll e dataDir of
                          Some err \<Rightarrow> (fs, Some (Wrapf ''error removing existing data dir'' err))
                        | None \<Rightarrow> (os_RemoveAll dataDir fs, None))
                  else (fs, Some (Errorf ''data dir already exists; use --force to remove it'')))
            else (fs, None)) of
        (fs, Some err) \<Rightarrow> (fs, Some err)
      | (fs, None) \<Rightarrow> (fs, map_option (Wrapf ''error creating data dir'') (ie_MkdirAll e dataDir)))"

definition write_signed ::
    "init_env \<Rightarrow> string \<Rightarrow> bytes \<Rightarrow> bytes \<Rightarrow> file_system \<Rightarrow> file_system \<times> go_error option" where
  "write_signed e dataDir newCfgData sig fs =
     (case os_WriteFile (ie_fail e) (path_Join [dataDir, ''config.yml'']) newCfgData fs of
        (fs, Some err) \<Rightarrow> (fs, Some (Wrapf ''error writing config file'' err))
      | (fs, None) \<Rightarrow>
          (case os_WriteFile (ie_fail e) (path_Join [dataDir, ''config.sig'']) sig fs of
             (fs, Some err) \<Rightarrow> (fs, Some (Wrapf ''error writing config signature'' err))
           | (fs, None) \<Rightarrow> (fs, None)))"

text \<open>The value is the data directory, which \<open>--run\<close> uses.\<close>

definition initCmd ::
    "'key agent_ops \<Rightarrow> 'key yaml_ops \<Rightarrow> 'key ssh_ops \<Rightarrow> init_env \<Rightarrow> init_flags \<Rightarrow> file_system \<Rightarrow> file_system \<times> string result" where
  "initCmd a y ssh e f fs =
     (case init_key a (if_keyFile f) (if_keyText f) of
        Inl err \<Rightarrow> (fs, Inl err)
      | Inr key \<Rightarrow>
          (case (if if_config f = [] then init_new_config (ie_rand e) f key else init_load_config y ssh fs (if_config f) key) of
             Inl err \<Rightarrow> (fs, Inl err)
           | Inr newCfg \<Rightarrow>
               (case init_dataDir e f of
                  Inl err \<Rightarrow> (fs, Inl err)
                | Inr dataDir \<Rightarrow>
                    (case clear_dataDir e (if_force f) dataDir fs of
                       (fs, Some err) \<Rightarrow> (fs, Inl err)
                     | (fs, None) \<Rightarrow>
                         (case SignConfig a y ssh (ie_now e) (if_keyFile f) (if_keyText f) newCfg (if_config f \<noteq> []) of
                            Inl err \<Rightarrow> (fs, Inl (Wrapf ''error signing config data'' err))
                          | Inr (newCfgData, sig) \<Rightarrow>
                              (case write_signed e dataDir newCfgData sig fs of
                                 (fs, Some err) \<Rightarrow> (fs, Inl err)
                               | (fs, None) \<Rightarrow> (fs, Inr dataDir)))))))"

section \<open>\<open>node\<close> and tokens\<close>

datatype log_level = ErrorLevel | WarnLevel | InfoLevel | DebugLevel

text \<open>The level that is set, if any.\<close>

definition node_log_level :: "string \<Rightarrow> log_level option result" where
  "node_log_level logLevel =
     (if logLevel = [] then Inr None
      else if logLevel = ''error'' then Inr (Some ErrorLevel)
      else if logLevel = ''warning'' then Inr (Some WarnLevel)
      else if logLevel = ''info'' then Inr (Some InfoLevel)
      else if logLevel = ''debug'' then Inr (Some DebugLevel)
      else Inl (Errorf ''invalid log level''))"

definition nodeCmd ::
    "'key check_ops \<Rightarrow> file_system \<Rightarrow> (string \<Rightarrow> string list result) \<Rightarrow> string \<Rightarrow> string \<Rightarrow> string
      \<Rightarrow> (log_level option \<times> 'key config_item) result" where
  "nodeCmd ops fs findDataDirs logLevel dataDir identity =
     (case node_log_level logLevel of
        Inl err \<Rightarrow> Inl err
      | Inr level \<Rightarrow>
          (case RunNode ops fs findDataDirs dataDir identity of Inl err \<Rightarrow> Inl err | Inr item \<Rightarrow> Inr (level, item)))"

text \<open>\<open>init\<close> as it is called: with \<open>--run\<close> the node is run afterwards, from the directory that has been initialised.\<close>

definition initCmd_RunE ::
    "'key agent_ops \<Rightarrow> 'key check_ops \<Rightarrow> init_env \<Rightarrow> init_flags \<Rightarrow> bool \<Rightarrow> (string \<Rightarrow> string list result) \<Rightarrow> string \<Rightarrow> file_system
      \<Rightarrow> file_system \<times> (log_level option \<times> 'key config_item) option result" where
  "initCmd_RunE a ops e f initRun findDataDirs logLevel fs =
     (case initCmd a (co_yaml ops) (co_ssh ops) e f fs of
        (fs, Inl err) \<Rightarrow> (fs, Inl err)
      | (fs, Inr dataDir) \<Rightarrow>
          if initRun
          then (case nodeCmd ops fs findDataDirs logLevel dataDir (if_identity f) of
                  Inl err \<Rightarrow> (fs, Inl err)
                | Inr item \<Rightarrow> (fs, Inr (Some item)))
          else (fs, Inr None))"

definition abbreviateKey :: "'key ssh_ops \<Rightarrow> ('key \<Rightarrow> string) \<Rightarrow> string \<Rightarrow> string result" where
  "abbreviateKey ssh keyType keyStr =
     (case ParseAuthorizedKey ssh keyStr of
        Inl err \<Rightarrow> Inl err
      | Inr key \<Rightarrow> Inr (keyType (mpk_PublicKey key) @ '' [...] '' @ mpk_Comment key))"

definition getTokenCmd :: "string result \<Rightarrow> string result" where
  "getTokenCmd genToken = (case genToken of Inl err \<Rightarrow> Inl (Wrapf ''error generating token'' err) | Inr s \<Rightarrow> Inr (s @ [CHR 0x0A]))"

text \<open>
  A token that \<open>jwt.Parse\<close> has verified: its key id, when it is a string, and its expiration time in seconds, when it is a
  number. A token without a key id is refused, since there is no key to verify it with.
\<close>

record parsed_token =
  pt_kid :: "string option"
  pt_exp :: "int option"

record token_report =
  tr_signingKey :: "string option"
  tr_expirationDate :: "time option"

definition verifyTokenCmd ::
    "go_error option \<Rightarrow> (string \<Rightarrow> parsed_token result) \<Rightarrow> 'key ssh_ops \<Rightarrow> ('key \<Rightarrow> string) \<Rightarrow> string \<Rightarrow> bool \<Rightarrow> token_report result" where
  "verifyTokenCmd setupSigningMethod jwtParse ssh keyType token verbose =
     (case setupSigningMethod of
        Some err \<Rightarrow> Inl (Wrapf ''error initializing JWT signing method'' err)
      | None \<Rightarrow>
          (case jwtParse token of
             Inl err \<Rightarrow> Inl (Wrapf ''error parsing JWT token'' err)
           | Inr t \<Rightarrow>
               Inr \<lparr>tr_signingKey = map_option (\<lambda>kid.
                        if verbose then kid else (case abbreviateKey ssh keyType kid of Inl _ \<Rightarrow> kid | Inr k \<Rightarrow> k)) (pt_kid t),
                    tr_expirationDate = map_option (\<lambda>s. s * second) (pt_exp t)\<rparr>))"

section \<open>\<open>config\<close>\<close>

text \<open>
  A client of a running node: the answers of \<open>GetConfig\<close> and \<open>SetConfig\<close>. The value of \<open>config set\<close> and \<open>config edit\<close> is the
  update that has been sent (\<open>None\<close> when the text is unchanged).
\<close>

record node_client =
  nk_GetConfig :: "bytes result"
  nk_SetConfig :: "bytes \<Rightarrow> bytes \<Rightarrow> go_error option"

definition getConfigCmd ::
    "node_client result \<Rightarrow> write_failures \<Rightarrow> string \<Rightarrow> file_system \<Rightarrow> file_system \<times> bytes option result" where
  "getConfigCmd client fail configFilename fs =
     (case client of
        Inl err \<Rightarrow> (fs, Inl err)
      | Inr cl \<Rightarrow>
          (case nk_GetConfig cl of
             Inl err \<Rightarrow> (fs, Inl err)
           | Inr yaml \<Rightarrow>
               if configFilename = [] then (fs, Inr (Some yaml))
               else (case os_WriteFile fail configFilename yaml fs of
                       (fs, Some err) \<Rightarrow> (fs, Inl err)
                     | (fs, None) \<Rightarrow> (fs, Inr None))))"

text \<open>The keys of the new configuration, or those of the running one when it has none.\<close>

definition reuse_keys :: "'key yaml_ops \<Rightarrow> node_client \<Rightarrow> 'key Config \<Rightarrow> 'key Config result" where
  "reuse_keys y cl newCfg =
     (let keys = keys_list (gl_AuthorizedKeys (cfg_Global newCfg)) in
      if length keys = 0
      then (case nk_GetConfig cl of
              Inl err \<Rightarrow> Inl (Wrapf ''error retrieving old configuration'' err)
            | Inr yaml \<Rightarrow>
                (case Config_Unmarshal y yaml of
                   Inl err \<Rightarrow> Inl (Wrapf ''error parsing old configuration'' err)
                 | Inr oldCfg \<Rightarrow>
                     let old = keys_list (gl_AuthorizedKeys (cfg_Global oldCfg)) in
                     Inr (if old = [] then newCfg
                          else newCfg\<lparr>cfg_Global := (cfg_Global newCfg)\<lparr>gl_AuthorizedKeys := Some (keys @ old)\<rparr>\<rparr>)))
      else Inr newCfg)"

definition setConfigCmd ::
    "'key agent_ops \<Rightarrow> 'key yaml_ops \<Rightarrow> 'key ssh_ops \<Rightarrow> time \<Rightarrow> string \<Rightarrow> string \<Rightarrow> node_client result \<Rightarrow> bytes result
      \<Rightarrow> (bytes \<times> bytes) result" where
  "setConfigCmd a y ssh now keyFile keyText client file =
     (case client of
        Inl err \<Rightarrow> Inl err
      | Inr cl \<Rightarrow>
          (case file of
             Inl err \<Rightarrow> Inl err
           | Inr yaml \<Rightarrow>
               (case Config_Unmarshal y yaml of
                  Inl err \<Rightarrow> Inl (Wrapf ''error parsing yaml data'' err)
                | Inr newCfg \<Rightarrow>
                    (case reuse_keys y cl newCfg of
                       Inl err \<Rightarrow> Inl err
                     | Inr newCfg \<Rightarrow>
                         (case SignConfig a y ssh now keyFile keyText newCfg True of
                            Inl err \<Rightarrow> Inl (Wrapf ''error signing config data'' err)
                          | Inr (newCfgData, sig) \<Rightarrow>
                              (case nk_SetConfig cl newCfgData sig of
                                 Some err \<Rightarrow> Inl err
                               | None \<Rightarrow> Inr (newCfgData, sig)))))))"

text \<open>The temporary file and the editor: what they answer, and the text after editing.\<close>

record edit_env =
  ee_CreateTemp :: "go_error option"
  ee_Write :: "go_error option"
  ee_Close :: "go_error option"
  ee_EDITOR :: string
  ee_VISUAL :: string
  ee_Run :: "string \<Rightarrow> go_error option"
  ee_ReadFile :: "bytes result"

definition choose_editor :: "edit_env \<Rightarrow> string" where
  "choose_editor e = (if ee_EDITOR e = [] then ee_VISUAL e else ee_EDITOR e)"

definition edit_text :: "edit_env \<Rightarrow> bytes result" where
  "edit_text e =
     (case ee_CreateTemp e of
        Some err \<Rightarrow> Inl (Wrapf ''error creating temp file'' err)
      | None \<Rightarrow>
          (case ee_Write e of
             Some err \<Rightarrow> Inl (Wrapf ''error writing temp file'' err)
           | None \<Rightarrow>
               (case ee_Close e of
                  Some err \<Rightarrow> Inl (Wrapf ''error closing temp file'' err)
                | None \<Rightarrow>
                    if choose_editor e = [] then Inl (Errorf ''unable to find an editor; please set EDITOR or VISUAL'')
                    else (case ee_Run e (choose_editor e) of
                            Some err \<Rightarrow> Inl (Wrapf ''error running editor'' err)
                          | None \<Rightarrow>
                              (case ee_ReadFile e of
                                 Inl err \<Rightarrow> Inl (Wrapf ''error reading temp file'' err)
                               | Inr newYaml \<Rightarrow> Inr newYaml)))))"

definition editConfigCmd ::
    "'key agent_ops \<Rightarrow> 'key yaml_ops \<Rightarrow> 'key ssh_ops \<Rightarrow> time \<Rightarrow> string \<Rightarrow> string \<Rightarrow> node_client result \<Rightarrow> edit_env
      \<Rightarrow> (bytes \<times> bytes) option result" where
  "editConfigCmd a y ssh now keyFile keyText client e =
     (case client of
        Inl err \<Rightarrow> Inl (Wrapf ''error opening socket client'' err)
      | Inr cl \<Rightarrow>
          (case nk_GetConfig cl of
             Inl err \<Rightarrow> Inl (Wrapf ''error getting current config'' err)
           | Inr oldYaml \<Rightarrow>
               (case edit_text e of
                  Inl err \<Rightarrow> Inl err
                | Inr newYaml \<Rightarrow>
                    if newYaml = oldYaml then Inr None
                    else (case Config_Unmarshal y newYaml of
                            Inl err \<Rightarrow> Inl (Wrapf ''error parsing new config yaml'' err)
                          | Inr cfg \<Rightarrow>
                              (case SignConfig a y ssh now keyFile keyText cfg True of
                                 Inl err \<Rightarrow> Inl (Wrapf ''error signing new config'' err)
                               | Inr (newCfgData, sig) \<Rightarrow>
                                   (case nk_SetConfig cl newCfgData sig of
                                      Some err \<Rightarrow> Inl (Wrapf ''error updating config'' err)
                                    | None \<Rightarrow> Inr (Some (newCfgData, sig))))))))"

section \<open>\<open>status\<close>\<close>

definition formatNode :: "string \<Rightarrow> (string, string) gomap \<Rightarrow> string" where
  "formatNode addr nodeNames =
     (let name = go_get_or [] nodeNames addr in
      if name = [] then ''['' @ addr @ '']'' else name @ '' ['' @ addr @ '']'')"

text \<open>
  \<open>slices.SortFunc\<close>: a negative number says that the first argument comes first. The lists of the control
  API have no null entries, so the cases for nil pointers do not occur.
\<close>

fun insert_by :: "('a \<Rightarrow> 'a \<Rightarrow> int) \<Rightarrow> 'a \<Rightarrow> 'a list \<Rightarrow> 'a list" where
  "insert_by cmp x [] = [x]"
| "insert_by cmp x (y # ys) = (if cmp x y \<le> 0 then x # y # ys else y # insert_by cmp x ys)"

definition SortFunc :: "('a \<Rightarrow> 'a \<Rightarrow> int) \<Rightarrow> 'a list \<Rightarrow> 'a list" where
  "SortFunc cmp xs = foldr (insert_by cmp) xs []"

definition cmp_desc :: "string \<Rightarrow> string \<Rightarrow> int" where
  "cmp_desc a b = (if a < b then 1 else if a > b then -1 else 0)"

definition cmp_sessions :: "StatusSession \<Rightarrow> StatusSession \<Rightarrow> int" where
  "cmp_sessions a b = cmp_desc (sts_Addr a) (sts_Addr b)"

definition cmp_nodes :: "StatusNode \<Rightarrow> StatusNode \<Rightarrow> int" where
  "cmp_nodes a b =
     (if sn_Name a = [] \<and> sn_Name b \<noteq> [] then -1
      else if sn_Name a \<noteq> [] \<and> sn_Name b = [] then 1
      else cmp_desc (sn_Addr a) (sn_Addr b))"

definition cmp_conns :: "StatusNodeConn \<Rightarrow> StatusNodeConn \<Rightarrow> int" where
  "cmp_conns a b = cmp_desc (snc_Subnet a) (snc_Subnet b)"

fun join_comma :: "string list \<Rightarrow> string" where
  "join_comma [] = []"
| "join_comma [p] = p"
| "join_comma (p # q # ps) = p @ '', '' @ join_comma (q # ps)"

definition session_line :: "(string, string) gomap \<Rightarrow> StatusSession \<Rightarrow> string" where
  "session_line nodeNames sess =
     ''    '' @ formatNode (sts_Addr sess) nodeNames @
     (if sts_Connected sess then '' (Connected since '' @ sts_ConnStart sess @ '')'' else '' (Disconnected)'')"

text \<open>\<open>fmtCost\<close> prints a cost with two decimals.\<close>

definition node_line :: "(f32 \<Rightarrow> string) \<Rightarrow> (string, string) gomap \<Rightarrow> StatusNode \<Rightarrow> string" where
  "node_line fmtCost nodeNames node =
     ''    '' @ formatNode (sn_Addr node) nodeNames @ '' --> '' @
     join_comma (map (\<lambda>p. formatNode (snc_Subnet p) nodeNames @ '' ('' @ fmtCost (snc_Cost p) @ '')'')
       (SortFunc cmp_conns (sn_Conns node)))"

definition key_line :: "'key ssh_ops \<Rightarrow> ('key \<Rightarrow> string) \<Rightarrow> (go_error \<Rightarrow> string) \<Rightarrow> bool \<Rightarrow> string \<Rightarrow> string" where
  "key_line ssh keyType errText verbose keyStr =
     ''      '' @ (if verbose then keyStr
                   else (case abbreviateKey ssh keyType keyStr of
                           Inl err \<Rightarrow> errText (Wrapf ''bad key'' err)
                         | Inr k \<Rightarrow> k))"

definition nodeNames_of :: "StatusNode list \<Rightarrow> (string, string) gomap" where
  "nodeNames_of ns = fold (\<lambda>nn m. go_set m (sn_Addr nn) (sn_Name nn)) ns []"

definition status_lines ::
    "'key ssh_ops \<Rightarrow> ('key \<Rightarrow> string) \<Rightarrow> (go_error \<Rightarrow> string) \<Rightarrow> (f32 \<Rightarrow> string) \<Rightarrow> (time \<Rightarrow> string) \<Rightarrow> bool \<Rightarrow> ControlStatus \<Rightarrow> string list" where
  "status_lines ssh keyType errText fmtCost fmtTime verbose st =
     (let nodeNames = nodeNames_of (cs_Nodes st) in
      [''Node: '' @ cs_Name st @ '' ['' @ cs_Addr st @ '']'', ''  Global Settings:'',
       ''    Domain: '' @ sg_Domain (cs_Global st), ''    Subnet: '' @ sg_Subnet (cs_Global st),
       ''    Config Last Updated: '' @ fmtTime (sg_ConfigLastUpdated (cs_Global st)), ''    Authorized Keys:''] @
      map (key_line ssh keyType errText verbose) (sg_AuthorizedKeys (cs_Global st)) @
      [''  Sessions:''] @ map (session_line nodeNames) (SortFunc cmp_sessions (cs_Sessions st)) @
      [''  Network Map:''] @ map (node_line fmtCost nodeNames) (SortFunc cmp_nodes (cs_Nodes st)))"

text \<open>The command: what the client, once made, returns for the status query may be nil.\<close>

definition statusCmd ::
    "'key ssh_ops \<Rightarrow> ('key \<Rightarrow> string) \<Rightarrow> (go_error \<Rightarrow> string) \<Rightarrow> (f32 \<Rightarrow> string) \<Rightarrow> (time \<Rightarrow> string) \<Rightarrow>
     ControlStatus option result result \<Rightarrow> bool \<Rightarrow> string list result" where
  "statusCmd ssh keyType errText fmtCost fmtTime client verbose =
     (case client of
        Inl err \<Rightarrow> Inl err
      | Inr getStatus \<Rightarrow>
          (case getStatus of
             Inl err \<Rightarrow> Inl err
           | Inr None \<Rightarrow> Inl (Errorf ''no status returned'')
           | Inr (Some status) \<Rightarrow> Inr (status_lines ssh keyType errText fmtCost fmtTime verbose status)))"

section \<open>\<open>nsenter\<close> and \<open>setup-tunnel\<close>\<close>

fun nsenter_pid :: "int \<Rightarrow> (string \<times> int) list \<Rightarrow> int result" where
  "nsenter_pid pid [] = (if pid = 0 then Inl (Errorf ''no matching network namespaces found'') else Inr pid)"
| "nsenter_pid pid ((_, p) # ns) =
     (if pid \<noteq> 0 then Inl (Errorf ''multiple network namespaces found - please specify one'') else nsenter_pid p ns)"

text \<open>The arguments of \<open>nsenter\<close>. The node answers a query for one namespace, or for all when no name is given.\<close>

definition nsenterCmd ::
    "(string option \<Rightarrow> (string \<times> int) list result) result \<Rightarrow> string \<Rightarrow> string \<Rightarrow> string list \<Rightarrow> string list result" where
  "nsenterCmd client namespaceName envShell args =
     (case client of
        Inl err \<Rightarrow> Inl err
      | Inr getNetns \<Rightarrow>
          (case getNetns (if namespaceName = [] then None else Some namespaceName) of
             Inl err \<Rightarrow> Inl err
           | Inr netns \<Rightarrow>
               (case nsenter_pid 0 netns of
                  Inl err \<Rightarrow> Inl err
                | Inr pid \<Rightarrow>
                    let args = (if length args = 0 then [if envShell = [] then ''/bin/sh'' else envShell] else args) in
                    Inr ([''--preserve-credentials'', ''--user'', ''--mount'', ''--net'', ''--uts'', ''-t'', strconv_Itoa pid] @ args))))"

text \<open>The command that \<open>netns.New\<close> runs; its MTU flag is an \<open>int\<close> of which the low 16 bits are used.\<close>

definition netnsShimCmd :: "shim_env \<Rightarrow> string \<Rightarrow> int \<Rightarrow> string \<Rightarrow> string \<Rightarrow> string \<Rightarrow> go_error option list \<Rightarrow> shim_run" where
  "netnsShimCmd e tunif mtu addr domain dnsServer ends =
     (case RunShim e tunif (word_of_int mtu) addr domain dnsServer ends of
        (calls, err) \<Rightarrow> (calls, map_option (Wrapf ''error running netns shim'') err))"

text \<open>Conversion of an \<open>int\<close> to a \<open>uint\<close>, of 64 bits each.\<close>

definition to_uint :: "int \<Rightarrow> nat" where
  "to_uint i = nat (i mod 2 ^ 64)"

record owner_env =
  oe_SUDO_UID :: string
  oe_SUDO_GID :: string
  oe_Atoi :: "string \<Rightarrow> int result"
  oe_Getuid :: int
  oe_Getgid :: int

text \<open>The user and the group who will own a tunnel, from the flags; in the last case the code assigns the user.\<close>

definition tunnel_owner :: "owner_env \<Rightarrow> int \<Rightarrow> int \<Rightarrow> (int \<times> int) result" where
  "tunnel_owner e uid gid =
     (case (if uid = -1
            then (if oe_SUDO_UID e \<noteq> []
                  then (case oe_Atoi e (oe_SUDO_UID e) of Inl err \<Rightarrow> Inl (Wrapf ''error parsing SUDO_UID'' err) | Inr u \<Rightarrow> Inr u)
                  else Inr (oe_Getuid e))
            else Inr uid) of
        Inl err \<Rightarrow> Inl err
      | Inr uid \<Rightarrow>
          if gid = -1
          then (if oe_SUDO_GID e \<noteq> []
                then (case oe_Atoi e (oe_SUDO_GID e) of Inl err \<Rightarrow> Inl (Wrapf ''error parsing SUDO_GID'' err) | Inr g \<Rightarrow> Inr (uid, g))
                else Inr (oe_Getgid e, gid))
          else Inr (uid, gid))"

text \<open>One link for each tunnel, until one fails.\<close>

fun setup_links ::
    "('s, 'i) net_ops \<Rightarrow> string \<Rightarrow> ipnet \<Rightarrow> 16 word \<Rightarrow> (linkOptInfo \<Rightarrow> linkOptInfo) list \<Rightarrow> (string \<times> TunDev) list \<Rightarrow> 's
      \<Rightarrow> 's \<times> go_error option" where
  "setup_links ops msg sub mtu opts [] s = (s, None)"
| "setup_links ops msg sub mtu opts ((name, t) # ts) s =
     (case SetupLink ops (tun_DeviceName t) (tun_Address t) sub mtu opts s of
        (s, Inl err) \<Rightarrow> (s, Some (Wrapf (msg @ name) err))
      | (s, Inr _) \<Rightarrow> setup_links ops msg sub mtu opts ts s)"

definition setupTunnelCmd ::
    "('s, 'i) net_ops \<Rightarrow> 'key yaml_ops \<Rightarrow> owner_env \<Rightarrow> file_system \<Rightarrow> string \<Rightarrow> string \<Rightarrow> int \<Rightarrow> int \<Rightarrow> bool \<Rightarrow> 's
      \<Rightarrow> 's \<times> go_error option" where
  "setupTunnelCmd ops y e fs configFilename identity uid gid check s =
     (case Config_Load y fs configFilename of
        Inl err \<Rightarrow> (s, Some (Wrapf ''error reading config file'' err))
      | Inr config \<Rightarrow>
          (case go_get (cfg_Nodes config) identity of
             None \<Rightarrow> (s, Some (Errorf ''no such node in config file''))
           | Some node \<Rightarrow>
               let mtu = LeastMTU registry_init node 1500; sub = Subnet_AsIPNet (gl_Subnet (cfg_Global config)) in
               if check then setup_links ops ''check failed for '' sub mtu [WithCheck] (nd_TunDevs node) s
               else (case tunnel_owner e uid gid of
                       Inl err \<Rightarrow> (s, Some err)
                     | Inr (uid, gid) \<Rightarrow>
                         setup_links ops ''error setting up '' sub mtu [WithUidGid (to_uint uid) (to_uint gid), WithPersist]
                           (nd_TunDevs node) s)))"

section \<open>An initialised node can be run\<close>

lemma init_key_Inr:
  assumes "init_key a keyFile keyText = Inr key"
  shows "ag_GetMatchingKeys a keyText = Inr [(mpk_PublicKey key, mpk_Comment key)]"
proof -
  obtain keys where "ag_GetMatchingKeys a keyText = Inr keys" "length keys = 1"
      "key = \<lparr>mpk_PublicKey = fst (keys ! 0), mpk_Comment = snd (keys ! 0)\<rparr>"
    using assms by (auto simp: init_key_def not_less le_Suc_eq split: option.splits sum.splits if_splits)
  then show ?thesis by (cases keys) auto
qed

definition has_key :: "'key ssh_ops \<Rightarrow> 'key MarshalablePublicKey \<Rightarrow> 'key Config \<Rightarrow> bool" where
  "has_key ssh key cfg \<longleftrightarrow>
     list_ex (\<lambda>k. mpk_String ssh k = mpk_String ssh key) (keys_list (gl_AuthorizedKeys (cfg_Global cfg)))"

lemma init_new_config_key: "init_new_config randb f key = Inr cfg \<Longrightarrow> has_key ssh key cfg"
  by (auto simp: init_new_config_def has_key_def keys_list_def Let_def split: sum.splits)

lemma add_init_key_key: "has_key ssh key (add_init_key ssh key cfg)"
  by (simp add: add_init_key_def has_key_def keys_list_def Let_def)

lemma init_load_config_key: "init_load_config y ssh fs file key = Inr cfg \<Longrightarrow> has_key ssh key cfg"
  by (auto simp: init_load_config_def add_init_key_key split: sum.splits)

lemma write_signed_ok:
  assumes "write_signed e d cfgData sig fs = (fs', None)"
  shows "go_get fs' (path_Join [d, ''config.yml'']) = Some cfgData \<and> go_get fs' (path_Join [d, ''config.sig'']) = Some sig"
  using assms config_files_differ [of d]
  by (auto simp: write_signed_def os_WriteFile_def gomap_simps split: option.splits prod.splits)

lemma initCmd_ok:
  assumes "initCmd a y ssh e f fs = (fs', Inr d)"
  obtains key cfg fs1 cfgData sig where "init_key a (if_keyFile f) (if_keyText f) = Inr key" "has_key ssh key cfg"
    "SignConfig a y ssh (ie_now e) (if_keyFile f) (if_keyText f) cfg (if_config f \<noteq> []) = Inr (cfgData, sig)"
    "write_signed e d cfgData sig fs1 = (fs', None)"
    "if_config f = [] \<Longrightarrow> init_new_config (ie_rand e) f key = Inr cfg"
proof -
  obtain key where key: "init_key a (if_keyFile f) (if_keyText f) = Inr key"
    using assms by (cases "init_key a (if_keyFile f) (if_keyText f)") (simp_all add: initCmd_def)
  let ?c = "if if_config f = [] then init_new_config (ie_rand e) f key else init_load_config y ssh fs (if_config f) key"
  obtain cfg where cfg: "?c = Inr cfg" using assms key by (cases ?c) (simp_all add: initCmd_def)
  then have "has_key ssh key cfg" by (auto split: if_splits dest: init_new_config_key init_load_config_key)
  moreover obtain fs1 cfgData sig where
      "SignConfig a y ssh (ie_now e) (if_keyFile f) (if_keyText f) cfg (if_config f \<noteq> []) = Inr (cfgData, sig)"
      "write_signed e d cfgData sig fs1 = (fs', None)"
    using assms unfolding initCmd_def key sum.case cfg
    by (auto split: sum.splits prod.splits option.splits)
  moreover have "init_new_config (ie_rand e) f key = Inr cfg" if "if_config f = []" using cfg that by simp
  ultimately show thesis using that [OF key] by blast
qed



section \<open>The address of a new node\<close>

text \<open>Splitting the text of a subnet at its ellipsis.\<close>

lemma split_colons_Cons:
  "split_colons s = p # ps \<Longrightarrow> c \<noteq> CHR '':'' \<or> (s \<noteq> [] \<and> hd s \<noteq> CHR '':'') \<Longrightarrow> split_colons (c # s) = (c # p) # ps"
  by (cases s) auto

lemma split_colons_prefix:
  "split_colons s = p # ps \<Longrightarrow> CHR '':'' \<notin> set t \<Longrightarrow> split_colons (t @ s) = (t @ p) # ps"
  by (induction t) (auto simp: split_colons_Cons)

lemma colon_hex16: "n < 65536 \<Longrightarrow> CHR '':'' \<notin> set (hex16 n)"
proof -
  assume "n < 65536"
  then obtain ds where "hex16 n = map hex_digit ds" "list_all (\<lambda>d. d < 16) ds" using hex16_chars by blast
  then show ?thesis using hex_digit_neq by (fastforce simp: list_all_iff)
qed

lemma split_colons_groups:
  "groups_ok gs \<Longrightarrow> split_colons (join_groups gs @ ''::'' @ r) = join_groups gs # split_colons r"
proof (induction gs rule: induct_list012)
  case (2 g)
  have "split_colons (hex16 g @ ''::'' @ r) = (hex16 g @ []) # split_colons r"
    using 2 by (intro split_colons_prefix) (simp_all add: colon_hex16)
  then show ?case by simp
next
  case (3 g h gs)
  have IH: "split_colons (join_groups (h # gs) @ ''::'' @ r) = join_groups (h # gs) # split_colons r" using 3 by simp
  obtain c cs where c: "join_groups (h # gs) = c # cs" "c \<noteq> CHR '':''"
    using h16.join_Cons [of "h # gs"] 3(3) by auto
  have "split_colons (CHR '':'' # (join_groups (h # gs) @ ''::'' @ r)) = (CHR '':'' # join_groups (h # gs)) # split_colons r"
    using IH c by (intro split_colons_Cons) auto
  then have "split_colons (hex16 g @ CHR '':'' # (join_groups (h # gs) @ ''::'' @ r)) = (hex16 g @ CHR '':'' # join_groups (h # gs)) # split_colons r"
    using 3(3) by (intro split_colons_prefix) (simp_all add: colon_hex16)
  then show ?case by simp
qed simp

text \<open>When the lower half of an address is zero and its first group is not, the ellipsis is at the end of its text.\<close>

lemma zero_run_half:
  assumes "v6u16 a 0 \<noteq> 0" "v6u16 a 4 = 0" "v6u16 a 5 = 0" "v6u16 a 6 = 0" "v6u16 a 7 = 0"
  shows "\<exists>zs. v6_zero_run a = (zs, 8) \<and> 1 \<le> zs \<and> zs \<le> 4"
proof -
  have u: "[Suc 0..<8] = [1, 2, 3, 4, 5, 6, 7]" "[2..<8] = [2, 3, 4, 5, 6, 7]" "[3..<8] = [3, 4, 5, 6, 7]" "[4..<8] = [4, 5, 6, 7]"
    "[5..<8] = [5, 6, 7]" "[6..<8] = [6, 7]" "[7..<8] = [7 :: nat]"
    by (simp_all add: upt_rec)
  show ?thesis
    using assms
    by (cases "v6u16 a 1 = 0"; cases "v6u16 a 2 = 0"; cases "v6u16 a 3 = 0")
      (simp_all add: v6_zero_run_def zero_run_len_def upt8 u)
qed

lemma cidr_bytes_64: "cidr_bytes 64 16 = replicate 8 0xff @ replicate 8 0"
  by code_simp

lemma masked_64:
  assumes "length a = 16"
  shows "map2 (AND) a (cidr_bytes 64 16) = take 8 a @ replicate 8 0"
  by (rule nth_equalityI) (use assms in \<open>auto simp: cidr_bytes_64 nth_append\<close>)

lemma butlast_zeros: "butlast (replicate n x) = replicate (n - 1) x"
  by (cases n) (simp_all only: replicate_Suc replicate_append_same [symmetric] butlast_snoc diff_Suc_1 replicate_0 butlast.simps diff_0_eq_0)

lemma groups_bytes_zeros: "groups_bytes (replicate k 0) = replicate (2 * k) 0"
  by (induction k) (simp_all add: group_bytes_def)

lemma zero_tail:
  assumes "v6_zero_run b = (zs, 8)" "length b = 16"
  shows "b = groups_bytes (take zs (addr_groups b)) @ replicate (2 * (8 - zs)) 0"
proof -
  have ok: "run_ok b (zs, 8)" using zero_run_ok [of b] assms(1) by simp
  have "drop zs (addr_groups b) = replicate (8 - zs) 0"
    by (rule nth_equalityI) (use ok in \<open>auto simp: addr_groups_def run_ok_def\<close>)
  then have "groups_bytes (addr_groups b) = groups_bytes (take zs (addr_groups b) @ replicate (8 - zs) 0)"
    by (metis append_take_drop_id)
  then show ?thesis by (simp only: groups_bytes_addr [OF assms(2)] groups_simps(7) groups_bytes_zeros)
qed

lemma find_sep_groups: "gs \<noteq> [] \<Longrightarrow> groups_ok gs \<Longrightarrow> find is_sep (join_groups gs @ ''::'' @ r) = Some CHR '':''"
  by (cases gs; cases "tl gs") (simp_all add: find_hex16)

lemma nonzero_not_To4: "length a = 16 \<Longrightarrow> v6u16 a 0 \<noteq> 0 \<Longrightarrow> net_To4 a = None"
proof -
  assume a: "length a = 16" "v6u16 a 0 \<noteq> 0"
  then have "a ! 0 \<noteq> 0 \<or> a ! 1 \<noteq> 0" by (auto simp: v6u16_def)
  moreover have "byte_slice 0 10 a ! 0 \<in> set (byte_slice 0 10 a)" "byte_slice 0 10 a ! 1 \<in> set (byte_slice 0 10 a)"
    using a(1) by (auto simp only: byte_slice_def intro!: nth_mem) simp_all
  then have "a ! 0 \<in> set (byte_slice 0 10 a)" "a ! 1 \<in> set (byte_slice 0 10 a)" using a(1) by (simp_all add: byte_slice_def)
  ultimately have "\<not> isZeros (byte_slice 0 10 a)" by (auto simp: isZeros_def list_all_iff)
  then show ?thesis using a(1) by (simp add: net_To4_def)
qed

text \<open>A node of a /64 network gets the first address of it.\<close>

lemma init_ip_64:
  assumes a: "length a = 16" "v6u16 a 0 \<noteq> 0"
  shows "init_ip (NewSubnet a (CIDRMask 64 128)) [] = take 8 a @ replicate 7 0 @ [1]"
proof -
  let ?b = "take 8 a @ replicate 8 0" and ?s = "NewSubnet a (CIDRMask (int 64) (int (8 * length a)))"
  have b: "length ?b = 16" using a(1) by simp
  have g0: "v6u16 ?b 0 \<noteq> 0" "v6u16 ?b 4 = 0" "v6u16 ?b 5 = 0" "v6u16 ?b 6 = 0" "v6u16 ?b 7 = 0"
    using a by (simp_all add: v6u16_def nth_append)
  have "CIDRMask (int 64) 128 = cidr_bytes 64 16" by (rule CIDRMask_128) simp
  then have ip: "Subnet_IP ?s = ?b"
    using a(1) masked_64 [OF a(1)] by (simp add: NewSubnet_map2 Subnet_IP_def subnet_len_ok_def)
  have to4: "net_To4 ?b = None" using nonzero_not_To4 [OF b g0(1)] .
  have str: "Subnet_String ?s = v6_String ?b @ CHR ''/'' # dec8 64"
    using Subnet_String_NewSubnet(1) [of a 64 ?s] a(1) ip to4 b by (simp add: net_IP_String_def)
  obtain zs where zs: "v6_zero_run ?b = (zs, 8)" "1 \<le> zs" "zs \<le> 4" using zero_run_half [OF g0] by blast
  let ?gs = "take zs (addr_groups ?b)"
  have ok: "groups_ok ?gs" "?gs \<noteq> []" "length ?gs = zs"
    using zs addr_groups_ok(2) [of ?b] by (auto simp: groups_ok_def list_all_iff dest: in_set_takeD) (simp add: addr_groups_def)+
  have "v6_String ?b = join_groups ?gs @ ''::''" using v6_String_run [OF zs(1)] zs by (simp add: addr_groups_def)
  then have "split_colons (Subnet_String ?s) = join_groups ?gs # split_colons (CHR ''/'' # dec8 64)"
    using split_colons_groups [OF ok(1), of "CHR ''/'' # dec8 64"] str by simp
  then have ip: "init_ip ?s [] = ParseIP (join_groups ?gs @ ''::'' @ join_groups [1])"
    by (simp add: init_ip_def hex16_def hex_digit_def)
  have addr: "groups_bytes ?gs @ replicate (16 - 2 * (zs + 1)) 0 @ [0, 1] = take 8 a @ replicate 7 0 @ [1]"
  proof -
    have k: "2 * (8 - zs) = Suc (Suc (16 - 2 * (zs + 1)))" using zs by simp
    have "butlast ?b = butlast (groups_bytes ?gs @ replicate (Suc (Suc (16 - 2 * (zs + 1)))) 0)"
      using zero_tail [OF zs(1) b] k by metis
    then have "take 8 a @ replicate 7 0 = groups_bytes ?gs @ replicate (16 - 2 * (zs + 1)) 0 @ [0]"
      by (simp add: butlast_append butlast_zeros replicate_append_same flip: replicate_Suc)
    then show ?thesis by simp
  qed
  have "parseIPv6 (join_groups ?gs @ ''::'' @ join_groups [1]) = Some (groups_bytes ?gs @ replicate (16 - 2 * (zs + 1)) 0 @ [0, 1])"
    using h16.parseIPv6_ellipsis [of ?gs "[1]"] ok zs by (simp add: group_bytes_def)
  then have parse: "netip_ParseAddr (join_groups ?gs @ ''::'' @ join_groups [1]) = Some (take 8 a @ replicate 7 0 @ [1])"
    using find_sep_groups [OF ok(2,1), of "join_groups [1]"] addr by (simp add: netip_ParseAddr_def)
  have "net_To4 (take 8 a @ replicate 7 0 @ [1]) = None"
    using a by (intro nonzero_not_To4) (simp_all add: v6u16_def nth_append)
  then have "init_ip ?s [] = take 8 a @ replicate 7 0 @ [1]"
    unfolding ip ParseIP_To4 parse using a(1) by (simp add: addr_As16_def)
  then show ?thesis using a(1) by simp
qed

lemma NewSubnet_64:
  assumes "length a = 16"
  shows "NewSubnet a (CIDRMask 64 128) = (take 8 a @ replicate 8 0) @ cidr_bytes 64 16"
    and "Subnet_IP (NewSubnet a (CIDRMask 64 128)) = take 8 a @ replicate 8 0"
    and "Subnet_Mask (NewSubnet a (CIDRMask 64 128)) = cidr_bytes 64 16"
proof -
  have "CIDRMask 64 128 = cidr_bytes 64 16" using CIDRMask_128 [of 64] by simp
  then show s: "NewSubnet a (CIDRMask 64 128) = (take 8 a @ replicate 8 0) @ cidr_bytes 64 16"
    using assms masked_64 [OF assms] by (simp add: NewSubnet_map2)
  show "Subnet_IP (NewSubnet a (CIDRMask 64 128)) = take 8 a @ replicate 8 0"
    "Subnet_Mask (NewSubnet a (CIDRMask 64 128)) = cidr_bytes 64 16"
    unfolding s using assms by (simp_all add: Subnet_IP_def Subnet_Mask_def subnet_len_ok_def)
qed

lemma contains_64:
  assumes a: "length a = 16" "v6u16 a 0 \<noteq> 0" and t: "length t = 8"
  shows "Subnet_Contains (NewSubnet a (CIDRMask 64 128)) (take 8 a @ t)"
proof -
  have "net_To4 (take 8 a @ replicate 8 0) = None" "net_To4 (take 8 a @ t) = None"
    using a t by (auto intro!: nonzero_not_To4 simp: v6u16_def nth_append)
  then have "networkNumberAndMask (Subnet_AsIPNet (NewSubnet a (CIDRMask 64 128))) = (take 8 a @ replicate 8 0, cidr_bytes 64 16)"
    using a(1) by (simp add: networkNumberAndMask_def Subnet_AsIPNet_def NewSubnet_64(2,3) Let_def)
  moreover have "i < 16 \<Longrightarrow> (take 8 a @ replicate 8 0) ! i AND cidr_bytes 64 16 ! i = (take 8 a @ t) ! i AND cidr_bytes 64 16 ! i" for i
    using a(1) by (simp add: cidr_bytes_64 nth_append)
  ultimately show ?thesis using a(1) t \<open>net_To4 (take 8 a @ t) = None\<close>
    by (simp add: Subnet_Contains_def net_Contains_def list_all_iff)
qed

lemma random_first_byte:
  assumes "length randb = 16"
  shows "\<exists>a. RandomSubnet randb (ParseIP ''fd00::'') 8 64 = Inr (NewSubnet a (CIDRMask 64 128)) \<and> length a = 16 \<and> a ! 0 = 0xfd"
proof -
  let ?p = "0xfd # replicate 15 0 :: bytes"
  have "join_groups [0xfd00] @ ''::'' @ join_groups [] = ''fd00::''" by (simp add: hex16_def hex_digit_def)
  moreover have "(64768 :: byte) = 0" "replicate 15 0 = (0 :: byte) # replicate 14 0" by (simp, simp add: numeral_eq_Suc)
  then have "groups_bytes [0xfd00] @ replicate 14 0 = ?p" by (simp add: group_bytes_def)
  ultimately have "parseIPv6 ''fd00::'' = Some ?p" using h16.parseIPv6_ellipsis [of "[0xfd00]" "[]"] by simp
  then have "netip_ParseAddr ''fd00::'' = Some ?p" by (simp add: netip_ParseAddr_def is_sep_def)
  then have p: "ParseIP ''fd00::'' = ?p" by (simp add: ParseIP_To4 addr_As16_def net_To4_def isZeros_def byte_slice_def)
  obtain a where a: "RandomSubnet randb ?p 8 64 = Inr (NewSubnet a (CIDRMask (int 64) 128))" "length a = 16"
      "\<And>k. k < 128 \<Longrightarrow> addr_bits a ! k = (if k < 8 then addr_bits ?p ! k else k < 64 \<and> addr_bits (rev randb) ! k)"
    using random_subnet_bits [of ?p randb 8 64] assms by auto
  obtain x xs where x: "a = x # xs" using a(2) by (cases a) auto
  have "byte_bits x ! k = byte_bits 0xfd ! k" if "k < 8" for k
    using a(3) [of k] that by (simp add: x addr_bits_Cons nth_append)
  then have "byte_bits x = byte_bits 0xfd" by (intro nth_equalityI) simp_all
  then show ?thesis using a p x by auto
qed

text \<open>
  Without \<open>--subnet\<close> and \<open>--ip\<close>, a new network is a random /64 subnet of fd00::/8, and its first node gets the
  address 1 of this subnet, whatever the random bytes are.
\<close>

theorem init_default_address:
  assumes rand: "length randb = 16" and flags: "if_subnet f = []" "if_ip f = []"
    and init: "init_new_config randb f key = Inr cfg"
  shows "\<exists>a node. gl_Subnet (cfg_Global cfg) = NewSubnet a (CIDRMask 64 128) \<and> length a = 16 \<and> a ! 0 = 0xfd
    \<and> go_get (cfg_Nodes cfg) (if_identity f) = Some node \<and> nd_Address node = take 8 a @ replicate 7 0 @ [1]
    \<and> Subnet_Contains (gl_Subnet (cfg_Global cfg)) (nd_Address node)"
proof -
  obtain a where a: "RandomSubnet randb (ParseIP ''fd00::'') 8 64 = Inr (NewSubnet a (CIDRMask 64 128))" "length a = 16" "a ! 0 = 0xfd"
    using random_first_byte [OF rand] by blast
  let ?s = "NewSubnet a (CIDRMask 64 128)"
  have g0: "v6u16 a 0 \<noteq> 0" using a(3) by (simp add: v6u16_def)
  have "net_To4 (Subnet_IP ?s) = None"
    unfolding NewSubnet_64(2) [OF a(2)] using a(2,3) by (intro nonzero_not_To4) (simp_all add: v6u16_def nth_append)
  then obtain ip where p: "ParseCIDR (Subnet_String ?s) = Inr (ip, ?s)"
    using ParseCIDR_Subnet_String [of a 64 ?s] a(2) by auto
  obtain bs where "init_backends (if_backend f) = Inr bs"
      and "gl_Subnet (cfg_Global cfg) = ?s" "cfg_Nodes cfg = [(if_identity f, init_node (init_ip ?s []) bs)]"
    using init flags a(1) p by (auto simp: init_new_config_def init_subnet_def Let_def split: sum.splits)
  then show ?thesis
    using a(2,3) init_ip_64 [OF a(2) g0] contains_64 [OF a(2) g0, of "replicate 7 0 @ [1]"] by (auto simp: init_node_def)
qed

theorem init_default_address_witness:
  "\<exists>a node cfg. init_new_config (replicate 16 7)
       \<lparr>if_identity = ''foo'', if_dataDir = [], if_keyFile = [], if_keyText = [], if_force = False, if_domain = [],
        if_subnet = [], if_ip = [], if_backend = [], if_config = []\<rparr> \<lparr>mpk_PublicKey = ''A'', mpk_Comment = []\<rparr> = Inr cfg
     \<and> a ! 0 = 0xfd \<and> go_get (cfg_Nodes cfg) ''foo'' = Some node \<and> nd_Address node = take 8 a @ replicate 7 0 @ [1]"
proof -
  let ?f = "\<lparr>if_identity = ''foo'', if_dataDir = [], if_keyFile = [], if_keyText = [], if_force = False, if_domain = [],
    if_subnet = [], if_ip = [], if_backend = [], if_config = []\<rparr>" and ?k = "\<lparr>mpk_PublicKey = ''A'', mpk_Comment = []\<rparr>"
  obtain a where a: "RandomSubnet (replicate 16 7) (ParseIP ''fd00::'') 8 64 = Inr (NewSubnet a (CIDRMask 64 128))" "length a = 16" "a ! 0 = 0xfd"
    using random_first_byte [of "replicate 16 7"] by auto
  have "net_To4 (Subnet_IP (NewSubnet a (CIDRMask 64 128))) = None"
    unfolding NewSubnet_64(2) [OF a(2)] using a(2,3) by (intro nonzero_not_To4) (simp_all add: v6u16_def nth_append)
  then obtain ip where "ParseCIDR (Subnet_String (NewSubnet a (CIDRMask 64 128))) = Inr (ip, NewSubnet a (CIDRMask 64 128))"
    using ParseCIDR_Subnet_String [of a 64 "NewSubnet a (CIDRMask 64 128)"] a(2) by auto
  then obtain cfg where cfg: "init_new_config (replicate 16 7) ?f ?k = Inr cfg"
    using a(1) by (simp add: init_new_config_def init_subnet_def init_backends_def)
  from init_default_address [OF _ _ _ cfg] show ?thesis using cfg by auto
qed

text \<open>
  For other subnets the generated address may lie outside: the text of fd00:0:0:0:1::/80 has its ellipsis before
  the group 1, so the address is fd00::1.
\<close>

definition ex_net80 :: ip where
  "ex_net80 = [0xfd, 0, 0, 0, 0, 0, 0, 0, 0, 1, 0, 0, 0, 0, 0, 0]"

lemma ex_net80_groups: "addr_groups ex_net80 = [0xfd00, 0, 0, 0, 1, 0, 0, 0]"
  by (simp add: ex_net80_def addr_groups_def v6u16_def upt8)

lemma ex_net80_run: "v6_zero_run ex_net80 = (1, 4)"
proof -
  have "v6u16 ex_net80 0 = 0xfd00" "v6u16 ex_net80 1 = 0" "v6u16 ex_net80 2 = 0" "v6u16 ex_net80 3 = 0" "v6u16 ex_net80 4 = 1"
    "v6u16 ex_net80 5 = 0" "v6u16 ex_net80 6 = 0" "v6u16 ex_net80 7 = 0"
    by (simp_all add: ex_net80_def v6u16_def)
  moreover have "[Suc 0..<8] = [1, 2, 3, 4, 5, 6, 7]" "[2..<8] = [2, 3, 4, 5, 6, 7]" "[3..<8] = [3, 4, 5, 6, 7]" "[4..<8] = [4, 5, 6, 7]"
    "[5..<8] = [5, 6, 7]" "[6..<8] = [6, 7]" "[7..<8] = [7 :: nat]"
    by (simp_all add: upt_rec)
  ultimately show ?thesis by (simp add: v6_zero_run_def zero_run_len_def upt8)
qed

lemma init_address_outside:
  defines "s \<equiv> NewSubnet ex_net80 (CIDRMask 80 128)"
  shows "init_ip s [] = [0xfd, 0] @ replicate 12 0 @ [0, 1]" "\<not> Subnet_Contains s (init_ip s [])"
proof -
  have l: "length ex_net80 = 16" by (simp add: ex_net80_def)
  have c: "cidr_bytes 80 16 = replicate 10 0xff @ replicate 6 0" by code_simp
  have m: "map2 (AND) ex_net80 (cidr_bytes 80 16) = ex_net80"
    unfolding c by (simp add: ex_net80_def numeral_eq_Suc)
  have s: "s = ex_net80 @ cidr_bytes 80 16"
    using CIDRMask_128 [of 80] m l by (simp add: s_def NewSubnet_map2)
  have ip: "Subnet_IP s = ex_net80" "Subnet_Mask s = cidr_bytes 80 16"
    unfolding s using l by (simp_all add: Subnet_IP_def Subnet_Mask_def subnet_len_ok_def)
  have to4: "net_To4 ex_net80 = None" using l by (intro nonzero_not_To4) (simp_all add: ex_net80_def v6u16_def)
  have "Subnet_String s = v6_String ex_net80 @ CHR ''/'' # dec8 80"
    using Subnet_String_NewSubnet(1) [of ex_net80 80 s] l ip to4 by (auto simp: s_def net_IP_String_def)
  also have "v6_String ex_net80 = join_groups [0xfd00] @ ''::'' @ join_groups [1, 0, 0, 0]"
    using v6_String_run [OF ex_net80_run] by (simp add: ex_net80_groups)
  finally have "split_colons (Subnet_String s) = join_groups [0xfd00] # split_colons (join_groups [1, 0, 0, 0] @ CHR ''/'' # dec8 80)"
    using split_colons_groups [of "[0xfd00]" "join_groups [1, 0, 0, 0] @ CHR ''/'' # dec8 80"] by simp
  then have i: "init_ip s [] = ParseIP (join_groups [0xfd00] @ ''::'' @ join_groups [1])"
    by (simp add: init_ip_def hex16_def hex_digit_def)
  have b: "groups_bytes [0xfd00] = [0xfd, 0]" by (simp add: group_bytes_def)
  have "parseIPv6 (join_groups [0xfd00] @ ''::'' @ join_groups [1]) = Some ([0xfd, 0] @ replicate 12 0 @ [0, 1])"
    using h16.parseIPv6_ellipsis [of "[0xfd00]" "[1]"] b by (simp add: group_bytes_def)
  then have "netip_ParseAddr (join_groups [0xfd00] @ ''::'' @ join_groups [1]) = Some ([0xfd, 0] @ replicate 12 0 @ [0, 1])"
    using find_sep_groups [of "[0xfd00]" "join_groups [1]"] by (simp add: netip_ParseAddr_def)
  moreover have x: "net_To4 ([0xfd, 0] @ replicate 12 0 @ [0, 1]) = None" by (intro nonzero_not_To4) (simp_all add: v6u16_def)
  ultimately show addr: "init_ip s [] = [0xfd, 0] @ replicate 12 0 @ [0, 1]"
    unfolding i ParseIP_To4 by (simp add: addr_As16_def)
  have "networkNumberAndMask (Subnet_AsIPNet s) = (ex_net80, cidr_bytes 80 16)"
    using l to4 ip by (simp add: networkNumberAndMask_def Subnet_AsIPNet_def Let_def)
  moreover have "ex_net80 ! 9 AND cidr_bytes 80 16 ! 9 \<noteq> ([0xfd, 0] @ replicate 12 0 @ [0, 1]) ! 9 AND cidr_bytes 80 16 ! 9"
    unfolding c ex_net80_def by (simp add: numeral_eq_Suc)
  ultimately show "\<not> Subnet_Contains s (init_ip s [])"
    using x l unfolding addr by (auto simp: Subnet_Contains_def net_Contains_def list_all_iff intro!: bexI [of _ 9])
qed

section \<open>Keys of a configuration that is set\<close>

lemma reuse_keys_nonempty:
  assumes "reuse_keys y cl newCfg = Inr cfg" "nk_GetConfig cl = Inr yaml" "Config_Unmarshal y yaml = Inr oldCfg"
    and "keys_list (gl_AuthorizedKeys (cfg_Global oldCfg)) \<noteq> []"
  shows "keys_list (gl_AuthorizedKeys (cfg_Global cfg)) =
    (if keys_list (gl_AuthorizedKeys (cfg_Global newCfg)) = [] then keys_list (gl_AuthorizedKeys (cfg_Global oldCfg))
     else keys_list (gl_AuthorizedKeys (cfg_Global newCfg)))"
  using assms by (auto simp: reuse_keys_def keys_list_def Let_def split: if_splits)

lemma SignConfig_Inr:
  assumes "SignConfig a y ssh now keyFile keyText cfg True = Inr (cfgData, sig)"
  shows "Config_Marshal y (cfg\<lparr>cfg_Global := (cfg_Global cfg)\<lparr>gl_LastUpdated := now\<rparr>\<rparr>) = Inr cfgData"
  using assms by (auto simp: SignConfig_def Let_def split: option.splits sum.splits list.splits prod.splits)

text \<open>
  C25. Setting a configuration does not lock anybody out by accident: what \<open>config set\<close> sends to a node that has authorised
  keys has authorised keys, namely those in the file or, when the file has none, the ones of the running
  configuration; everything else is as in the file, with the time of the update.
\<close>

theorem set_config_keeps_keys:
  assumes set: "setConfigCmd a y ssh now keyFile keyText (Inr cl) file = Inr (cfgData, sig)"
    and old: "nk_GetConfig cl = Inr oldYaml" "Config_Unmarshal y oldYaml = Inr oldCfg" "keys_list (gl_AuthorizedKeys (cfg_Global oldCfg)) \<noteq> []"
    and yaml: "\<And>c d. yaml_Marshal y c = Inr d \<Longrightarrow> yaml_Unmarshal y d = Inr c"
  shows "\<exists>data new sent. file = Inr data \<and> Config_Unmarshal y data = Inr new \<and> Config_Unmarshal y cfgData = Inr sent
    \<and> keys_list (gl_AuthorizedKeys (cfg_Global sent)) =
        (if keys_list (gl_AuthorizedKeys (cfg_Global new)) = [] then keys_list (gl_AuthorizedKeys (cfg_Global oldCfg))
         else keys_list (gl_AuthorizedKeys (cfg_Global new)))
    \<and> cfg_Nodes sent = cfg_Nodes new \<and> gl_Subnet (cfg_Global sent) = gl_Subnet (cfg_Global new)
    \<and> gl_LastUpdated (cfg_Global sent) = now"
proof -
  obtain data new cfg where d: "file = Inr data" "Config_Unmarshal y data = Inr new" "reuse_keys y cl new = Inr cfg"
      "SignConfig a y ssh now keyFile keyText cfg True = Inr (cfgData, sig)"
    using set by (auto simp: setConfigCmd_def split: sum.splits option.splits prod.splits)
  let ?sent = "cfg\<lparr>cfg_Global := (cfg_Global cfg)\<lparr>gl_LastUpdated := now\<rparr>\<rparr>"
  have "Config_Unmarshal y cfgData = Inr ?sent"
    using SignConfig_Inr [OF d(4)] yaml by (simp add: Config_Marshal_def Config_Unmarshal_def)
  moreover have "cfg_Nodes cfg = cfg_Nodes new" "gl_Subnet (cfg_Global cfg) = gl_Subnet (cfg_Global new)"
    using d(3) by (auto simp: reuse_keys_def Let_def split: sum.splits if_splits)
  ultimately show ?thesis
    using d reuse_keys_nonempty [OF d(3) old] by (intro exI [of _ data] exI [of _ new] exI [of _ ?sent]) auto
qed

definition ex_client :: node_client where
  "ex_client = \<lparr>nk_GetConfig = Inr [1], nk_SetConfig = (\<lambda>_ _. None)\<rparr>"

theorem set_config_keeps_keys_witness:
  "\<exists>sent. Config_Unmarshal (co_yaml ex_ops) [1] = Inr sent
     \<and> keys_list (gl_AuthorizedKeys (cfg_Global sent)) = [\<lparr>mpk_PublicKey = ''A'', mpk_Comment = []\<rparr>]
     \<and> gl_LastUpdated (cfg_Global sent) = 5"
proof -
  have u: "Config_Unmarshal (co_yaml ex_ops) [0] = Inr (ex_config None)" "Config_Unmarshal (co_yaml ex_ops) [1] = Inr (ex_config (Some [''A'']))"
    by (simp_all add: Config_Unmarshal_def ex_ops_def)
  have "reuse_keys (co_yaml ex_ops) ex_client (ex_config None) = Inr (ex_config (Some [''A'']))"
    by (simp add: reuse_keys_def ex_client_def u ex_config_def keys_list_def)
  moreover have "SignConfig ex_agent (co_yaml ex_ops) (co_ssh ex_ops) 5 [] [] (ex_config (Some [''A''])) True = Inr ([1], [65])"
    by (simp add: SignConfig_def ex_agent_def Config_Marshal_def ex_ops_def mpk_String_def trim_newlines_def ex_config_def)
  ultimately have run: "setConfigCmd ex_agent (co_yaml ex_ops) (co_ssh ex_ops) 5 [] [] (Inr ex_client) (Inr [0]) = Inr ([1], [65])"
    by (simp add: setConfigCmd_def u) (simp add: ex_client_def)
  have yaml: "yaml_Unmarshal (co_yaml ex_ops) d = Inr c" if "yaml_Marshal (co_yaml ex_ops) c = Inr d" for c d
    using that by (auto simp: ex_ops_def split: if_splits)
  have "nk_GetConfig ex_client = Inr [1]" "keys_list (gl_AuthorizedKeys (cfg_Global (ex_config (Some [''A''])))) \<noteq> []"
    by (simp_all add: ex_client_def ex_config_def keys_list_def)
  from set_config_keeps_keys [OF run this(1) u(2) this(2) yaml] show ?thesis
    by (auto simp: u ex_config_def keys_list_def)
qed

text \<open>
  Editing has no such guard: when the keys are edited away, a configuration without keys is signed and sent.
\<close>

lemma edit_config_drops_keys:
  assumes "edit_text e = Inr newYaml" "nk_GetConfig cl = Inr oldYaml" "newYaml \<noteq> oldYaml" "Config_Unmarshal y newYaml = Inr cfg"
    and "SignConfig a y ssh now keyFile keyText cfg True = Inr (cfgData, sig)" "nk_SetConfig cl cfgData sig = None"
    and "\<And>c d. yaml_Marshal y c = Inr d \<Longrightarrow> yaml_Unmarshal y d = Inr c"
  shows "editConfigCmd a y ssh now keyFile keyText (Inr cl) e = Inr (Some (cfgData, sig))
    \<and> (\<exists>sent. Config_Unmarshal y cfgData = Inr sent \<and> gl_AuthorizedKeys (cfg_Global sent) = gl_AuthorizedKeys (cfg_Global cfg))"
  using assms SignConfig_Inr [OF assms(5)] by (auto simp: editConfigCmd_def Config_Marshal_def Config_Unmarshal_def)

text \<open>Saving without a change sends nothing.\<close>

lemma edit_config_unchanged:
  "nk_GetConfig cl = Inr yaml \<Longrightarrow> edit_text e = Inr yaml \<Longrightarrow>
   editConfigCmd a y ssh now keyFile keyText (Inr cl) e = Inr None"
  by (simp add: editConfigCmd_def)

section \<open>Tunnels that have been set up\<close>

lemma device_ready_grows: "device_ready a sub mtu d \<Longrightarrow> grows d d' \<Longrightarrow> device_ready a sub mtu d'"
  by (auto simp: device_ready_def grows_def keeps_settings_def intro: list_ex_mono)

text \<open>Every device is ready once all of them have been set up, and stays ready while the others are.\<close>

lemma setup_links_ready:
  assumes k: "kernel_ok ops view" and mtu: "1280 \<le> uint mtu" and sub: "network_only sub"
    and nocheck: "\<not> lo_check (link_options opts)"
    and "distinct (map (tun_DeviceName \<circ> snd) ts)" "setup_links ops msg sub mtu opts ts s = (s', None)"
  shows "(\<forall>t \<in> set ts. \<exists>d. view s' (tun_DeviceName (snd t)) = Some d \<and> device_ready (tun_Address (snd t)) sub mtu d)
    \<and> (\<forall>n d. n \<notin> set (map (tun_DeviceName \<circ> snd) ts) \<and> view s n = Some d \<longrightarrow> (\<exists>d'. view s' n = Some d' \<and> grows d d'))"
  using assms(5,6)
proof (induction ts arbitrary: s)
  case Nil
  then show ?case by (auto simp: grows_def)
next
  case (Cons nt ts)
  obtain name t where nt: "nt = (name, t)" by fastforce
  let ?n = "tun_DeviceName t"
  obtain s1 r where one: "SetupLink ops ?n (tun_Address t) sub mtu opts s = (s1, Inr r)" and rest: "setup_links ops msg sub mtu opts ts s1 = (s', None)"
    using Cons.prems(2) nt
    by (cases "SetupLink ops ?n (tun_Address t) sub mtu opts s"; cases "snd (SetupLink ops ?n (tun_Address t) sub mtu opts s)") auto
  obtain d1 where d1: "view s1 ?n = Some d1" "device_ready (tun_Address t) sub mtu d1" and frame: "spares_others view ?n s s1"
    using SetupLink_ready [OF k mtu sub nocheck one] by blast
  have IH: "(\<forall>t \<in> set ts. \<exists>d. view s' (tun_DeviceName (snd t)) = Some d \<and> device_ready (tun_Address (snd t)) sub mtu d)"
    "\<And>n d. n \<notin> set (map (tun_DeviceName \<circ> snd) ts) \<Longrightarrow> view s1 n = Some d \<Longrightarrow> \<exists>d'. view s' n = Some d' \<and> grows d d'"
    using Cons.IH [of s1] Cons.prems(1) rest by auto
  have "?n \<notin> set (map (tun_DeviceName \<circ> snd) ts)" using Cons.prems(1) nt by simp
  then obtain d' where "view s' ?n = Some d'" "grows d1 d'" using IH(2) d1(1) by blast
  then have "\<exists>d. view s' ?n = Some d \<and> device_ready (tun_Address t) sub mtu d" using d1(2) device_ready_grows by blast
  moreover have "\<exists>d'. view s' n = Some d' \<and> grows d d'"
    if n: "n \<notin> set (map (tun_DeviceName \<circ> snd) (nt # ts))" "view s n = Some d" for n d
  proof -
    have "n \<noteq> ?n" using n(1) nt by simp
    then obtain d2 where d2: "view s1 n = Some d2" "grows d d2" using frame n(2) unfolding spares_others_def by blast
    then obtain d3 where "view s' n = Some d3" "grows d2 d3" using IH(2) [of n d2] n(1) by auto
    with d2 show ?thesis using grows_trans by blast
  qed
  ultimately show ?case using IH(1) nt by auto
qed

lemma setup_links_check:
  assumes k: "kernel_ok ops view"
    and "\<forall>t \<in> set ts. reports ops s (tun_DeviceName (snd t)) \<and>
      (\<exists>d. view s (tun_DeviceName (snd t)) = Some d \<and> device_ready (tun_Address (snd t)) sub mtu d)"
  shows "setup_links ops msg sub mtu [WithCheck] ts s = (s, None)"
  using assms(2)
proof (induction ts)
  case (Cons nt ts)
  obtain name t where nt: "nt = (name, t)" by fastforce
  let ?n = "tun_DeviceName t"
  obtain d l as rs where d: "view s ?n = Some d" "device_ready (tun_Address t) sub mtu d"
      and l: "no_LinkByName ops s ?n = Inr l" "no_AddrList ops s l = Inr as" "no_RouteList ops s l = Inr rs"
    using Cons.prems nt by (auto simp: reports_def)
  have "configure_link ops True ?n (tun_Address t) sub mtu l s = (s, None)" by (rule configure_link_check_ready [OF k d l])
  then have "SetupLink ops ?n (tun_Address t) sub mtu [WithCheck] s = (s, Inr None)"
    using link_options_check [of "[]"] l(1) by (simp add: SetupLink_def)
  then show ?case using Cons nt by simp
qed simp

text \<open>
  C20. Tunnels that \<open>setup-tunnel\<close> has set up pass \<open>setup-tunnel --check\<close>: when it succeeds for a configuration whose tunnels
  have devices of their own, every device has the address, the MTU and the route of its tunnel and is
  up, and the check of the same configuration then succeeds and changes nothing.
\<close>

theorem setup_tunnel_passes_check:
  assumes k: "kernel_ok ops view"
    and cfg: "Config_Load y fs file = Inr cfg" "go_get (cfg_Nodes cfg) identity = Some node"
      "distinct (map (tun_DeviceName \<circ> snd) (nd_TunDevs node))" "wf_subnet (gl_Subnet (cfg_Global cfg))"
    and run: "setupTunnelCmd ops y e fs file identity uid gid False s = (s', None)"
    and rd: "\<And>n. reports ops s' n \<or> n \<notin> set (map (tun_DeviceName \<circ> snd) (nd_TunDevs node))"
  shows "setupTunnelCmd ops y e fs file identity uid gid True s' = (s', None)
    \<and> list_all (\<lambda>t. \<exists>d. view s' (tun_DeviceName (snd t)) = Some d \<and>
        device_ready (tun_Address (snd t)) (Subnet_AsIPNet (gl_Subnet (cfg_Global cfg))) (LeastMTU registry_init node 1500) d)
      (nd_TunDevs node)"
proof -
  let ?sub = "Subnet_AsIPNet (gl_Subnet (cfg_Global cfg))" and ?mtu = "LeastMTU registry_init node 1500"
  obtain u g where links: "setup_links ops ''error setting up '' ?sub ?mtu [WithUidGid (to_uint u) (to_uint g), WithPersist] (nd_TunDevs node) s = (s', None)"
    using run cfg(1,2) by (auto simp: setupTunnelCmd_def Let_def split: sum.splits prod.splits)
  have "1280 \<le> uint ?mtu" using node_link_mtu [of node] by auto
  moreover have "\<not> lo_check (link_options [WithUidGid (to_uint u) (to_uint g), WithPersist])"
    by (simp add: link_options_def WithUidGid_def WithPersist_def)
  ultimately have "\<forall>t \<in> set (nd_TunDevs node). \<exists>d. view s' (tun_DeviceName (snd t)) = Some d \<and> device_ready (tun_Address (snd t)) ?sub ?mtu d"
    using setup_links_ready [OF k _ wf_subnet_network_only [OF cfg(4)] _ cfg(3) links] by blast
  moreover have "reports ops s' (tun_DeviceName (snd t))" if "t \<in> set (nd_TunDevs node)" for t using rd that by fastforce
  ultimately have "setup_links ops ''check failed for '' ?sub ?mtu [WithCheck] (nd_TunDevs node) s' = (s', None)"
    by (intro setup_links_check [OF k]) auto
  with \<open>\<forall>t \<in> set (nd_TunDevs node). _ t\<close> show ?thesis
    using cfg(1,2) by (simp add: setupTunnelCmd_def list_all_iff)
qed

definition ex_tun_node :: Node where
  "ex_tun_node = (init_node [] [])\<lparr>nd_TunDevs := [(''t'', \<lparr>tun_DeviceName = ''tun0'', tun_Address = ex_tun_addr, tun_Cost = f32_one\<rparr>)]\<rparr>"

definition ex_tun_config :: "unit Config" where
  "ex_tun_config = \<lparr>cfg_Global = \<lparr>gl_Domain = [], gl_Subnet = NewSubnet ([0xfd] @ replicate 15 0) (CIDRMask 8 128), gl_AuthorizedKeys = None, gl_LastUpdated = 0\<rparr>,
     cfg_Nodes = [(''foo'', ex_tun_node)]\<rparr>"

definition ex_tun_yaml :: "unit yaml_ops" where
  "ex_tun_yaml = \<lparr>yaml_Unmarshal = (\<lambda>_. Inr ex_tun_config), yaml_Marshal = (\<lambda>_. Inr [])\<rparr>"

definition ex_owner :: owner_env where
  "ex_owner = \<lparr>oe_SUDO_UID = [], oe_SUDO_GID = [], oe_Atoi = (\<lambda>_. Inl ErrSyntax), oe_Getuid = 1000, oe_Getgid = 100\<rparr>"

theorem setup_tunnel_passes_check_witness:
  "\<exists>s'. setupTunnelCmd ex_kernel ex_tun_yaml ex_owner [(''c'', [])] ''c'' ''foo'' (- 1) (- 1) True s' = (s', None)
     \<and> setupTunnelCmd ex_kernel ex_tun_yaml ex_owner [(''c'', [])] ''c'' ''foo'' (- 1) (- 1) False [] = (s', None)"
proof -
  let ?sub = "Subnet_AsIPNet (gl_Subnet (cfg_Global ex_tun_config))"
  let ?dev = "\<lparr>dv_Index = 0, dv_MTU = 1500, dv_Up = True, dv_Addrs = [\<lparr>ipn_IP = ex_tun_addr, ipn_Mask = net_CIDRMask 128 128\<rparr>],
    dv_Routes = [\<lparr>rt_LinkIndex = 0, rt_Scope = SCOPE_UNIVERSE, rt_Src = ex_tun_addr, rt_Dst = Some ?sub\<rparr>]\<rparr>"
  have load: "Config_Load ex_tun_yaml [(''c'', [])] ''c'' = Inr ex_tun_config"
    by (simp add: Config_Load_def os_ReadFile_def Config_Unmarshal_def ex_tun_yaml_def)
  have node: "go_get (cfg_Nodes ex_tun_config) ''foo'' = Some ex_tun_node"
    and devs: "nd_TunDevs ex_tun_node = [(''t'', \<lparr>tun_DeviceName = ''tun0'', tun_Address = ex_tun_addr, tun_Cost = f32_one\<rparr>)]"
    by (simp_all add: ex_tun_config_def ex_tun_node_def)
  have "nd_Backends ex_tun_node = []" by (simp add: ex_tun_node_def init_node_def)
  then have mtu: "LeastMTU registry_init ex_tun_node 1500 = 1500" by (simp add: least_mtu known_MTUs_def)
  have run: "setupTunnelCmd ex_kernel ex_tun_yaml ex_owner [(''c'', [])] ''c'' ''foo'' (- 1) (- 1) False [] = ([(''tun0'', ?dev)], None)"
    unfolding setupTunnelCmd_def load sum.case node option.case Let_def mtu devs
    by (simp add: tunnel_owner_def ex_owner_def setup_eval WithUidGid_def Let_def)
  have sub: "wf_subnet (gl_Subnet (cfg_Global ex_tun_config))" by code_simp
  have dist: "distinct (map (tun_DeviceName \<circ> snd) (nd_TunDevs ex_tun_node))" by (simp add: devs)
  have rd: "reports ex_kernel [(''tun0'', ?dev)] n \<or> n \<notin> set (map (tun_DeviceName \<circ> snd) (nd_TunDevs ex_tun_node))" for n
    by (simp add: reports_def ex_kernel_def link_of_def devs)
  from setup_tunnel_passes_check [OF ex_kernel_ok load node dist sub run rd] run show ?thesis by blast
qed

text \<open>
  The owner of a tunnel: with a group given by \<open>--gid\<close> or \<open>SUDO_GID\<close> the user and the group are the ones asked for. Otherwise
  the group of the process replaces the user, also one that was given by \<open>--uid\<close>, and the group stays -1.
\<close>

theorem tunnel_owner_given:
  "uid \<noteq> - 1 \<Longrightarrow> gid \<noteq> - 1 \<Longrightarrow> tunnel_owner e uid gid = Inr (uid, gid)"
  by (simp add: tunnel_owner_def)

text \<open>
  Without \<open>--gid\<close> and outside of \<open>sudo\<close>, a tunnel is given to the wrong user: the interface is opened with the group
  id of the process as the owner, whatever user was asked for, and with a group of 2^64 - 1.
\<close>

theorem setup_tunnel_wrong_owner:
  assumes "uid \<noteq> - 1" "oe_SUDO_GID e = []"
    and "Config_Load y fs file = Inr cfg" "go_get (cfg_Nodes cfg) identity = Some node"
  shows "setupTunnelCmd ops y e fs file identity uid (- 1) False s =
    setup_links ops ''error setting up '' (Subnet_AsIPNet (gl_Subnet (cfg_Global cfg))) (LeastMTU registry_init node 1500)
      [WithUidGid (to_uint (oe_Getgid e)) (2 ^ 64 - 1), WithPersist] (nd_TunDevs node) s"
  using assms by (simp add: setupTunnelCmd_def tunnel_owner_def to_uint_def Let_def)

theorem setup_tunnel_wrong_owner_witness:
  "setupTunnelCmd ex_kernel ex_tun_yaml ex_owner [(''c'', [])] ''c'' ''foo'' 1000 (- 1) False [] =
    setup_links ex_kernel ''error setting up '' (Subnet_AsIPNet (gl_Subnet (cfg_Global ex_tun_config)))
      (LeastMTU registry_init ex_tun_node 1500)
      [WithUidGid (to_uint 100) (2 ^ 64 - 1), WithPersist] (nd_TunDevs ex_tun_node) []"
  using setup_tunnel_wrong_owner [of 1000 ex_owner ex_tun_yaml "[(''c'', [])]" "''c''" ex_tun_config "''foo''"
      ex_tun_node ex_kernel "[]"]
  by (simp add: ex_owner_def Config_Load_def os_ReadFile_def Config_Unmarshal_def ex_tun_yaml_def) (simp add: ex_tun_config_def)

section \<open>Status and namespaces\<close>

lemma mset_insert_by [simp]: "mset (insert_by cmp x ys) = add_mset x (mset ys)"
  by (induction ys) auto

lemma SortFunc_mset: "mset (SortFunc cmp xs) = mset xs"
  by (induction xs) (simp_all add: SortFunc_def)

definition comparison :: "('a \<Rightarrow> 'a \<Rightarrow> int) \<Rightarrow> bool" where
  "comparison cmp \<longleftrightarrow> (\<forall>x y. cmp x y \<le> 0 \<or> cmp y x \<le> 0) \<and> (\<forall>x y z. cmp x y \<le> 0 \<and> cmp y z \<le> 0 \<longrightarrow> cmp x z \<le> 0)"

lemma insert_by_sorted:
  assumes c: "comparison cmp" and "sorted_wrt (\<lambda>x y. cmp x y \<le> 0) ys"
  shows "sorted_wrt (\<lambda>x y. cmp x y \<le> 0) (insert_by cmp x ys)"
  using assms(2)
proof (induction ys)
  case (Cons y ys)
  show ?case
  proof (cases "cmp x y \<le> 0")
    case True
    have "cmp x z \<le> 0" if "z \<in> set ys" for z
    proof -
      have "cmp y z \<le> 0" using Cons.prems that by simp
      with True show ?thesis using c unfolding comparison_def by blast
    qed
    then show ?thesis using True Cons.prems by simp
  next
    case False
    then have yx: "cmp y x \<le> 0" using c unfolding comparison_def by blast
    have "set (insert_by cmp x ys) = insert x (set ys)" by (induction ys) auto
    moreover have "sorted_wrt (\<lambda>x y. cmp x y \<le> 0) (insert_by cmp x ys)" "\<forall>z \<in> set ys. cmp y z \<le> 0"
      using Cons by simp_all
    ultimately have "sorted_wrt (\<lambda>x y. cmp x y \<le> 0) (y # insert_by cmp x ys)" using yx by simp
    then show ?thesis using False by simp
  qed
qed simp

lemma SortFunc_sorted: "comparison cmp \<Longrightarrow> sorted_wrt (\<lambda>x y. cmp x y \<le> 0) (SortFunc cmp xs)"
  by (induction xs) (simp_all add: SortFunc_def insert_by_sorted)

text \<open>The comparison functions are total preorders, so the lists are printed in the order they describe.\<close>

lemma cmp_desc_le: "cmp_desc a b \<le> 0 \<longleftrightarrow> b \<le> a"
  by (auto simp: cmp_desc_def)

lemma cmp_nodes_le:
  "cmp_nodes a b \<le> 0 \<longleftrightarrow>
     (if sn_Name a = [] then sn_Name b \<noteq> [] \<or> sn_Addr b \<le> sn_Addr a else sn_Name b \<noteq> [] \<and> sn_Addr b \<le> sn_Addr a)"
  by (simp add: cmp_nodes_def cmp_desc_le)

lemma status_comparisons: "comparison cmp_sessions" "comparison cmp_nodes" "comparison cmp_conns"
  unfolding comparison_def cmp_nodes_le cmp_sessions_def cmp_conns_def cmp_desc_le by auto

lemmas status_order = status_comparisons [THEN SortFunc_sorted]

text \<open>The process of a namespace is chosen only when there is exactly one that matches.\<close>

lemma nsenter_pid_unique:
  assumes "list_all (\<lambda>(_, p). p \<noteq> 0) ns"
  shows "nsenter_pid 0 ns =
    (case ns of [] \<Rightarrow> Inl (Errorf ''no matching network namespaces found'') | [(_, p)] \<Rightarrow> Inr p
     | _ \<Rightarrow> Inl (Errorf ''multiple network namespaces found - please specify one''))"
  using assms by (auto split: list.split)

end
