(* ===== verification/WebUI.thy ===== *)
theory WebUI
  imports Control CommandLine
begin

text \<open>
  The web pages of a node: \<^verbatim>\<open>internal/ui_embed\<close> (the pages, the proxies), the routes of \<^verbatim>\<open>cpctl_server.go\<close>, and
  \<^verbatim>\<open>pkg/localui\<close>, the server that \<open>connectopus ui\<close> runs for a browser on the same host.

  A handler is a function from a request to the list of things it does with the response, in order; the
  local server also has a state that lasts from one request to the next. The file server, the GraphQL runtime, the reverse proxy and
  the browser are outside the repository: a handler that ends in one of them says which.
\<close>

section \<open>Requests and responses\<close>

text \<open>
  The header of a request is kept under canonical names, so the names below stand for their canonical forms. \<open>url_values\<close> is a parsed
  query string.
\<close>

type_synonym url_values = "(string, string list) gomap"

record request =
  rq_Path :: string
  rq_Query :: url_values
  rq_Header :: "(string, string list) gomap"
  rq_Cookies :: "(string, string) gomap"
  rq_TLS :: bool

definition first_value :: "(string, string list) gomap \<Rightarrow> string \<Rightarrow> string" where
  "first_value m k = (case go_get m k of Some (v # _) \<Rightarrow> v | _ \<Rightarrow> [])"

definition Header_Set :: "string \<Rightarrow> string \<Rightarrow> request \<Rightarrow> request" where
  "Header_Set k v r = r\<lparr>rq_Header := go_set (rq_Header r) k [v]\<rparr>"

definition Header_Del :: "string \<Rightarrow> request \<Rightarrow> request" where
  "Header_Del k r = r\<lparr>rq_Header := go_del (rq_Header r) k\<rparr>"

definition Header_Values :: "request \<Rightarrow> string \<Rightarrow> string list" where
  "Header_Values r k = go_get_or [] (rq_Header r) k"

text \<open>What a director makes of a request: the host and the path it is sent to. Without a URL the request fails.\<close>

type_synonym target = "string \<times> string"

datatype action =
    SetCookie string string bool
  | Redirect string url_values
  | WriteHeader nat
  | WriteBody string
  | ServeFile string
  | ServePlayground string string
  | ServeGraphQL
  | ServeLocalGraphQL
  | ProxyOOB "target option"
  | ProxySocket string "target option"

section \<open>Pages\<close>

definition GetUISanitizer :: "(request \<Rightarrow> 'a) \<Rightarrow> request \<Rightarrow> 'a" where
  "GetUISanitizer handler r =
     handler (Header_Set ''proxyTo'' [] (Header_Set ''page_extra'' [] (Header_Set ''page_select'' [] r)))"

definition isIdentifierChar :: "char \<Rightarrow> bool" where
  "isIdentifierChar c \<longleftrightarrow>
     c = CHR ''_'' \<or> c = CHR ''-'' \<or> (CHR ''a'' \<le> c \<and> c \<le> CHR ''z'') \<or> (CHR ''A'' \<le> c \<and> c \<le> CHR ''Z'') \<or>
     (CHR ''0'' \<le> c \<and> c \<le> CHR ''9'')"

definition uiRoutes :: "string list" where
  "uiRoutes = [''/Status'', ''/Config'', ''/GraphQL'']"

definition server_data_marker :: string where
  "server_data_marker = ''//$!&@SERVER_DATA@&!$//''"

text \<open>\<open>strings.Replace\<close> of the first occurrence.\<close>

fun replace_first :: "string \<Rightarrow> string \<Rightarrow> string \<Rightarrow> string" where
  "replace_first old new [] = (if old = [] then new else [])"
| "replace_first old new (c # cs) =
     (if take (length old) (c # cs) = old then new @ drop (length old) (c # cs) else c # replace_first old new cs)"

definition page_sel :: "request \<Rightarrow> string" where
  "page_sel r =
     (let pageSel = first_value (rq_Header r) ''page_select'';
          pageSel = (if pageSel = [] \<and> first_value (rq_Header r) ''unauthorized'' = ''true'' then ''unauthorized'' else pageSel)
      in if list_all isIdentifierChar pageSel then pageSel else ''unauthorized'')"

definition data_values :: "request \<Rightarrow> string list" where
  "data_values r =
     (let pageSel = page_sel r
      in Header_Values r ''page_extra'' @ (if pageSel \<noteq> [] then [''page_select='' @ pageSel] else []))"

definition data_entry :: "string \<Rightarrow> string" where
  "data_entry v =
     (case SplitN2 CHR ''='' v of
        [k, x] \<Rightarrow>
          if list_all isIdentifierChar k \<and> list_all isIdentifierChar x
          then [CHR 0x22] @ k @ [CHR 0x22] @ '': '' @ [CHR 0x22] @ x @ [CHR 0x22] @ '', ''
          else []
      | _ \<Rightarrow> [])"

definition replace_text :: "string list \<Rightarrow> string" where
  "replace_text dataValues = concat (map data_entry dataValues)"

definition GetUIHandler :: "string \<Rightarrow> request \<Rightarrow> action list" where
  "GetUIHandler indexHTML r =
     (if rq_Path r = ''/'' \<or> rq_Path r = ''/index.html'' \<or> list_ex (\<lambda>rt. rq_Path r = rt) uiRoutes
      then (if data_values r = [] then [WriteBody indexHTML]
            else [WriteBody (replace_first server_data_marker (replace_text (data_values r)) indexHTML)])
      else [ServeFile (rq_Path r)])"

definition PlaygroundHandler :: "request \<Rightarrow> action list" where
  "PlaygroundHandler r =
     (let p = first_value (rq_Query r) ''proxyTo'' in
      if p \<noteq> [] then [ServePlayground (''GraphQL Playground ('' @ p @ '')'') (''/proxy/'' @ p @ ''/query'')]
      else [ServePlayground ''GraphQL Playground'' ''/query''])"

section \<open>Proxies\<close>

definition ProxyPortNo :: nat where "ProxyPortNo = 277"

text \<open>\<open>strings.Trim\<close> of slashes, and the parts between slashes.\<close>

definition trim_slashes :: "string \<Rightarrow> string" where
  "trim_slashes s = (let sl = (\<lambda>c. c = CHR ''/'') in rev (dropWhile sl (rev (dropWhile sl s))))"

definition OOBDirector :: "string \<Rightarrow> target option" where
  "OOBDirector path =
     (let urlParts = split_slash (trim_slashes path) in
      if length urlParts < 2 \<or> urlParts ! 0 \<noteq> ''proxy'' then None
      else Some (urlParts ! 1 @ '':'' @ itoa ProxyPortNo, ''/'' @ join_slash (drop 2 urlParts)))"

text \<open>The address a connection is made to.\<close>

definition OOBDialer :: "netopus \<Rightarrow> string \<Rightarrow> (ip \<times> nat) result" where
  "OOBDialer n addr =
     (case SplitHostPort addr of
        Inl err \<Rightarrow> Inl err
      | Inr (host, port) \<Rightarrow>
          if port \<noteq> itoa ProxyPortNo then Inl (Errorf (''port must be '' @ itoa ProxyPortNo))
          else let netAddr = go_get_or [] (st_NameToAddr (netopus_Status n)) host in
            if netAddr = [] then Inl (Errorf ''unknown node name'')
            else let netIP = ParseIP netAddr in
              if netIP = [] then Inl (Errorf ''invalid IP address'') else Inr (netIP, ProxyPortNo))"

definition UnixSocketDirector :: "string \<Rightarrow> target option" where
  "UnixSocketDirector path =
     (let urlParts = split_slash (trim_slashes path) in
      if length urlParts = 0 \<or> (urlParts ! 0 \<noteq> ''query'' \<and> urlParts ! 0 \<noteq> ''proxy'') then None
      else Some (''cpctl.sock'', path))"

section \<open>Routes\<close>

text \<open>
  \<open>http.ServeMux\<close>: the longest pattern that matches; one that ends in a slash matches all paths below it. A path that is not clean
  and a directory without its slash are redirected.
\<close>

definition cleanPath :: "string \<Rightarrow> string" where
  "cleanPath p =
     (if p = [] then ''/''
      else let p = (if hd p \<noteq> CHR ''/'' then ''/'' @ p else p); np = path_Clean p
           in if last p = CHR ''/'' \<and> np \<noteq> ''/'' then np @ ''/'' else np)"

definition pattern_matches :: "string \<Rightarrow> string \<Rightarrow> bool" where
  "pattern_matches pat p = (if pat \<noteq> [] \<and> last pat = CHR ''/'' then take (length pat) p = pat else pat = p)"

definition mux_match :: "(string \<times> 'h) list \<Rightarrow> string \<Rightarrow> 'h option" where
  "mux_match routes p =
     map_option snd (fold (\<lambda>(pat, h) best.
         if pattern_matches pat p \<and> (case best of None \<Rightarrow> True | Some (b, _) \<Rightarrow> length b < length pat) then Some (pat, h) else best)
       routes None)"

definition mux_serve :: "(string \<times> (request \<Rightarrow> action list)) list \<Rightarrow> request \<Rightarrow> action list" where
  "mux_serve routes r =
     (let p = cleanPath (rq_Path r) in
      if map_of routes p = None \<and> map_of routes (p @ ''/'') \<noteq> None then [Redirect (p @ ''/'') (rq_Query r)]
      else if p \<noteq> rq_Path r then [Redirect p (rq_Query r)]
      else case mux_match routes p of None \<Rightarrow> [WriteHeader 404] | Some h \<Rightarrow> h r)"

text \<open>The server of a node; \<open>ssh_jwt.Handler\<close> stands before it.\<close>

definition node_routes :: "string \<Rightarrow> (string \<times> (request \<Rightarrow> action list)) list" where
  "node_routes indexHTML =
     [(''/'', GetUIHandler indexHTML), (''/api'', PlaygroundHandler), (''/query'', \<lambda>_. [ServeGraphQL]),
      (''/proxy/'', \<lambda>r. [ProxyOOB (OOBDirector (rq_Path r))])]"

definition Server_ServeHTTP :: "string \<Rightarrow> request \<Rightarrow> action list" where
  "Server_ServeHTTP indexHTML = GetUISanitizer (mux_serve (node_routes indexHTML))"

section \<open>The local server\<close>

record serveOpts =
  so_openBrowser :: bool
  so_localUIPort :: "16 word"
  so_socketNode :: string
  so_token :: string

definition WithBrowser :: "bool \<Rightarrow> serveOpts \<Rightarrow> serveOpts" where
  "WithBrowser wb so = so\<lparr>so_openBrowser := wb\<rparr>"

definition WithLocalPort :: "16 word \<Rightarrow> serveOpts \<Rightarrow> serveOpts" where
  "WithLocalPort port so = so\<lparr>so_localUIPort := port\<rparr>"

definition WithNode :: "string \<Rightarrow> serveOpts \<Rightarrow> serveOpts" where
  "WithNode node so = so\<lparr>so_socketNode := node\<rparr>"

text \<open>\<open>newUUID\<close> is the text of a new UUID.\<close>

definition WithToken :: "string \<Rightarrow> string \<Rightarrow> serveOpts \<Rightarrow> serveOpts" where
  "WithToken newUUID tok so =
     so\<lparr>so_token := (if tok = [] then filter (\<lambda>c. c \<noteq> CHR ''-'') newUUID else tok)\<rparr>"

definition serve_options :: "(serveOpts \<Rightarrow> serveOpts) list \<Rightarrow> serveOpts" where
  "serve_options opts =
     fold (\<lambda>f so. f so) opts \<lparr>so_openBrowser = True, so_localUIPort = 26663, so_socketNode = [], so_token = []\<rparr>"

text \<open>The options of the \<open>ui\<close> command.\<close>

definition uiCmd_opts :: "string \<Rightarrow> string \<Rightarrow> bool \<Rightarrow> int \<Rightarrow> string \<Rightarrow> serveOpts" where
  "uiCmd_opts newUUID localUIToken noBrowser localUIPort socketNode =
     serve_options ([WithToken newUUID localUIToken] @
       (if noBrowser then [WithBrowser False] else []) @
       (if localUIPort \<noteq> 0 then [WithLocalPort (word_of_int localUIPort)] else []) @
       (if socketNode \<noteq> [] then [WithNode socketNode] else []))"

text \<open>
  What the host answers while a request is handled: whether an agent with keys can be reached, the sockets of running
  nodes, and a new token.
\<close>

record local_env =
  le_agent :: bool
  le_FindSockets :: "string \<Rightarrow> string list result"
  le_GenToken :: "string result"

record local_state =
  ls_haveAgent :: bool
  ls_socket :: "string option"   \<comment> \<open>set when \<open>haveSocketFile\<close> is\<close>
  ls_preferred :: string

definition local_routes :: "string \<Rightarrow> local_state \<Rightarrow> (string \<times> (request \<Rightarrow> action list)) list" where
  "local_routes indexHTML st =
     [(''/'', GetUIHandler indexHTML), (''/api'', PlaygroundHandler), (''/localquery'', \<lambda>_. [ServeLocalGraphQL])] @
     (case ls_socket st of
        None \<Rightarrow> []
      | Some sock \<Rightarrow>
          let p = (\<lambda>r. [ProxySocket sock (UnixSocketDirector (rq_Path r))]) in [(''/query'', p), (''/proxy/'', p)])"

text \<open>
  The node socket: a page to show instead, or the socket to use from now on and the redirection that gives the browser
  a token for it. The handler goes on after the redirection.
\<close>

definition check_socket :: "local_env \<Rightarrow> request \<Rightarrow> local_state \<Rightarrow> local_state \<times> string option \<times> request \<times> action list" where
  "check_socket e r st =
     (if ls_socket st \<noteq> None then (st, None, r, [])
      else case le_FindSockets e (ls_preferred st) of
             Inl err \<Rightarrow> (st, Some ''no-node'', r, [])
           | Inr socketFiles \<Rightarrow>
               if length socketFiles = 0 then (st, Some ''no-node'', r, [])
               else if length socketFiles > 1 then (st, Some ''multi-node'', r, [])
               else (case le_GenToken e of
                       Inl err \<Rightarrow> (st, Some ''unauthorized'', r, [])
                     | Inr tokStr \<Rightarrow>
                         let r = r\<lparr>rq_Query := go_set (rq_Query r) ''AuthToken'' [tokStr]\<rparr>
                         in (st\<lparr>ls_socket := Some (socketFiles ! 0)\<rparr>, None, r, [Redirect (rq_Path r) (rq_Query r)])))"

definition localMux :: "local_env \<Rightarrow> string \<Rightarrow> request \<Rightarrow> local_state \<Rightarrow> local_state \<times> action list" where
  "localMux e indexHTML r st =
     (let agentSel = (if \<not> ls_haveAgent st \<and> \<not> le_agent e then ''no-agent'' else []);
          st = (if \<not> ls_haveAgent st \<and> le_agent e then st\<lparr>ls_haveAgent := True\<rparr> else st)
      in case check_socket e r st of
           (st, sockSel, r, acts) \<Rightarrow>
             let pageSel = (case sockSel of None \<Rightarrow> agentSel | Some sel \<Rightarrow> sel);
                 r = (if pageSel = [] then Header_Del ''page_select'' r else Header_Set ''page_select'' pageSel r);
                 r = Header_Set ''page_extra'' ''localui=true'' r
             in (st, acts @ mux_serve (local_routes indexHTML st) r))"

definition cookieSetterMux :: "local_env \<Rightarrow> string \<Rightarrow> request \<Rightarrow> local_state \<Rightarrow> local_state \<times> action list" where
  "cookieSetterMux e indexHTML r st =
     (let tokReq = first_value (rq_Query r) ''AuthToken'' in
      if tokReq \<noteq> []
      then (st, [SetCookie ''AuthToken'' tokReq (rq_TLS r), Redirect (rq_Path r) (go_del (rq_Query r) ''AuthToken'')])
      else localMux e indexHTML r st)"

definition sanitizedMux :: "local_env \<Rightarrow> string \<Rightarrow> request \<Rightarrow> local_state \<Rightarrow> local_state \<times> action list" where
  "sanitizedMux e indexHTML = GetUISanitizer (cookieSetterMux e indexHTML)"

definition localAuthMux :: "local_env \<Rightarrow> string \<Rightarrow> string \<Rightarrow> request \<Rightarrow> local_state \<Rightarrow> local_state \<times> action list" where
  "localAuthMux e indexHTML token r st =
     (if token = [] then sanitizedMux e indexHTML r st
      else let tokReq = first_value (rq_Query r) ''LocalToken'' in
        if tokReq \<noteq> []
        then (st, [SetCookie ''LocalToken'' tokReq (rq_TLS r), Redirect (rq_Path r) (go_del (rq_Query r) ''LocalToken'')])
        else if go_get (rq_Cookies r) ''LocalToken'' = Some token then sanitizedMux e indexHTML r st
        else (st, [WriteHeader 401, WriteBody ''Unauthorized'']))"

text \<open>The URL that is opened in the browser.\<close>

definition local_url :: "serveOpts \<Rightarrow> string" where
  "local_url so =
     ''http://localhost:'' @ itoa (unat (so_localUIPort so)) @
     (if so_token so \<noteq> [] then ''/?LocalToken='' @ so_token so else [])"

text \<open>The resolver of \<open>/localquery\<close>: the nodes with a socket, and the choice of one.\<close>

definition path_Base :: "string \<Rightarrow> string" where
  "path_Base p =
     (if p = [] then ''.''
      else let q = rev (dropWhile (\<lambda>c. c = CHR ''/'') (rev p))
           in if q = [] then ''/'' else last (split_slash q))"

definition AvailableNodes :: "local_env \<Rightarrow> local_state \<Rightarrow> string list result" where
  "AvailableNodes e st =
     (case le_FindSockets e (ls_preferred st) of
        Inl err \<Rightarrow> Inl err
      | Inr socketFiles \<Rightarrow> Inr (map (\<lambda>sf. path_Base (path_Dir sf)) socketFiles))"

definition SelectNode :: "string \<Rightarrow> local_state \<Rightarrow> local_state" where
  "SelectNode node st = st\<lparr>ls_preferred := node\<rparr>"

definition OpenWebBrowser :: "string \<Rightarrow> string \<Rightarrow> (string \<times> string list) result" where
  "OpenWebBrowser goos url =
     (if goos = ''linux'' then Inr (''xdg-open'', [url])
      else if goos = ''windows'' then Inr (''rundll32'', [''url.dll,FileProtocolHandler'', url])
      else if goos = ''darwin'' then Inr (''open'', [url])
      else Inl (Errorf ''unsupported platform''))"

text \<open>
  \<open>Serve\<close>: listening, opening the browser and serving until the server fails. \<open>goos\<close> is the operating system, \<open>start\<close>
  starts a command, and \<open>serve\<close> is what \<open>srv.Serve\<close> returns.
\<close>

definition local_Serve ::
    "(string \<Rightarrow> go_error option) \<Rightarrow> string \<Rightarrow> (string \<Rightarrow> string list \<Rightarrow> go_error option) \<Rightarrow> go_error option \<Rightarrow> serveOpts \<Rightarrow> go_error option" where
  "local_Serve listen goos start serve so =
     (case listen (''localhost:'' @ itoa (unat (so_localUIPort so))) of
        Some err \<Rightarrow> Some (Wrapf ''tcp listen error'' err)
      | None \<Rightarrow>
          if so_openBrowser so
          then (case (case OpenWebBrowser goos (local_url so) of Inl err \<Rightarrow> Some err | Inr (cmd, args) \<Rightarrow> start cmd args) of
                  Some err \<Rightarrow> Some (Wrapf ''error opening browser'' err)
                | None \<Rightarrow> serve)
          else serve)"

text \<open>
  The command without a subcommand: outside a terminal it runs the \<open>ui\<close> command, and when the port is taken it opens a
  browser on the server that has it. The value is the URL that is opened and the error; in a terminal it prints its usage.
\<close>

definition rootCmd :: "bool \<Rightarrow> go_error option \<Rightarrow> (go_error \<Rightarrow> bool) \<Rightarrow> go_error option \<Rightarrow> string option \<times> go_error option" where
  "rootCmd isTerminal usage is_EADDRINUSE uiCmd =
     (if \<not> isTerminal
      then (if (case uiCmd of None \<Rightarrow> False | Some err \<Rightarrow> is_EADDRINUSE err) then (Some ''http://localhost:26663'', uiCmd) else (None, uiCmd))
      else (None, usage))"

section \<open>The list of routes\<close>

text \<open>
  \<^verbatim>\<open>routegen.go\<close> makes \<^verbatim>\<open>routes_gen.go\<close> from the lines of \<^verbatim>\<open>routes.tsx\<close>. \<open>strings.TrimSpace\<close> is for ASCII text.
\<close>

definition isSpace :: "char \<Rightarrow> bool" where
  "isSpace c \<longleftrightarrow> c \<in> {CHR 0x09, CHR 0x0A, CHR 0x0B, CHR 0x0C, CHR 0x0D, CHR 0x20}"

definition trim_chars :: "(char \<Rightarrow> bool) \<Rightarrow> string \<Rightarrow> string" where
  "trim_chars P s = rev (dropWhile P (rev (dropWhile P s)))"

definition TrimSuffix_comma :: "string \<Rightarrow> string" where
  "TrimSuffix_comma s = (if s \<noteq> [] \<and> last s = CHR '','' then butlast s else s)"

fun route_scan :: "bool \<Rightarrow> string list \<Rightarrow> string list result" where
  "route_scan inRoutes [] = Inr []"
| "route_scan inRoutes (text # ls) =
     (let line = trim_chars isSpace text in
      if inRoutes
      then (if take 1 line = '']'' then Inr []
            else if take 5 line = ''path:''
            then (let line = TrimSuffix_comma (trim_chars isSpace (drop 5 line)) in
                  if line = [] \<or> hd line \<noteq> CHR 0x27 \<or> last line \<noteq> CHR 0x27 then Inl (Errorf (''unparseable route: '' @ line))
                  else let line = trim_chars (\<lambda>c. c = CHR 0x27) line in
                    case route_scan True ls of
                      Inl err \<Rightarrow> Inl err
                    | Inr routes \<Rightarrow> Inr (if line = ''/'' then routes else line # routes))
            else route_scan True ls)
      else route_scan (line = ''const routes: AppRouteConfig[] = ['') ls)"

text \<open>The value is the text of the file that is written.\<close>

definition routegen :: "string list \<Rightarrow> string result" where
  "routegen ls =
     (case route_scan False ls of
        Inl err \<Rightarrow> Inl err
      | Inr routes \<Rightarrow>
          if length routes = 0 then Inl (Errorf ''no routes found'')
          else Inr (''package ui_embed'' @ [CHR 0x0A, CHR 0x0A] @ ''var uiRoutes = []string{'' @ [CHR 0x0A] @
                    concat (map (\<lambda>route. [CHR 0x09, CHR 0x22] @ route @ [CHR 0x22, CHR '','', CHR 0x0A]) routes) @
                    ''}'' @ [CHR 0x0A]))"

text \<open>A line of the table with a path, and that it is read.\<close>

definition route_line :: "string \<Rightarrow> string" where
  "route_line r = ''    path: '' @ [CHR 0x27] @ r @ [CHR 0x27, CHR '','']"

lemma route_scan_line:
  assumes "r \<noteq> []" "r \<noteq> ''/''" "hd r \<noteq> CHR 0x27" "last r \<noteq> CHR 0x27"
  shows "route_scan True (route_line r # ls) = map_sum id ((#) r) (route_scan True ls)"
proof -
  have sp: "trim_chars isSpace (route_line r) = ''path: '' @ [CHR 0x27] @ r @ [CHR 0x27, CHR '','']"
    "trim_chars isSpace ('' '' @ [CHR 0x27] @ r @ [CHR 0x27, CHR '','']) = [CHR 0x27] @ r @ [CHR 0x27, CHR '','']"
    by (simp_all add: trim_chars_def route_line_def isSpace_def)
  have cm: "TrimSuffix_comma (CHR 0x27 # r @ [CHR 0x27, CHR '','']) = CHR 0x27 # r @ [CHR 0x27]"
    by (simp add: TrimSuffix_comma_def butlast_append)
  have "dropWhile (\<lambda>c. c = CHR 0x27) (r @ [CHR 0x27]) = r @ [CHR 0x27]" using assms by (cases r) auto
  moreover have "dropWhile (\<lambda>c. c = CHR 0x27) (rev r) = rev r" using assms by (cases r rule: rev_cases) auto
  ultimately have q: "trim_chars (\<lambda>c. c = CHR 0x27) (CHR 0x27 # r @ [CHR 0x27]) = r" by (simp add: trim_chars_def)
  show ?thesis using sp cm q assms(2) by (simp add: Let_def split: sum.split)
qed

text \<open>The list in the repository is the one that the table of \<^verbatim>\<open>routes.tsx\<close> gives.\<close>

lemma routes_current:
  "route_scan False [''const routes: AppRouteConfig[] = ['', ''  {'', ''    component: Network,'', route_line ''/'', ''  },'',
     ''  {'', ''    component: Status,'', ''    isAsync: true,'', route_line ''/Status'', ''  },'', ''  {'', ''    component: Config,'', route_line ''/Config'', ''  },'',
     ''  {'', ''    component: GraphQL,'', route_line ''/GraphQL'', ''  },'', ''];'', [], route_line ''/Other''] = Inr uiRoutes"
  by (simp add: uiRoutes_def route_line_def trim_chars_def isSpace_def TrimSuffix_comma_def)

section \<open>What a request can put on a page\<close>

definition data_text :: "(string \<times> string) list \<Rightarrow> string" where
  "data_text kvs = concat (map (\<lambda>(k, v). [CHR 0x22] @ k @ [CHR 0x22] @ '': '' @ [CHR 0x22] @ v @ [CHR 0x22] @ '', '') kvs)"

definition identifiers :: "(string \<times> string) list \<Rightarrow> bool" where
  "identifiers kvs \<longleftrightarrow> list_all (\<lambda>(k, v). list_all isIdentifierChar k \<and> list_all isIdentifierChar v) kvs"

lemma data_entry_text: "\<exists>kvs. identifiers kvs \<and> data_entry v = data_text kvs"
proof (cases "first_index CHR ''='' v")
  case None
  then show ?thesis by (intro exI [of _ "[]"]) (simp add: data_entry_def SplitN2_def identifiers_def data_text_def)
next
  case (Some i)
  let ?k = "take i v" and ?x = "drop (i + 1) v"
  show ?thesis
  proof (cases "list_all isIdentifierChar ?k \<and> list_all isIdentifierChar ?x")
    case True
    then show ?thesis using Some
      by (intro exI [of _ "[(?k, ?x)]"]) (simp add: data_entry_def SplitN2_def identifiers_def data_text_def)
  next
    case False
    then show ?thesis using Some
      by (intro exI [of _ "[]"]) (auto simp: data_entry_def SplitN2_def identifiers_def data_text_def)
  qed
qed

lemma replace_text_data: "\<exists>kvs. identifiers kvs \<and> replace_text vs = data_text kvs"
proof (induction vs)
  case Nil
  show ?case by (intro exI [of _ "[]"]) (simp add: replace_text_def identifiers_def data_text_def)
next
  case (Cons v vs)
  then obtain kvs where "identifiers kvs" "replace_text vs = data_text kvs" by blast
  moreover obtain kvs' where "identifiers kvs'" "data_entry v = data_text kvs'" using data_entry_text by blast
  ultimately show ?case
    by (intro exI [of _ "kvs' @ kvs"]) (simp add: replace_text_def identifiers_def data_text_def)
qed

text \<open>
  C22. A request cannot inject anything into a page but names: whatever its header holds, the page is the embedded one, and
  the text at its marker is a sequence of quoted pairs of identifiers, so it has no quotes, angle brackets or
  backslashes of the client's.
\<close>

theorem ui_page_safe:
  "\<exists>kvs. identifiers kvs \<and> GetUIHandler indexHTML r \<in>
     {[ServeFile (rq_Path r)], [WriteBody indexHTML], [WriteBody (replace_first server_data_marker (data_text kvs) indexHTML)]}"
  using replace_text_data [of "data_values r"] by (auto simp: GetUIHandler_def)

text \<open>What a client sends in the headers the server uses itself has no effect.\<close>

lemma sanitizer_ignores_client:
  assumes "k = ''page_select'' \<or> k = ''page_extra'' \<or> k = ''proxyTo''"
  shows "first_value (rq_Header (Header_Set ''proxyTo'' [] (Header_Set ''page_extra'' [] (Header_Set ''page_select'' [] r)))) k = []"
  using assms by (auto simp: Header_Set_def first_value_def gomap_simps)

section \<open>The local token\<close>

text \<open>The \<open>ui\<close> command always runs with a token.\<close>

lemma ui_has_token:
  assumes "filter (\<lambda>c. c \<noteq> CHR ''-'') newUUID \<noteq> []"
  shows "so_token (uiCmd_opts newUUID localUIToken noBrowser localUIPort socketNode) \<noteq> []"
  using assms by (simp add: uiCmd_opts_def serve_options_def WithToken_def WithBrowser_def WithLocalPort_def WithNode_def)

text \<open>A request without the token: the state stays as it is, and the response is an error or sets the cookie the request asks for.\<close>

lemma unauthorized_request:
  assumes "token \<noteq> []" "go_get (rq_Cookies r) ''LocalToken'' \<noteq> Some token"
  shows "localAuthMux e indexHTML token r st =
    (st, if first_value (rq_Query r) ''LocalToken'' = [] then [WriteHeader 401, WriteBody ''Unauthorized'']
         else [SetCookie ''LocalToken'' (first_value (rq_Query r) ''LocalToken'') (rq_TLS r),
               Redirect (rq_Path r) (go_del (rq_Query r) ''LocalToken'')])"
  using assms by (simp add: localAuthMux_def Let_def)

text \<open>The server over a sequence of requests, each with what the host answers at the time.\<close>

fun local_requests :: "string \<Rightarrow> string \<Rightarrow> (local_env \<times> request) list \<Rightarrow> local_state \<Rightarrow> local_state \<times> action list" where
  "local_requests indexHTML token [] st = (st, [])"
| "local_requests indexHTML token ((e, r) # rs) st =
     (case localAuthMux e indexHTML token r st of
        (st, acts) \<Rightarrow> (case local_requests indexHTML token rs st of (st, acts') \<Rightarrow> (st, acts @ acts')))"

fun refusal :: "action \<Rightarrow> bool" where
  "refusal (SetCookie name v secure) \<longleftrightarrow> name = ''LocalToken''"
| "refusal (Redirect p q) \<longleftrightarrow> go_get q ''LocalToken'' = None"
| "refusal (WriteHeader status) \<longleftrightarrow> status = 401"
| "refusal (WriteBody body) \<longleftrightarrow> body = ''Unauthorized''"
| "refusal act \<longleftrightarrow> False"

text \<open>
  C23. Nobody uses the local server without its token: started by the \<open>ui\<close> command, it always has one, and over any sequence of requests
  none of which has the token in its cookie, whatever the host answers, its state stays as it is and its responses are
  errors or hand a value that the client brought itself back as a cookie; no page, no query and no proxy is reached.
\<close>

theorem local_token_required:
  assumes "filter (\<lambda>c. c \<noteq> CHR ''-'') newUUID \<noteq> []"
    and "so_token (uiCmd_opts newUUID localUIToken noBrowser localUIPort socketNode) = token"
    and "list_all (\<lambda>(e, r). go_get (rq_Cookies r) ''LocalToken'' \<noteq> Some token) rs"
  shows "\<exists>acts. local_requests indexHTML token rs st = (st, acts) \<and> list_all refusal acts"
proof -
  have t: "token \<noteq> []" using ui_has_token [OF assms(1)] assms(2) by blast
  show ?thesis using assms(3)
  proof (induction rs)
    case (Cons er rs)
    obtain e r where er: "er = (e, r)" by fastforce
    obtain acts where "local_requests indexHTML token rs st = (st, acts)" "list_all refusal acts" using Cons by auto
    moreover have "go_get (rq_Cookies r) ''LocalToken'' \<noteq> Some token" using Cons.prems er by simp
    ultimately show ?case by (simp add: er unauthorized_request [OF t] gomap_simps)
  qed simp
qed

definition ex_request :: request where
  "ex_request = \<lparr>rq_Path = ''/'', rq_Query = [], rq_Header = [], rq_Cookies = [(''LocalToken'', ''t'')], rq_TLS = False\<rparr>"

definition ex_local_state :: local_state where
  "ex_local_state = \<lparr>ls_haveAgent = False, ls_socket = None, ls_preferred = []\<rparr>"

definition ex_local_env :: local_env where
  "ex_local_env = \<lparr>le_agent = True, le_FindSockets = (\<lambda>_. Inr [''/d/n/cpctl.sock'']), le_GenToken = Inr ''jwt''\<rparr>"

theorem local_token_required_witness:
  "\<exists>acts. local_requests [] ''t'' [(ex_local_env, ex_request\<lparr>rq_Cookies := []\<rparr>), (ex_local_env, ex_request\<lparr>rq_Cookies := [(''LocalToken'', ''u'')]\<rparr>)]
     ex_local_state = (ex_local_state, acts) \<and> list_all refusal acts"
  using local_token_required [of "''a-b''" "''t''" False 0 "[]" "''t''"
      "[(ex_local_env, ex_request\<lparr>rq_Cookies := []\<rparr>), (ex_local_env, ex_request\<lparr>rq_Cookies := [(''LocalToken'', ''u'')]\<rparr>)]" "[]" ex_local_state]
  by (simp add: uiCmd_opts_def serve_options_def WithToken_def)

definition logged_in :: "string \<Rightarrow> local_state \<Rightarrow> local_state" where
  "logged_in sock st = st\<lparr>ls_haveAgent := True, ls_socket := Some sock\<rparr>"

lemma put_then_del: "go_get m k = None \<Longrightarrow> go_del (go_set m k v) k = m"
  by (simp add: delete_update_same delete_id map_of_eq_None_iff)

lemma sanitized_fields:
  "rq_Path (Header_Set k v r) = rq_Path r" "rq_Query (Header_Set k v r) = rq_Query r" "rq_Cookies (Header_Set k v r) = rq_Cookies r"
  "rq_TLS (Header_Set k v r) = rq_TLS r" "rq_Path (Header_Del k r) = rq_Path r" "rq_Query (Header_Del k r) = rq_Query r"
  by (simp_all add: Header_Set_def Header_Del_def)

lemma cleanPath_query: "cleanPath ''/query'' = ''/query''"
  by (simp add: cleanPath_def path_Clean_def path_IsAbs_def)

lemma serve_query:
  assumes "ls_socket st = Some sock" "rq_Path r = ''/query''"
  shows "mux_serve (local_routes indexHTML st) r = [ProxySocket sock (Some (''cpctl.sock'', ''/query''))]"
  using assms
  by (simp add: mux_serve_def local_routes_def cleanPath_query mux_match_def pattern_matches_def UnixSocketDirector_def trim_slashes_def Let_def)

text \<open>
  Logging in ends: when an agent and exactly one node are found, the first request of a browser with the local token is
  redirected to the same page with a token for the node, which is then kept in a cookie and removed from the
  address again; from then on, whatever the host answers, queries go to the socket of that node.
\<close>

theorem local_login:
  assumes env: "le_agent e" "le_FindSockets e (ls_preferred st) = Inr [sock]" "le_GenToken e = Inr tok" "tok \<noteq> []"
    and new: "\<not> ls_haveAgent st" "ls_socket st = None"
    and cookie: "go_get (rq_Cookies r) ''LocalToken'' = Some token" "token \<noteq> []"
    and query: "go_get (rq_Query r) ''LocalToken'' = None" "go_get (rq_Query r) ''AuthToken'' = None"
  shows "(\<exists>acts. localAuthMux e indexHTML token r st
          = (logged_in sock st, Redirect (rq_Path r) (go_set (rq_Query r) ''AuthToken'' [tok]) # acts))
    \<and> localAuthMux e' indexHTML token (r\<lparr>rq_Query := go_set (rq_Query r) ''AuthToken'' [tok]\<rparr>) (logged_in sock st)
        = (logged_in sock st, [SetCookie ''AuthToken'' tok (rq_TLS r), Redirect (rq_Path r) (rq_Query r)])
    \<and> localAuthMux e' indexHTML token (r\<lparr>rq_Path := ''/query''\<rparr>) (logged_in sock st)
        = (logged_in sock st, [ProxySocket sock (Some (''cpctl.sock'', ''/query''))])"
proof (intro conjI)
  let ?q = "go_set (rq_Query r) ''AuthToken'' [tok]"
  have q: "first_value ?q ''LocalToken'' = []" "first_value ?q ''AuthToken'' = tok" "go_del ?q ''AuthToken'' = rq_Query r"
    "first_value (rq_Query r) ''LocalToken'' = []" "first_value (rq_Query r) ''AuthToken'' = []"
    using query put_then_del by (simp_all add: first_value_def gomap_simps)
  have "\<exists>acts. localMux e indexHTML r' st = (logged_in sock st, Redirect (rq_Path r) ?q # acts)"
    if "rq_Path r' = rq_Path r" "rq_Query r' = rq_Query r" for r'
    using env new that by (simp add: localMux_def check_socket_def logged_in_def Let_def)
  then show "\<exists>acts. localAuthMux e indexHTML token r st = (logged_in sock st, Redirect (rq_Path r) ?q # acts)"
    using cookie q(4,5) by (simp add: localAuthMux_def sanitizedMux_def GetUISanitizer_def cookieSetterMux_def sanitized_fields)
  show "localAuthMux e' indexHTML token (r\<lparr>rq_Query := ?q\<rparr>) (logged_in sock st)
      = (logged_in sock st, [SetCookie ''AuthToken'' tok (rq_TLS r), Redirect (rq_Path r) (rq_Query r)])"
    using cookie env(4) q by (simp add: localAuthMux_def sanitizedMux_def GetUISanitizer_def cookieSetterMux_def sanitized_fields)
  have "localMux e' indexHTML r' (logged_in sock st) = (logged_in sock st, [ProxySocket sock (Some (''cpctl.sock'', ''/query''))])"
    if "rq_Path r' = ''/query''" for r'
    using that by (simp add: localMux_def check_socket_def logged_in_def serve_query sanitized_fields Let_def)
  then show "localAuthMux e' indexHTML token (r\<lparr>rq_Path := ''/query''\<rparr>) (logged_in sock st)
      = (logged_in sock st, [ProxySocket sock (Some (''cpctl.sock'', ''/query''))])"
    using cookie q(4,5) by (simp add: localAuthMux_def sanitizedMux_def GetUISanitizer_def cookieSetterMux_def sanitized_fields)
qed

theorem local_login_witness:
  "localAuthMux ex_local_env [] ''t'' (ex_request\<lparr>rq_Query := [(''AuthToken'', [''jwt''])]\<rparr>) (logged_in ''/d/n/cpctl.sock'' ex_local_state)
     = (logged_in ''/d/n/cpctl.sock'' ex_local_state, [SetCookie ''AuthToken'' ''jwt'' False, Redirect ''/'' []])"
  using local_login [of ex_local_env ex_local_state "''/d/n/cpctl.sock''" "''jwt''" ex_request "''t''" "[]" ex_local_env]
  by (simp add: ex_local_env_def ex_local_state_def ex_request_def)

section \<open>Queries to other nodes\<close>

lemma path_Clean_proxy:
  assumes "plain_name name"
  shows "cleanPath (''/proxy/'' @ name @ ''/query'') = ''/proxy/'' @ name @ ''/query''"
    and "split_slash (trim_slashes (''/proxy/'' @ name @ ''/query'')) = [''proxy'', name, ''query'']"
proof -
  have n: "CHR ''/'' \<notin> set name" "name \<noteq> []" "name \<noteq> ''.''" "name \<noteq> ''..''" using assms by (auto simp: plain_name_def)
  have s1: "split_slash (name @ ''/query'') = [name, ''query'']"
    using split_slash_append [of "''query''" name] split_slash_plain [OF n(1)] by simp
  then have s2: "split_slash (''proxy/'' @ name @ ''/query'') = [''proxy'', name, ''query'']" by simp
  have "path_Clean (''/proxy/'' @ name @ ''/query'') = ''/proxy/'' @ name @ ''/query''"
    using s2 n by (simp add: path_Clean_def path_IsAbs_def)
  moreover have "last (''/proxy/'' @ name @ ''/query'') = CHR ''y''" by simp
  ultimately show "cleanPath (''/proxy/'' @ name @ ''/query'') = ''/proxy/'' @ name @ ''/query''"
    by (simp add: cleanPath_def Let_def)
  have "trim_slashes (''/proxy/'' @ name @ ''/query'') = ''proxy/'' @ name @ ''/query''" by (simp add: trim_slashes_def)
  then show "split_slash (trim_slashes (''/proxy/'' @ name @ ''/query'')) = [''proxy'', name, ''query'']" using s2 by simp
qed

text \<open>
  C26. A query for another node reaches it: the URL of a client of the control API for a node name leads through the proxy
  of the node that serves the socket to the query path on port 277 of the address that is known for the
  name.
\<close>

theorem proxied_query_reaches_node:
  assumes name: "plain_name name" "CHR '':'' \<notin> set name" "CHR ''['' \<notin> set name" "CHR '']'' \<notin> set name"
    and addr: "go_get (st_NameToAddr (netopus_Status n)) name = Some (IP_String a)" "length a = 16" "net_To4 a = None"
    and client: "NewSocketClient urlParse findDataDirs stat envSock socketFile socketNode authToken name = Inr c"
      "sc_url c = ''http://cpctl.sock'' @ rq_Path r"
  shows "Server_ServeHTTP indexHTML r = [ProxyOOB (Some (name @ '':277'', ''/query''))] \<and> OOBDialer n (name @ '':277'') = Inr (a, 277)"
proof
  have "name \<noteq> []" using name(1) by (simp add: plain_name_def)
  then have path: "rq_Path r = ''/proxy/'' @ name @ ''/query''"
    using client by (auto simp: NewSocketClient_def Let_def split: sum.splits option.splits if_splits)
  have port: "itoa ProxyPortNo = ''277''" by (simp add: ProxyPortNo_def itoa.simps hex_digit_def)
  have dir: "OOBDirector (''/proxy/'' @ name @ ''/query'') = Some (name @ '':277'', ''/query'')"
    unfolding OOBDirector_def path_Clean_proxy(2) [OF name(1)] by (simp add: port)
  have "mux_serve (node_routes indexHTML) r' = [ProxyOOB (Some (name @ '':277'', ''/query''))]"
    if "rq_Path r' = ''/proxy/'' @ name @ ''/query''" for r'
    using that dir path_Clean_proxy(1) [OF name(1)]
    by (simp add: mux_serve_def node_routes_def mux_match_def pattern_matches_def Let_def)
  then show "Server_ServeHTTP indexHTML r = [ProxyOOB (Some (name @ '':277'', ''/query''))]"
    using path by (simp add: Server_ServeHTTP_def GetUISanitizer_def sanitized_fields)
  have "SplitHostPort (name @ '':277'') = Inr (name, ''277'')"
    using split_join [of name "''277''"] name by (simp add: JoinHostPort_def)
  moreover have "ParseIP (IP_String a) = a" using ParseIP_IP_String [of a] addr by simp
  moreover have "a \<noteq> []" "IP_String a \<noteq> []"
    using addr calculation(2) by (auto simp: ParseIP_def net_ParseIP_def netip_ParseAddr_def)
  ultimately show "OOBDialer n (name @ '':277'') = Inr (a, 277)"
    using addr(1) by (simp add: OOBDialer_def port go_get_or_def) (simp add: ProxyPortNo_def)
qed

theorem proxied_query_reaches_node_witness:
  "Server_ServeHTTP [] (ex_request\<lparr>rq_Path := ''/proxy/foo/query''\<rparr>) = [ProxyOOB (Some (''foo:277'', ''/query''))]
     \<and> OOBDialer ex_dns_node ''foo:277'' = Inr ([0xfd] @ replicate 14 0 @ [1], 277)"
proof -
  let ?c = "\<lparr>sc_socket = ''s'', sc_url = ''http://cpctl.sock/proxy/foo/query'', sc_token = ''t''\<rparr>"
  have n: "n_name ex_dns_node = ''foo''" "n_addr ex_dns_node = [0xfd] @ replicate 14 0 @ [1]" "n_knownNodeInfo ex_dns_node = []"
    by (simp_all add: ex_dns_node_def netopus_New_def Let_def)
  then have addr: "go_get (st_NameToAddr (netopus_Status ex_dns_node)) ''foo'' = Some (IP_String ([0xfd] @ replicate 14 0 @ [1]))"
    by (simp add: netopus_Status_def)
  have client: "NewSocketClient (\<lambda>_. None) (\<lambda>_. Inr []) (\<lambda>_. PlainFile) [] ''s'' [] ''t'' ''foo'' = Inr ?c"
    by (simp add: NewSocketClient_def)
  have url: "sc_url ?c = ''http://cpctl.sock'' @ rq_Path (ex_request\<lparr>rq_Path := ''/proxy/foo/query''\<rparr>)" by simp
  show ?thesis
    using proxied_query_reaches_node [OF _ _ _ _ addr _ _ client url, of "[]"]
    by (simp add: plain_name_def net_To4_def isZeros_def byte_slice_def)
qed

end
