(* ===== verification/NetStacks.thy ===== *)
theory NetStacks
  imports TextFormats
begin

text \<open>
  \<^verbatim>\<open>pkg/netstack\<close>: the IP stacks that a node or a test uses. The two stacks on gVisor (\<^verbatim>\<open>netstack_channel.go\<close>,
  \<^verbatim>\<open>netstack_fdbased.go\<close>) differ in how packets leave them; \<^verbatim>\<open>net_userstack.go\<close> uses the stack of the host.

  gVisor itself is outside the repository. What is modelled is what the code asks of it: the addresses and routes a stack is
  set up with, the endpoints of connections, and the loops that publish outgoing packets.
\<close>

section \<open>Setting up a stack\<close>

text \<open>\<open>tcpip.FullAddress\<close> and \<open>tcpip.AddressWithPrefix\<close>.\<close>

record full_address =
  fa_NIC :: nat
  fa_Addr :: ip
  fa_Port :: "16 word"

record addr_prefix =
  ap_Address :: ip
  ap_PrefixLen :: nat

record stack_config =
  sk_addr :: ip
  sk_mtu :: "16 word"
  sk_nic :: nat
  sk_address :: addr_prefix
  sk_routes :: "(ipnet \<times> nat) list"

text \<open>\<open>AddressWithPrefix.Subnet\<close>: the address with the bits after the prefix cleared.\<close>

definition prefix_Subnet :: "addr_prefix \<Rightarrow> ipnet" where
  "prefix_Subnet p =
     (let m = net_CIDRMask (int (ap_PrefixLen p)) (int (8 * length (ap_Address p)))
      in \<lparr>ipn_IP = map2 (AND) (ap_Address p) m, ipn_Mask = m\<rparr>)"

definition stack_setup :: "ip \<Rightarrow> 16 word \<Rightarrow> stack_config" where
  "stack_setup addr mtu =
     (let localNet = \<lparr>ap_Address = addr, ap_PrefixLen = length addr * 8\<rparr>;
          defaultNet = \<lparr>ap_Address = addr, ap_PrefixLen = 0\<rparr>
      in \<lparr>sk_addr = addr, sk_mtu = mtu, sk_nic = 1, sk_address = \<lparr>ap_Address = addr, ap_PrefixLen = 128\<rparr>,
          sk_routes = [(prefix_Subnet localNet, 1), (prefix_Subnet defaultNet, 1)]\<rparr>)"

definition NewStackChannel :: "ip \<Rightarrow> 16 word \<Rightarrow> stack_config result" where
  "NewStackChannel addr mtu =
     (if length addr \<noteq> 16 then Inl (Errorf ''address must be ipv6'') else Inr (stack_setup addr mtu))"

text \<open>The stack on a socket pair; \<open>fdbased.New\<close> may fail.\<close>

definition NewStackFdbased :: "(int \<times> int) result \<Rightarrow> go_error option \<Rightarrow> ip \<Rightarrow> 16 word \<Rightarrow> ((int \<times> int) \<times> stack_config) result" where
  "NewStackFdbased socketpair fdbased_New addr mtu =
     (if length addr \<noteq> 16 then Inl (Errorf ''address must be ipv6'')
      else case socketpair of
             Inl err \<Rightarrow> Inl err
           | Inr fds \<Rightarrow> (case fdbased_New of Some err \<Rightarrow> Inl err | None \<Rightarrow> Inr (fds, stack_setup addr mtu)))"

text \<open>The stack of a node on Linux.\<close>

definition NewStackDefault :: "(int \<times> int) result \<Rightarrow> go_error option \<Rightarrow> ip \<Rightarrow> 16 word \<Rightarrow> ((int \<times> int) \<times> stack_config) result" where
  "NewStackDefault socketpair fdbased_New addr mtu = NewStackFdbased socketpair fdbased_New addr mtu"

text \<open>The endpoint keeps the MTU as 32 bits, and \<open>MTU\<close> returns the low 16 of them.\<close>

definition stack_MTU :: "stack_config \<Rightarrow> 16 word" where
  "stack_MTU ns = ucast (ucast (sk_mtu ns) :: 32 word)"

section \<open>Endpoints\<close>

definition stack_DialTCP :: "stack_config \<Rightarrow> ip \<Rightarrow> 16 word \<Rightarrow> full_address" where
  "stack_DialTCP ns addr port = \<lparr>fa_NIC = 1, fa_Addr = addr, fa_Port = port\<rparr>"

definition stack_ListenTCP :: "stack_config \<Rightarrow> 16 word \<Rightarrow> full_address" where
  "stack_ListenTCP ns port = \<lparr>fa_NIC = 1, fa_Addr = sk_addr ns, fa_Port = port\<rparr>"

text \<open>The local and the remote end of a UDP socket; an empty address is the nil address.\<close>

definition stack_DialUDP :: "stack_config \<Rightarrow> 16 word \<Rightarrow> ip \<Rightarrow> 16 word \<Rightarrow> full_address option \<times> full_address option" where
  "stack_DialUDP ns lport raddr rport =
     (if lport \<noteq> 0 then Some \<lparr>fa_NIC = 1, fa_Addr = sk_addr ns, fa_Port = lport\<rparr> else None,
      if raddr \<noteq> [] then Some \<lparr>fa_NIC = 1, fa_Addr = raddr, fa_Port = rport\<rparr> else None)"

text \<open>The socket stack has methods of its own.\<close>

definition fd_MTU :: "stack_config \<Rightarrow> 16 word" where
  "fd_MTU ns = ucast (ucast (sk_mtu ns) :: 32 word)"

definition fd_DialTCP :: "stack_config \<Rightarrow> ip \<Rightarrow> 16 word \<Rightarrow> full_address" where
  "fd_DialTCP ns addr port = \<lparr>fa_NIC = 1, fa_Addr = addr, fa_Port = port\<rparr>"

definition fd_ListenTCP :: "stack_config \<Rightarrow> 16 word \<Rightarrow> full_address" where
  "fd_ListenTCP ns port = \<lparr>fa_NIC = 1, fa_Addr = sk_addr ns, fa_Port = port\<rparr>"

definition fd_DialUDP :: "stack_config \<Rightarrow> 16 word \<Rightarrow> ip \<Rightarrow> 16 word \<Rightarrow> full_address option \<times> full_address option" where
  "fd_DialUDP ns lport raddr rport =
     (let lfaddr = (if lport \<noteq> 0 then Some \<lparr>fa_NIC = 1, fa_Addr = sk_addr ns, fa_Port = lport\<rparr> else None);
          rfaddr = (if raddr \<noteq> [] then Some \<lparr>fa_NIC = 1, fa_Addr = raddr, fa_Port = rport\<rparr> else None)
      in (lfaddr, rfaddr))"

text \<open>The stack of the host: the address given to \<open>net.Dial\<close>, and the ends of a UDP socket (their address and port).\<close>

definition host_DialTCP :: "ip \<Rightarrow> 16 word \<Rightarrow> string" where
  "host_DialTCP addr port = net_IP_String addr @ '':'' @ itoa (unat port)"

definition host_ListenTCP :: "16 word \<Rightarrow> string" where
  "host_ListenTCP port = '':'' @ itoa (unat port)"

definition host_DialUDP :: "16 word \<Rightarrow> ip \<Rightarrow> 16 word \<Rightarrow> (ip \<times> nat) option \<times> (ip \<times> nat) option" where
  "host_DialUDP lport addr rport =
     (if lport \<noteq> 0 then Some ([], unat lport) else None, Some (addr, unat rport))"

section \<open>Packets\<close>

text \<open>
  The loop of the channel stack. An event is what \<open>ReadContext\<close> returns, with whether the context is done after it; the value is
  the packets that are published, and whether the endpoint and the stack have been closed.
\<close>

fun channel_publisher :: "(bool \<times> bytes option) list \<Rightarrow> bytes list \<times> bool" where
  "channel_publisher [] = ([], False)"
| "channel_publisher ((done, op) # evs) =
     (if done then ([], True)
      else case op of
             None \<Rightarrow> channel_publisher evs
           | Some packet \<Rightarrow> (case channel_publisher evs of (ps, cl) \<Rightarrow> (packet # ps, cl)))"

text \<open>
  The loop of the socket stack. An event is what \<open>Read\<close> returns: the number of bytes, -1 after an error, and the bytes of the
  message; it writes at most the size of the buffer. \<open>packet[:n]\<close> panics when \<open>n\<close> is negative: the value is then \<open>None\<close>.
\<close>

fun fd_publisher :: "nat \<Rightarrow> (bool \<times> bytes result) list \<Rightarrow> bytes list option" where
  "fd_publisher mtu [] = Some []"
| "fd_publisher mtu ((done, rd) # evs) =
     (if done then Some []
      else let n = (case rd of Inl err \<Rightarrow> -1 | Inr message \<Rightarrow> int (min mtu (length message)));
               packet = (case rd of Inl err \<Rightarrow> replicate mtu 0
                         | Inr message \<Rightarrow> take mtu message @ replicate (mtu - length message) 0)
           in if n < 0 then None
              else map_option (\<lambda>ps. take (nat n) packet # ps) (fd_publisher mtu evs))"

text \<open>Sending: the channel stack injects a packet and cannot fail; the socket stack returns the error of the write.\<close>

definition channel_SendPacket :: "(bytes \<Rightarrow> 's \<Rightarrow> 's) \<Rightarrow> bytes \<Rightarrow> 's \<Rightarrow> 's \<times> go_error option" where
  "channel_SendPacket injectInbound packet s = (injectInbound packet s, None)"

definition fd_SendPacket :: "(bytes \<Rightarrow> nat result) \<Rightarrow> bytes \<Rightarrow> go_error option" where
  "fd_SendPacket write packet = (case write packet of Inl err \<Rightarrow> Some err | Inr _ \<Rightarrow> None)"

section \<open>The contract of a user stack\<close>

text \<open>
  What \<^verbatim>\<open>netstack.go\<close> promises of \<open>DialUDP\<close>: without a remote address the remote port is ignored and the
  socket only listens; otherwise it is connected to the address.
\<close>

locale udp_dialer =
  fixes dial :: "16 word \<Rightarrow> ip \<Rightarrow> 16 word \<Rightarrow> 'e option \<times> 'e option"
    and remote :: "ip \<Rightarrow> 16 word \<Rightarrow> 'e"
  assumes listens: "snd (dial lport [] rport) = None"
    and connects: "addr \<noteq> [] \<Longrightarrow> snd (dial lport addr rport) = Some (remote addr rport)"
    and own_end: "fst (dial lport addr rport) = fst (dial lport addr' rport')"
begin

lemma nil_ignores_port: "dial lport [] rport = dial lport [] rport'"
  by (rule prod_eqI) (simp_all add: listens own_end [of lport "[]" rport "[]" rport'])

lemma connected_iff: "snd (dial lport addr rport) \<noteq> None \<longleftrightarrow> addr \<noteq> []"
  by (cases "addr = []") (simp_all add: listens connects)

end

interpretation gvisor_udp: udp_dialer "stack_DialUDP ns" "\<lambda>addr port. \<lparr>fa_NIC = 1, fa_Addr = addr, fa_Port = port\<rparr>" for ns
  by unfold_locales (simp_all add: stack_DialUDP_def)

interpretation fd_udp: udp_dialer "fd_DialUDP ns" "\<lambda>addr port. \<lparr>fa_NIC = 1, fa_Addr = addr, fa_Port = port\<rparr>" for ns
  by unfold_locales (simp_all add: fd_DialUDP_def)

text \<open>The two stacks on gVisor are interchangeable: made with the same address and MTU they have the same ends.\<close>

lemma stacks_interchangeable:
  assumes "NewStackChannel addr mtu = Inr ns" "NewStackFdbased sp fd addr mtu = Inr (fds, ns')"
  shows "fd_MTU ns' = stack_MTU ns" "fd_DialTCP ns' a port = stack_DialTCP ns a port"
    "fd_ListenTCP ns' port = stack_ListenTCP ns port" "fd_DialUDP ns' lport a rport = stack_DialUDP ns lport a rport"
proof -
  have "ns' = ns" using assms by (auto simp: NewStackChannel_def NewStackFdbased_def split: if_splits sum.splits option.splits)
  then show "fd_MTU ns' = stack_MTU ns" "fd_DialTCP ns' a port = stack_DialTCP ns a port"
    "fd_ListenTCP ns' port = stack_ListenTCP ns port" "fd_DialUDP ns' lport a rport = stack_DialUDP ns lport a rport"
    by (simp_all add: fd_MTU_def stack_MTU_def fd_DialTCP_def stack_DialTCP_def fd_ListenTCP_def stack_ListenTCP_def
        fd_DialUDP_def stack_DialUDP_def)
qed

text \<open>
  The stacks on gVisor keep this contract; the stack of the host does not: without a remote address its socket is connected,
  to the remote port of no address.
\<close>

lemma gvisor_listen_only: "stack_DialUDP ns lport [] rport = stack_DialUDP ns lport [] rport'"
  by (rule gvisor_udp.nil_ignores_port)

lemma host_listen_connects: "snd (host_DialUDP lport [] rport) = Some ([], unat rport)"
  by (simp add: host_DialUDP_def)

section \<open>Properties\<close>

text \<open>A stack has its address, and a route for it and for every other IPv6 address.\<close>

lemma cidr_bytes_zero: "cidr_bytes 0 l = replicate l 0"
  by (induction l) simp_all

lemma stack_routes_everything:
  assumes "NewStackChannel addr mtu = Inr ns" "length dest = 16"
  shows "\<exists>net. (net, sk_nic ns) \<in> set (sk_routes ns) \<and> ipn_Mask net = replicate 16 0 \<and> map2 (AND) dest (ipn_Mask net) = ipn_IP net"
proof -
  have l: "length addr = 16" and ns: "ns = stack_setup addr mtu" using assms(1) by (auto simp: NewStackChannel_def split: if_splits)
  have m: "net_CIDRMask 0 128 = replicate 16 0" by (simp add: net_CIDRMask_def cidr_bytes_zero)
  have z: "map2 (AND) a (replicate 16 0) = replicate 16 0" if "length a = 16" for a :: bytes
    by (rule nth_equalityI) (use that in auto)
  let ?net = "prefix_Subnet \<lparr>ap_Address = addr, ap_PrefixLen = 0\<rparr>"
  have "(?net, sk_nic ns) \<in> set (sk_routes ns)" by (simp add: ns stack_setup_def Let_def)
  moreover have "ipn_Mask ?net = replicate 16 0" "ipn_IP ?net = replicate 16 0" using l m z by (simp_all add: prefix_Subnet_def Let_def)
  ultimately show ?thesis using z [OF assms(2)] by metis
qed

text \<open>A stack reports the MTU it was made with.\<close>

lemma stack_reports_mtu:
  assumes "NewStackDefault sp fd addr mtu = Inr (fds, ns)"
  shows "stack_MTU ns = mtu"
  using assms
  by (auto simp: NewStackDefault_def NewStackFdbased_def stack_setup_def stack_MTU_def Let_def ucast_down_ucast_id is_down
      split: if_splits sum.splits option.splits)

text \<open>The channel stack publishes every packet that is read before the context ends, once and in order.\<close>

lemma channel_publishes_all:
  "list_all (\<lambda>(d, _). \<not> d) evs \<Longrightarrow> channel_publisher evs = (List.map_filter snd evs, False)"
proof (induction evs)
  case (Cons ev evs)
  then show ?case by (cases ev; cases "snd ev") (auto simp: List.map_filter_simps)
qed (simp add: List.map_filter_simps)

text \<open>The socket stack publishes the messages, cut to the MTU; one failed read stops the program.\<close>

lemma fd_publishes_all:
  "fd_publisher mtu (map (\<lambda>p. (False, Inr p)) ps) = Some (map (take mtu) ps)"
  by (induction ps) (simp_all add: min_def)

lemma fd_read_error_panics:
  "fd_publisher mtu (map (\<lambda>p. (False, Inr p)) ps @ (False, Inl err) # evs) = None"
  by (induction ps) simp_all

text \<open>
  The host stack writes an IPv6 address without brackets, so \<open>net.Dial\<close> cannot tell the port from the address.
\<close>

theorem host_dial_ipv6:
  assumes "length a = 16" "net_To4 a = None"
  shows "SplitHostPort (host_DialTCP a port) = Inl (AddrError (host_DialTCP a port) ''too many colons in address'')"
proof -
  have s: "net_IP_String a = v6_String a" using assms by (simp add: net_IP_String_def)
  have colon: "CHR '':'' \<in> set (v6_String a)" using find_v6 [of a] by (auto simp: find_Some_iff in_set_conv_nth)
  have "CHR ''['' \<notin> addr_chars" by (simp add: addr_chars_def hex_digit_def)
  then have "CHR ''['' \<notin> set (v6_String a)" using addr_chars_v6 [of a] by blast
  moreover have "v6_String a \<noteq> []" using colon by auto
  ultimately have "host_DialTCP a port ! 0 \<noteq> CHR ''[''" by (cases "v6_String a") (auto simp: host_DialTCP_def s)
  moreover have "last_index CHR '':'' (host_DialTCP a port) = Some (length (v6_String a))"
    using last_index_append [OF itoa_plain(1), of "v6_String a" "unat port"] by (simp add: host_DialTCP_def s)
  ultimately show ?thesis using colon by (simp add: SplitHostPort_def Let_def) (simp add: host_DialTCP_def s)
qed

end
