(* ===== verification/Delivery.thy ===== *)
theory Delivery
  imports Sessions
begin

text \<open>
  Routing and forwarding together, across the nodes of a network: from routers that have calculated their policies from
  the same table to packets that arrive.

  A policy is only one router's view: it gives the first hop of a way that is shortest for that router. That the hops of
  different routers fit together rests on the costs. \<open>float32\<close> addition rounds, so a shortest way need not go on as a
  shortest way; when all costs are multiples of a power of two and a way costs less than \<open>2 ^ 24\<close> of them, sums are
  exact (\<open>units\<close>, \<open>tracks\<close>), and the first hop of a shortest way is nearer to its end (\<open>shortest_via_nearer\<close>).

  Routers list and range over their tables in different orders; \<open>same_table\<close> and \<open>one_cost\<close> say when that makes no
  difference to the links. \<open>carried\<close> is the way of a packet through the operations of the nodes, and
  \<open>packet_delivered\<close> shows that it ends at the destination.
\<close>

section \<open>Exact costs\<close>

definition units :: "nat \<Rightarrow> nat \<Rightarrow> f32" where
  "units s k = Fin (int k * 2 ^ s)"

lemma units_less [simp]: "f32_less (units s j) (units s k) \<longleftrightarrow> j < k"
  by (simp add: units_def)

lemma units_of_int:
  assumes "k \<le> 2 ^ 24" "s \<le> 252"
  shows "f32_of_int (int k * 2 ^ s) = units s k"
proof -
  have "round_int (int k * 2 ^ s) = int k * 2 ^ s"
    using round_nat_24bit [OF assms(1), of s] by (simp add: round_int_nonneg nat_mult_distrib nat_power_eq)
  moreover have "int k * 2 ^ s \<le> 2 ^ 24 * 2 ^ 252"
    using assms by (intro mult_mono power_increasing) auto
  then have "int k * 2 ^ s \<le> max_float32" by (simp add: max_float32_def)
  moreover have "- max_float32 \<le> int k * 2 ^ s"
    using order_trans [of "- max_float32" 0 "int k * 2 ^ s"] by (simp add: max_float32_def)
  ultimately show ?thesis by (simp add: f32_of_int_round units_def)
qed

lemma units_cost:
  assumes "k \<le> 2 ^ 24" "s \<le> 252"
  shows "f32_cost (units s k)"
  using f32_ok_of_int [of "int k * 2 ^ s"] units_of_int [OF assms] by (simp add: f32_cost_def units_def f32_zero_def not_less del: f32_ok.simps)

lemma units_max:
  assumes "k < 2 ^ 24" "s \<le> 252"
  shows "f32_less (units s k) f32_max"
proof -
  have "int k * 2 ^ s \<le> 2 ^ 24 * 2 ^ 252" using assms by (intro mult_mono power_increasing) auto
  also have "\<dots> < max_float32" by (simp add: max_float32_def)
  finally show ?thesis by (simp add: units_def f32_max_def)
qed

lemma units_add:
  assumes "s \<le> 252"
  shows "if j + k \<le> 2 ^ 24 then f32_add (units s j) (units s k) = units s (j + k)
         else \<not> f32_less (f32_add (units s j) (units s k)) (units s (2 ^ 24))"
proof -
  have sum: "f32_add (units s j) (units s k) = f32_of_int (int (j + k) * 2 ^ s)"
    by (simp add: units_def distrib_right)
  have "\<not> f32_less (f32_of_int (int (j + k) * 2 ^ s)) (units s (2 ^ 24))" if "2 ^ 24 < j + k"
  proof -
    have "int (2 ^ 24) * 2 ^ s \<le> int (j + k) * 2 ^ s" by (rule mult_right_mono) (use that in \<open>simp_all only: of_nat_le_iff, simp_all\<close>)
    then show ?thesis using f32_less_of_int units_of_int [of "2 ^ 24" s] assms by fastforce
  qed
  then show ?thesis using sum units_of_int [of "j + k" s] assms by auto
qed

text \<open>
  A graph whose edge costs are positive multiples of the unit \<open>2 ^ s\<close>; \<open>w\<close> has the multiples.
\<close>

definition exact_graph :: "nat \<Rightarrow> ('v \<Rightarrow> 'v \<Rightarrow> f32 option) \<Rightarrow> ('v \<Rightarrow> 'v \<Rightarrow> nat option) \<Rightarrow> bool" where
  "exact_graph s edge w \<longleftrightarrow>
     s \<le> 252 \<and> (\<forall>u v. edge u v = map_option (units s) (w u v)) \<and> (\<forall>u v k. w u v = Some k \<longrightarrow> 0 < k \<and> k \<le> 2 ^ 24)"

definition tracks :: "nat \<Rightarrow> nat \<Rightarrow> f32 \<Rightarrow> bool" where
  "tracks s k c \<longleftrightarrow> f32_cost c \<and> (if k \<le> 2 ^ 24 then c = units s k else \<not> f32_less c (units s (2 ^ 24)))"

lemma tracks_add:
  assumes "tracks s j c" "s \<le> 252" "k \<le> 2 ^ 24"
  shows "tracks s (j + k) (f32_add c (units s k))"
proof -
  have c: "f32_cost c" and e: "f32_cost (units s k)" using assms units_cost by (auto simp: tracks_def)
  note ce = f32_cost_add [OF c e]
  show ?thesis
  proof (cases "j \<le> 2 ^ 24")
    case True
    then show ?thesis using assms(1) ce units_add [OF assms(2), of j k] by (auto simp: tracks_def)
  next
    case False
    then have "\<not> f32_less c (units s (2 ^ 24))" using assms(1) by (simp add: tracks_def)
    then have "\<not> f32_less (f32_add c (units s k)) (units s (2 ^ 24))"
      using f32c.not_less_trans [OF units_cost [OF order_refl assms(2)] c ce] f32_add_inflates [OF c e] by blast
    then show ?thesis using False ce by (simp add: tracks_def)
  qed
qed

lemma tracks_zero: "tracks s 0 f32_zero"
  by (simp add: tracks_def units_def f32_zero_def f32_cost_def f32_ok_Fin max_float32_def round_int_nonneg del: f32_ok.simps)

lemma walk_tracks:
  assumes g: "exact_graph s edge w" and "walk f32_add f32_zero edge src v c"
  shows "\<exists>k. walk (+) 0 w src v k \<and> tracks s k c"
  using assms(2)
proof (induction rule: walk.induct)
  case walk_start
  then show ?case using walk.walk_start tracks_zero by metis
next
  case (walk_step u c v e)
  then obtain k ke where k: "walk (+) 0 w src u k" "tracks s k c" "w u v = Some ke" "e = units s ke"
    using g by (auto simp: exact_graph_def)
  moreover have "s \<le> 252" "ke \<le> 2 ^ 24" using g k(3) by (auto simp: exact_graph_def)
  ultimately show ?case using walk.walk_step [OF k(1,3)] tracks_add by blast
qed

lemma walk_exact:
  assumes g: "exact_graph s edge w" and "walk (+) 0 w src v k" "k \<le> 2 ^ 24"
  shows "walk f32_add f32_zero edge src v (units s k)"
  using assms(2,3)
proof (induction rule: walk.induct)
  case walk_start
  then show ?case using walk.walk_start [of f32_add f32_zero edge src] by (simp add: units_def f32_zero_def)
next
  case (walk_step u k v ke)
  then have "edge u v = Some (units s ke)" "s \<le> 252" using g by (auto simp: exact_graph_def)
  then show ?case using walk.walk_step [of f32_add f32_zero edge src u "units s k" v "units s ke"] walk_step units_add [of s k ke] by simp
qed

lemma via_tracks:
  assumes g: "exact_graph s edge w" and "walk_via f32_add f32_zero edge src hop v c"
  shows "\<exists>k0 k. w src hop = Some k0 \<and> walk (+) 0 w hop v k \<and> tracks s (k0 + k) c"
  using assms(2)
proof (induction rule: walk_via.induct)
  case (via_start e)
  then obtain k0 where k0: "w src hop = Some k0" "e = units s k0" using g by (auto simp: exact_graph_def)
  moreover have "s \<le> 252" "k0 \<le> 2 ^ 24" using g k0(1) by (auto simp: exact_graph_def)
  ultimately show ?case using tracks_add [OF tracks_zero, of s k0] walk.walk_start [of "(+)" 0 w hop] by auto
next
  case (via_step u c v e)
  then obtain k0 k ke where k: "w src hop = Some k0" "walk (+) 0 w hop u k" "tracks s (k0 + k) c" "w u v = Some ke" "e = units s ke"
    using g by (auto simp: exact_graph_def)
  moreover have "s \<le> 252" "ke \<le> 2 ^ 24" using g k(4) by (auto simp: exact_graph_def)
  ultimately show ?case using walk.walk_step [OF k(2,4)] tracks_add [of s "k0 + k" c ke] by (metis add.assoc)
qed

text \<open>The first hop of a shortest way is nearer to its end.\<close>

lemma shortest_via_nearer:
  assumes g: "exact_graph s edge w" and "walk_via f32_add f32_zero edge a hop dest c"
    and least: "\<And>c'. walk f32_add f32_zero edge a dest c' \<Longrightarrow> \<not> f32_less c' c"
    and k: "walk (+) 0 w a dest k" "k < 2 ^ 24"
  shows "\<exists>k'. walk (+) 0 w hop dest k' \<and> k' < k \<and> w a hop \<noteq> None"
proof -
  obtain k0 k' where v: "w a hop = Some k0" "walk (+) 0 w hop dest k'" "tracks s (k0 + k') c" using via_tracks [OF assms(1,2)] by blast
  have s: "s \<le> 252" "0 < k0" using g v(1) by (auto simp: exact_graph_def)
  have ge: "\<not> f32_less (units s k) c" using least walk_exact [OF g k(1)] k(2) by simp
  have "k0 + k' \<le> 2 ^ 24"
  proof (rule ccontr)
    assume "\<not> k0 + k' \<le> 2 ^ 24"
    then have "f32_cost c" "\<not> f32_less c (units s (2 ^ 24))" using v(3) by (auto simp: tracks_def)
    then have "f32_less (units s k) c"
      using f32c.less_not_less_trans [OF units_cost [of k s] units_cost [OF order_refl s(1)]] k(2) s(1) by auto
    with ge show False ..
  qed
  then have "k0 + k' \<le> k" using v(3) ge by (simp add: tracks_def)
  then show ?thesis using v(1,2) s(2) by (intro exI [of _ k']) simp
qed

section \<open>Tables that agree\<close>

text \<open>
  Two routers may hold the same table in different lists, and range over it in different orders. When no node
  advertises two costs for the same node, the links do not depend on that.
\<close>

definition same_table :: "(ip, RoutingConns option) gomap \<Rightarrow> (ip, RoutingConns option) gomap \<Rightarrow> bool" where
  "same_table ns ns' \<longleftrightarrow> set (go_keys ns) = set (go_keys ns') \<and> (\<forall>u. go_get (conns_of ns u) = go_get (conns_of ns' u))"

definition connected_at :: "(ip, RoutingConns option) gomap \<Rightarrow> ip \<Rightarrow> ip \<Rightarrow> f32 \<Rightarrow> bool" where
  "connected_at ns u v e \<longleftrightarrow> u \<in> set (go_keys ns) \<and> v \<in> set (go_keys ns) \<and>
     (\<exists>conn. go_get (conns_of ns u) conn = Some e \<and> Subnet_Contains conn v)"

definition one_cost :: "(ip, RoutingConns option) gomap \<Rightarrow> bool" where
  "one_cost ns \<longleftrightarrow> (\<forall>u v e e'. connected_at ns u v e \<and> connected_at ns u v e' \<longrightarrow> e = e')"

lemma same_table_connected: "same_table ns ns' \<Longrightarrow> connected_at ns = connected_at ns'"
  by (intro ext) (simp add: same_table_def connected_at_def)

lemma link_connected:
  assumes "orders_ok o'" "one_cost ns"
  shows "link o' ns u v = Some e \<longleftrightarrow> connected_at ns u v e"
proof
  assume "link o' ns u v = Some e"
  from link_sound [OF assms(1) this] show "connected_at ns u v e" by (auto simp: connected_at_def)
next
  assume c: "connected_at ns u v e"
  then obtain e' where e': "link o' ns u v = Some e'"
    using link_complete [OF assms(1)] by (fastforce simp: connected_at_def)
  from link_sound [OF assms(1) this] have "connected_at ns u v e'" by (auto simp: connected_at_def)
  with c have "e' = e" using assms(2) unfolding one_cost_def by blast
  with e' show "link o' ns u v = Some e" by simp
qed

lemma link_same_table:
  assumes "orders_ok o1" "orders_ok o2" "one_cost ns" "same_table ns1 ns"
  shows "link o1 ns1 = link o2 ns"
proof (intro ext)
  fix u v
  have c: "connected_at ns1 = connected_at ns" by (rule same_table_connected [OF assms(4)])
  then have "one_cost ns1" using assms(3) by (simp add: one_cost_def)
  then have "link o1 ns1 u v = Some e \<longleftrightarrow> link o2 ns u v = Some e" for e
    using link_connected [OF assms(1)] link_connected [OF assms(2,3)] by (simp add: c)
  then show "link o1 ns1 u v = link o2 ns u v" by (metis option.exhaust)
qed

text \<open>A router whose policy has been calculated from its table.\<close>

definition routed :: "'q pq_ops \<Rightarrow> router \<Rightarrow> bool" where
  "routed pq r \<longleftrightarrow> go_wf (policy r) \<and>
     (\<exists>o' np. orders_ok o' \<and> new_policy pq o' (myAddr r) (nodes r) = Some np \<and> go_get (policy r) = go_get np)"

lemma recalculate_routed:
  assumes "recalculate pq o' r = Some r'" "go_wf (policy r)" "orders_ok o'"
  shows "routed pq r'"
proof -
  obtain np where "new_policy pq o' (myAddr r) (nodes r) = Some np" "go_get (policy r') = go_get np"
      "go_wf (policy r')" "nodes r' = nodes r" "myAddr r' = myAddr r"
    using recalculate_policy [OF assms(1,2)] by metis
  then show ?thesis using assms(3) by (auto simp: routed_def)
qed

lemma routed_next_hop:
  assumes pq: "prio_queue pq elems qinv" and r: "routed pq r" "costs_ok (nodes r)" "nodes_ok (nodes r)" "myAddr r \<noteq> []"
    and tab: "orders_ok o'" "one_cost ns" "same_table (nodes r) ns"
    and dest: "dest \<in> set (go_keys ns)" "dest \<noteq> myAddr r"
    and way: "walk f32_add f32_zero (link o' ns) (myAddr r) dest c" "f32_less c f32_max"
  shows "\<exists>hop c'. NextHop r dest = Inr hop \<and> walk_via f32_add f32_zero (link o' ns) (myAddr r) hop dest c' \<and>
    (\<forall>c''. walk f32_add f32_zero (link o' ns) (myAddr r) dest c'' \<longrightarrow> \<not> f32_less c'' c')"
proof -
  obtain o1 np where o1: "orders_ok o1" "new_policy pq o1 (myAddr r) (nodes r) = Some np"
      "go_wf (policy r)" "go_get (policy r) = go_get np"
    using r(1) by (auto simp: routed_def)
  note g = link_graph_ok [OF o1(1) r(2,3)]
  obtain cost prev where f: "policy_facts o1 (myAddr r) (nodes r) cost prev np"
    using prio_queue.new_policy_facts [OF pq o1(1) r(2-4)] o1(2) by auto
  have l: "link o1 (nodes r) = link o' ns" by (rule link_same_table [OF o1(1) tab])
  have d: "dest \<in> set (go_keys (nodes r))" using dest(1) tab(3) by (simp add: same_table_def)
  have least: "\<not> f32_less c'' (lab cost dest)" if "walk f32_add f32_zero (link o' ns) (myAddr r) dest c''" for c''
    using label_is_least [OF f g] that by (simp add: l)
  then have "lab cost dest \<noteq> f32_max" using way by auto
  then obtain hop where hop: "go_get np (NewHostOnlySubnet dest) = Some hop"
      "walk_via f32_add f32_zero (link o' ns) (myAddr r) hop dest (lab cost dest)"
    using host_route_facts [OF f g d dest(2)] l by (auto split: option.splits)
  have "NextHop r dest = Inr hop"
    by (rule NextHop_host_route [OF o1(3)]) (use hop(1) o1(3,4) go_get_Some_iff [OF o1(3)] nodes_okD [OF r(3) d] in auto)
  then show ?thesis using hop(2) least by blast
qed

section \<open>Packets in a network\<close>

text \<open>
  A network: the state of its nodes, and for each backend connection of a node the node and the session at its other
  end. A node takes a packet from its own stack (\<open>netStackReadLoop\<close>) or from a connected session (\<open>protoLoop\<close>).
\<close>

record overlay =
  ov_node :: "ip \<Rightarrow> netopus option"
  ov_peer :: "ip \<Rightarrow> nat \<Rightarrow> (ip \<times> nat) option"

definition session_ready :: "netopus \<Rightarrow> nat \<Rightarrow> bool" where
  "session_ready n s = (case go_get (n_sessHeap n) s of None \<Rightarrow> False | Some p \<Rightarrow> ps_connectionState p = connectionStateConnected)"

definition node_takes ::
    "json_codec \<Rightarrow> ipv6_ops \<Rightarrow> fwd_env \<Rightarrow> time \<Rightarrow> nat option \<Rightarrow> bytes \<Rightarrow> netopus \<Rightarrow> netopus option" where
  "node_takes j h fenv now inp packet n =
     (case inp of
        None \<Rightarrow> map_option fst (netStackReadLoop_step h fenv False packet n)
      | Some s \<Rightarrow> Option.bind (go_get (n_sessHeap n) s) (\<lambda>p.
          if ps_connectionState p = connectionStateConnected then protoLoop_recv j h fenv now True s p packet n else None))"

text \<open>
  A packet is \<open>carried\<close> to \<open>d\<close>, and is \<open>q\<close> there, when taking it makes a node hand it to the stack of \<open>d\<close>, or makes
  it write the packet to a connection whose other end carries it on.
\<close>

inductive carried :: "json_codec \<Rightarrow> ipv6_ops \<Rightarrow> (ip \<Rightarrow> fwd_env) \<Rightarrow> (ip \<Rightarrow> time) \<Rightarrow> overlay \<Rightarrow>
    ip \<Rightarrow> nat option \<Rightarrow> bytes \<Rightarrow> ip \<Rightarrow> bytes \<Rightarrow> bool" for j h env now ov where
  arrives: "ov_node ov a = Some n \<Longrightarrow> node_takes j h (env a) (now a) inp p n = Some n' \<Longrightarrow>
    n_effects n' = n_effects n @ [StackSend p] \<Longrightarrow> carried j h env now ov a inp p a p"
| forwards: "ov_node ov a = Some n \<Longrightarrow> node_takes j h (env a) (now a) inp p n = Some n' \<Longrightarrow>
    n_effects n' = n_effects n @ [ConnWrite c p'] \<Longrightarrow> ov_peer ov a c = Some (b, s) \<Longrightarrow>
    carried j h env now ov b (Some s) p' d q \<Longrightarrow> carried j h env now ov a inp p d q"

lemma node_takes_sends:
  assumes "SendPacket h fenv n p = Some (m, err)" "Msg_Type p = MsgTypeData" "\<And>s. inp = Some s \<Longrightarrow> session_ready n s"
  shows "\<exists>n'. node_takes j h fenv now inp p n = Some n' \<and> n_effects n' = n_effects m"
proof (cases inp)
  case None
  then show ?thesis using assms(1) by (simp add: node_takes_def netStackReadLoop_step_def)
next
  case (Some s)
  then obtain ses where "go_get (n_sessHeap n) s = Some ses" "ps_connectionState ses = connectionStateConnected"
    using assms(3) by (auto simp: session_ready_def split: option.splits)
  then show ?thesis using Some assms(1,2)
    by (simp add: node_takes_def protoLoop_recv_def mainSelect_recv_def Msg_Unmarshal_def)
qed

text \<open>What \<open>SendPacket\<close> does with a packet for this node and with one that it can pass on.\<close>

lemma SendPacket_arrives:
  assumes "40 \<le> length p" "DestinationAddress h p = n_addr n" "\<not> IsV6MulticastAddress h (n_addr n)"
  shows "SendPacket h env n p = Some (emit (StackSend p) n, env_stack_SendPacket env p)"
  using assms by (subst SendPacket.simps) (simp add: Let_def)

lemma SendPacket_forwards:
  assumes "40 \<le> length p" "\<not> IsV6MulticastAddress h (DestinationAddress h p)" "\<not> IP_Equal (DestinationAddress h p) (n_addr n)"
    and "1 < HopLimit h p" "external_route n (DestinationAddress h p) = None"
    and "NextHop (n_router n) (DestinationAddress h p) = Inr hop" "session_of n hop = Some ses"
  shows "SendPacket h env n p = Some (emit (ConnWrite (ps_conn ses) (SetHopLimit h (HopLimit h p - 1) p)) n, None)"
proof -
  have "(HopLimit h p \<le> 1) = False" using assms(4) by (simp add: not_le)
  then show ?thesis using assms by (subst SendPacket.simps) (simp add: Let_def)
qed

lemma carried_here:
  assumes "ov_node ov a = Some n" "n_addr n = a" "\<not> IsV6MulticastAddress h a" "\<And>s. inp = Some s \<Longrightarrow> session_ready n s"
    and "40 \<le> length p" "Msg_Type p = MsgTypeData" "DestinationAddress h p = a"
  shows "carried j h env now ov a inp p a p"
proof -
  have "SendPacket h (env a) n p = Some (emit (StackSend p) n, env_stack_SendPacket (env a) p)"
    by (rule SendPacket_arrives) (use assms in simp_all)
  from node_takes_sends [OF this assms(6,4)]
  obtain n' where "node_takes j h (env a) (now a) inp p n = Some n'" "n_effects n' = n_effects (emit (StackSend p) n)" by blast
  then show ?thesis using arrives [OF assms(1)] by simp
qed

lemma carried_over:
  assumes "ov_node ov a = Some n" "SendPacket h (env a) n p = Some (emit (ConnWrite c p') n, None)"
    and "\<And>s. inp = Some s \<Longrightarrow> session_ready n s" "Msg_Type p = MsgTypeData"
    and "ov_peer ov a c = Some (b, s)" "carried j h env now ov b (Some s) p' d q"
  shows "carried j h env now ov a inp p d q"
proof -
  obtain n' where "node_takes j h (env a) (now a) inp p n = Some n'" "n_effects n' = n_effects (emit (ConnWrite c p') n)"
    using node_takes_sends [OF assms(2,4,3)] by blast
  then show ?thesis using forwards [OF assms(1) _ _ assms(5,6)] by simp
qed

text \<open>
  A network has converged to a table when every node of the table holds it, has calculated its policy from it, and has a
  session over every link that the table has for it, which is connected at the other end.
\<close>

definition linked :: "(ip, RoutingConns option) gomap \<Rightarrow> overlay \<Rightarrow> ip \<Rightarrow> netopus \<Rightarrow> bool" where
  "linked ns ov a n \<longleftrightarrow> (\<forall>b e. connected_at ns a b e \<longrightarrow> (\<exists>p s m.
     session_of n b = Some p \<and> ov_peer ov a (ps_conn p) = Some (b, s) \<and> ov_node ov b = Some m \<and> session_ready m s))"

definition converged_node :: "'q pq_ops \<Rightarrow> (ip, RoutingConns option) gomap \<Rightarrow> ip \<Rightarrow> netopus \<Rightarrow> bool" where
  "converged_node pq ns a n \<longleftrightarrow>
     n_addr n = a \<and> myAddr (n_router n) = a \<and> routed pq (n_router n) \<and> same_table (nodes (n_router n)) ns \<and>
     costs_ok (nodes (n_router n)) \<and> nodes_ok (nodes (n_router n))"

definition converged :: "'q pq_ops \<Rightarrow> (ip, RoutingConns option) gomap \<Rightarrow> overlay \<Rightarrow> bool" where
  "converged pq ns ov \<longleftrightarrow>
     (\<forall>a. a \<in> set (go_keys ns) \<longrightarrow> (\<exists>n. ov_node ov a = Some n \<and> converged_node pq ns a n \<and> linked ns ov a n))"

text \<open>Link costs are multiples of a power of two, for example whole numbers (\<open>s = 149\<close>).\<close>

definition multiples_of :: "nat \<Rightarrow> (ip, RoutingConns option) gomap \<Rightarrow> bool" where
  "multiples_of s ns \<longleftrightarrow> s \<le> 252 \<and> (\<forall>u v e. connected_at ns u v e \<longrightarrow> (\<exists>k. 0 < k \<and> k \<le> 2 ^ 24 \<and> e = units s k))"

definition unit_graph :: "nat \<Rightarrow> ('v \<Rightarrow> 'v \<Rightarrow> f32 option) \<Rightarrow> 'v \<Rightarrow> 'v \<Rightarrow> nat option" where
  "unit_graph s edge u v = map_option (\<lambda>e. case e of Fin x \<Rightarrow> nat (x div 2 ^ s) | _ \<Rightarrow> 0) (edge u v)"

lemma unit_graph_exact:
  assumes "multiples_of s ns" "orders_ok o'" "one_cost ns"
  shows "exact_graph s (link o' ns) (unit_graph s (link o' ns))"
proof -
  have "\<exists>k. 0 < k \<and> k \<le> 2 ^ 24 \<and> e = units s k" if "link o' ns u v = Some e" for u v e
    using assms(1) that by (simp add: multiples_of_def link_connected [OF assms(2,3)])
  then have e: "link o' ns u v = None \<or> (\<exists>k. 0 < k \<and> k \<le> 2 ^ 24 \<and> link o' ns u v = Some (units s k))" for u v
    by (cases "link o' ns u v") auto
  have "link o' ns u v = map_option (units s) (unit_graph s (link o' ns) u v)
      \<and> (\<forall>k. unit_graph s (link o' ns) u v = Some k \<longrightarrow> 0 < k \<and> k \<le> 2 ^ 24)" for u v
    using e [of u v] by (auto simp: unit_graph_def units_def)
  then show ?thesis using assms(1) by (simp add: exact_graph_def multiples_of_def)
qed

text \<open>The nodes that are nearer to a destination than a given one.\<close>

definition dist :: "('v \<Rightarrow> 'v \<Rightarrow> nat option) \<Rightarrow> 'v \<Rightarrow> 'v \<Rightarrow> nat" where
  "dist w d a = (LEAST k. walk (+) 0 w a d k)"

definition nearer :: "('v \<Rightarrow> 'v \<Rightarrow> nat option) \<Rightarrow> 'v set \<Rightarrow> 'v \<Rightarrow> 'v \<Rightarrow> 'v set" where
  "nearer w V d a = {v \<in> V. (\<exists>k. walk (+) 0 w v d k) \<and> dist w d v < dist w d a}"

lemma dist_walk: "walk (+) 0 w a d k \<Longrightarrow> walk (+) 0 w a d (dist w d a) \<and> dist w d a \<le> k"
  unfolding dist_def by (metis LeastI Least_le)

lemma nearer_card:
  assumes "finite V" "b \<in> nearer w V d a"
  shows "card (nearer w V d b) < card (nearer w V d a)"
proof (rule psubset_card_mono)
  show "finite (nearer w V d a)" using assms(1) by (simp add: nearer_def)
  show "nearer w V d b \<subset> nearer w V d a" using assms(2) by (auto simp: nearer_def)
qed

text \<open>Decrementing the hop limit leaves the rest of a packet.\<close>

definition same_packet :: "bytes \<Rightarrow> bytes \<Rightarrow> bool" where
  "same_packet p q \<longleftrightarrow> length q = length p \<and> take 7 q = take 7 p \<and> drop 8 q = drop 8 p"

lemma Msg_Type_take: "Msg_Type (take 7 p) = Msg_Type p"
  by (cases p) (simp_all add: Msg_Type_def)

lemma hop_limit_only:
  assumes "ipv6_header h" "40 \<le> length p"
  shows "same_packet p (SetHopLimit h l p)" "DestinationAddress h (SetHopLimit h l p) = DestinationAddress h p"
    "HopLimit h (SetHopLimit h l p) = l" "40 \<le> length (SetHopLimit h l p)" "Msg_Type (SetHopLimit h l p) = Msg_Type p"
  using ipv6_header.set_hop [OF assms, of l] assms(2) Msg_Type_take [of p] Msg_Type_take [of "SetHopLimit h l p"]
  by (simp_all add: same_packet_def)

text \<open>One hop brings the packet to a node that is nearer to the destination.\<close>

lemma one_hop:
  assumes pq: "prio_queue pq elems qinv" and n: "converged_node pq ns a n" "linked ns ov a n" "external_route n dest = None"
    and tab: "orders_ok o'" "one_cost ns" "multiples_of s ns"
    and dest: "dest \<in> set (go_keys ns)" "\<not> IsV6MulticastAddress h dest" "dest \<noteq> a" and a: "a \<in> set (go_keys ns)"
  defines "w \<equiv> unit_graph s (link o' ns)"
  assumes k: "walk (+) 0 w a dest k" "k < 2 ^ 24" and p: "40 \<le> length p" "DestinationAddress h p = dest"
  shows "\<exists>b c t m k'.
    (1 < HopLimit h p \<longrightarrow> SendPacket h env n p = Some (emit (ConnWrite c (SetHopLimit h (HopLimit h p - 1) p)) n, None)) \<and>
    ov_peer ov a c = Some (b, t) \<and> ov_node ov b = Some m \<and> session_ready m t \<and>
    b \<in> nearer w (set (go_keys ns)) dest a \<and> walk (+) 0 w b dest k' \<and> k' < 2 ^ 24"
proof -
  note g = unit_graph_exact [OF tab(3,1,2), folded w_def]
  note c = n(1) [unfolded converged_node_def]
  have "nodes_ok (nodes (n_router n))" "set (go_keys (nodes (n_router n))) = set (go_keys ns)" using c by (simp_all add: same_table_def)
  then have len: "length a = 16" "length dest = 16" using nodes_okD a dest(1) by blast+
  then have me: "myAddr (n_router n) \<noteq> []" using c by auto
  define k0 where "k0 = dist w dest a"
  have k0: "walk (+) 0 w a dest k0" "k0 < 2 ^ 24" using dist_walk [OF k(1)] k(2) by (auto simp: k0_def)
  have "walk f32_add f32_zero (link o' ns) a dest (units s k0)" using walk_exact [OF g k0(1)] k0(2) by simp
  moreover have "f32_less (units s k0) f32_max" using units_max k0(2) tab(3) by (simp add: multiples_of_def)
  ultimately obtain hop c' where hop: "NextHop (n_router n) dest = Inr hop" "walk_via f32_add f32_zero (link o' ns) a hop dest c'"
      "\<And>c''. walk f32_add f32_zero (link o' ns) a dest c'' \<Longrightarrow> \<not> f32_less c'' c'"
    using routed_next_hop [OF pq _ _ _ me tab(1,2) _ dest(1)] c dest(3) by metis
  obtain k' where k': "walk (+) 0 w hop dest k'" "k' < k0" "w a hop \<noteq> None" using shortest_via_nearer [OF g hop(2,3) k0] by blast
  obtain e where "link o' ns a hop = Some e" using k'(3) by (auto simp: w_def unit_graph_def)
  then have e: "connected_at ns a hop e" by (simp add: link_connected [OF tab(1,2)])
  then obtain ses t m where ses: "session_of n hop = Some ses" "ov_peer ov a (ps_conn ses) = Some (hop, t)" "ov_node ov hop = Some m"
      "session_ready m t" using n(2) unfolding linked_def by blast
  have "hop \<in> nearer w (set (go_keys ns)) dest a"
    using dist_walk [OF k'(1)] k' e by (auto simp: nearer_def k0_def connected_at_def)
  moreover have "\<not> IP_Equal dest (n_addr n)" using dest(3) len c by (simp add: IP_Equal_def net_Equal_def)
  then have "1 < HopLimit h p \<longrightarrow>
      SendPacket h env n p = Some (emit (ConnWrite (ps_conn ses) (SetHopLimit h (HopLimit h p - 1) p)) n, None)"
    using SendPacket_forwards [of p h n hop ses env] p dest(2) n(3) hop(1) ses(1) by simp
  moreover have "k' < 2 ^ 24" using k'(2) k0(2) by simp
  ultimately show ?thesis using ses(2-4) k'(1) by blast
qed

lemma carried_on:
  assumes pq: "prio_queue pq elems qinv" and h: "ipv6_header h" and conv: "converged pq ns ov"
    and tab: "orders_ok o'" "one_cost ns" "multiples_of s ns"
    and ext: "\<And>b n. ov_node ov b = Some n \<Longrightarrow> external_route n dest = None"
    and dest: "dest \<in> set (go_keys ns)" "\<not> IsV6MulticastAddress h dest"
  defines "w \<equiv> unit_graph s (link o' ns)"
  assumes "a \<in> set (go_keys ns)" "walk (+) 0 w a dest k" "k < 2 ^ 24"
    and "40 \<le> length p" "DestinationAddress h p = dest" "Msg_Type p = MsgTypeData"
    and "card (nearer w (set (go_keys ns)) dest a) < unat (HopLimit h p)"
    and "\<And>s n. inp = Some s \<Longrightarrow> ov_node ov a = Some n \<Longrightarrow> session_ready n s"
  shows "\<exists>q. carried j h env now ov a inp p dest q \<and> same_packet p q"
  using assms(11-)
proof (induction "card (nearer w (set (go_keys ns)) dest a)" arbitrary: a p k inp rule: less_induct)
  case less
  obtain n where n: "ov_node ov a = Some n" "converged_node pq ns a n" "linked ns ov a n"
    using conv less.prems(1) by (auto simp: converged_def)
  show ?case
  proof (cases "dest = a")
    case True
    have "carried j h env now ov a inp p a p"
      by (rule carried_here [OF n(1)]) (use True less.prems n dest(2) in \<open>auto simp: converged_node_def\<close>)
    then show ?thesis using True by (auto simp: same_packet_def)
  next
    case False
    let ?p = "SetHopLimit h (HopLimit h p - 1) p"
    obtain b c t m k' where b: "1 < HopLimit h p \<longrightarrow> SendPacket h (env a) n p = Some (emit (ConnWrite c ?p) n, None)"
        "ov_peer ov a c = Some (b, t)" "ov_node ov b = Some m" "session_ready m t"
        "b \<in> nearer w (set (go_keys ns)) dest a" "walk (+) 0 w b dest k'" "k' < 2 ^ 24"
      using one_hop [OF pq n(2,3) ext [OF n(1)] tab dest False less.prems(1) less.prems(2) [unfolded w_def] less.prems(3-5), of "env a"]
      unfolding w_def [symmetric] by blast
    note card = nearer_card [OF finite_set b(5)]
    have lim: "1 < HopLimit h p" "unat (HopLimit h p - 1) = unat (HopLimit h p) - 1"
      using card less.prems(7) by (auto simp: word_less_nat_alt unat_sub word_le_nat_alt)
    note ph = hop_limit_only [OF h less.prems(4)]
    have "b \<in> set (go_keys ns)" using b(5) by (simp add: nearer_def)
    then have "\<exists>q. carried j h env now ov b (Some t) ?p dest q \<and> same_packet ?p q"
      by (rule less.hyps [OF card _ b(6,7)]) (use ph less.prems(5-7) lim(2) card b(3,4) in auto)
    then obtain q where q: "carried j h env now ov b (Some t) ?p dest q" "same_packet ?p q" by blast
    have "carried j h env now ov a inp p dest q"
      by (rule carried_over [OF n(1) mp [OF b(1) lim(1)] _ less.prems(6) b(2) q(1)]) (use less.prems(8) n(1) in blast)
    moreover have "same_packet p q" using q(2) ph(1) [of "HopLimit h p - 1"] by (simp add: same_packet_def)
    ultimately show ?thesis by blast
  qed
qed

lemma delivered:
  assumes "prio_queue pq elems qinv" "ipv6_header h" "converged pq ns ov"
    and "orders_ok o'" "one_cost ns" "multiples_of s ns"
    and "\<And>b n. ov_node ov b = Some n \<Longrightarrow> external_route n dest = None"
    and "src \<in> set (go_keys ns)" "dest \<in> set (go_keys ns)" "\<not> IsV6MulticastAddress h dest"
    and "walk f32_add f32_zero (link o' ns) src dest c" "f32_less c (units s (2 ^ 24))"
    and "40 \<le> length p" "DestinationAddress h p = dest" "Msg_Type p = MsgTypeData"
    and "card (set (go_keys ns)) \<le> unat (HopLimit h p)"
  shows "\<exists>q. carried j h env now ov src None p dest q \<and> same_packet p q"
proof -
  let ?w = "unit_graph s (link o' ns)"
  obtain k where k: "walk (+) 0 ?w src dest k" "tracks s k c"
    using walk_tracks [OF unit_graph_exact [OF assms(6,4,5)] assms(11)] by blast
  have "k < 2 ^ 24" using k(2) assms(12) by (auto simp: tracks_def split: if_splits)
  moreover have "card (nearer ?w (set (go_keys ns)) dest src) < card (set (go_keys ns))"
    by (rule psubset_card_mono) (use assms(8) in \<open>auto simp: nearer_def\<close>)
  ultimately show ?thesis
    by (intro carried_on [OF assms(1-7,9,10,8) k(1)]) (use assms(13-16) in simp_all)
qed

text \<open>
  C11. In a converged network a packet reaches its destination: when the table of the network has a way from a node to
  another one, a packet that the first node's stack sends to the second is passed from node to node, each taking it from
  a session or its stack and choosing the next hop from its own policy, until the node with the destination address hands
  it to its stack; only the hop limit has changed. The costs of links are whole multiples of a power of two, so that
  adding the costs of a way is exact, no node has an external route for the destination, and the hop limit is at least
  the number of nodes.
\<close>

theorem packet_delivered:
  assumes "prio_queue pq elems qinv" "ipv6_header h" "converged pq ns ov"
    and "orders_ok o'" "one_cost ns" "multiples_of s ns"
    and "\<And>b n. ov_node ov b = Some n \<Longrightarrow> external_route n dest = None"
    and "src \<in> set (go_keys ns)" "dest \<in> set (go_keys ns)" "\<not> IsV6MulticastAddress h dest"
    and "walk f32_add f32_zero (link o' ns) src dest c" "f32_less c (units s (2 ^ 24))"
    and "40 \<le> length p" "DestinationAddress h p = dest" "Msg_Type p = MsgTypeData"
    and "card (set (go_keys ns)) \<le> unat (HopLimit h p)"
  shows "\<exists>q. carried j h env now ov src None p dest q \<and> same_packet p q"
  by (rule delivered [OF assms])

text \<open>Three nodes in a line, each with a connected session to every other.\<close>

definition ex_line :: "(ip, RoutingConns option) gomap" where
  "ex_line =
     [(ex_ip 1, Some [(NewHostOnlySubnet (ex_ip 2), f32_one)]),
      (ex_ip 2, Some [(NewHostOnlySubnet (ex_ip 1), f32_one), (NewHostOnlySubnet (ex_ip 3), f32_one)]),
      (ex_ip 3, Some [(NewHostOnlySubnet (ex_ip 2), f32_one)])]"

definition ex_line_router :: "byte \<Rightarrow> router" where
  "ex_line_router i = the (recalculate list_pq source_order ((router_New (ex_ip i) 0)\<lparr>nodes := ex_line\<rparr>))"

definition ex_line_node :: "byte \<Rightarrow> netopus" where
  "ex_line_node i = ex_node\<lparr>n_addr := ex_ip i, n_router := ex_line_router i,
     n_sessionInfo := map (\<lambda>k. (ex_ip k, unat k)) [1, 2, 3],
     n_sessHeap := map (\<lambda>k. (unat k, ex_session\<lparr>ps_conn := unat k, ps_remoteAddr := ex_ip k\<rparr>)) [1, 2, 3]\<rparr>"

definition ex_overlay :: overlay where
  "ex_overlay = \<lparr>ov_node = map_of (map (\<lambda>i. (ex_ip i, ex_line_node i)) [1, 2, 3]),
     ov_peer = (\<lambda>a c. Some (ex_ip (of_nat c), unat (last a)))\<rparr>"

lemma ex_line_ok: "costs_ok ex_line" "nodes_ok ex_line"
  by (simp_all add: costs_ok_def nodes_ok_def ex_line_def go_wf_def f32_cost_one ex_ip_def)

lemma f32_one_units: "f32_one = units 149 1"
  by (simp add: f32_one_def units_def)

lemma ex_line_router:
  "routed list_pq (ex_line_router i)" "myAddr (ex_line_router i) = ex_ip i" "nodes (ex_line_router i) = ex_line"
proof -
  let ?r = "(router_New (ex_ip i) 0)\<lparr>nodes := ex_line\<rparr>"
  have m: "myAddr ?r = ex_ip i" "nodes ?r = ex_line" "go_wf (policy ?r)" by (simp_all add: router_New_def)
  have "ex_ip i \<noteq> []" by (simp add: ex_ip_def)
  then obtain np where "new_policy list_pq source_order (ex_ip i) ex_line = Some np"
    using lpq.new_policy_facts [OF source_order_ok ex_line_ok] by blast
  then obtain r' where r': "recalculate list_pq source_order ?r = Some r'" by (simp add: recalculate_def router_New_def)
  then have "ex_line_router i = r'" by (simp add: ex_line_router_def)
  then show "routed list_pq (ex_line_router i)" "myAddr (ex_line_router i) = ex_ip i" "nodes (ex_line_router i) = ex_line"
    using recalculate_routed [OF r' m(3) source_order_ok] recalculate_policy [OF r' m(3)] m by auto
qed

lemma ex_line_conn:
  assumes "go_get (conns_of ex_line u) k = Some e"
  shows "e = f32_one"
  using assms by (auto simp: ex_line_def conns_of_def go_get_or_def split: if_splits)

lemma ex_line_nodes: "a \<in> set (go_keys ex_line) \<Longrightarrow> \<exists>i\<in>{1, 2, 3}. a = ex_ip i"
  by (auto simp: ex_line_def)

lemma ex_ip_eq [simp]: "ex_ip i = ex_ip k \<longleftrightarrow> i = k"
  by (simp add: ex_ip_def)

lemma ex_line_session:
  assumes "i \<in> {1, 2, 3}" "k \<in> {1, 2, 3}"
  shows "session_of (ex_line_node i) (ex_ip k) = Some (ex_session\<lparr>ps_conn := unat k, ps_remoteAddr := ex_ip k\<rparr>)"
    "session_ready (ex_line_node k) (unat i)"
  using assms by (auto simp: session_of_def session_ready_def ex_line_node_def ex_session_def)

lemma ex_overlay_node: "i \<in> {1, 2, 3} \<Longrightarrow> ov_node ex_overlay (ex_ip i) = Some (ex_line_node i)"
  by (auto simp: ex_overlay_def)

lemma ex_converged: "converged list_pq ex_line ex_overlay"
  unfolding converged_def
proof (intro allI impI)
  fix a assume "a \<in> set (go_keys ex_line)"
  then obtain i where i: "i \<in> {1, 2, 3}" "a = ex_ip i" using ex_line_nodes by blast
  have "linked ex_line ex_overlay a (ex_line_node i)"
    unfolding linked_def
  proof (intro allI impI)
    fix b e assume "connected_at ex_line a b e"
    then obtain k where k: "k \<in> {1, 2, 3}" "b = ex_ip k" using ex_line_nodes by (auto simp: connected_at_def)
    have "last a = i" by (simp add: i(2) ex_ip_def)
    then show "\<exists>p s m. session_of (ex_line_node i) b = Some p \<and> ov_peer ex_overlay a (ps_conn p) = Some (b, s) \<and>
        ov_node ex_overlay b = Some m \<and> session_ready m s"
      using ex_line_session [OF i(1) k(1)] ex_overlay_node [OF k(1)] k(2) by (simp add: ex_overlay_def)
  qed
  moreover have "converged_node list_pq ex_line a (ex_line_node i)"
    using ex_line_router [of i] ex_line_ok i(2) by (simp add: converged_node_def ex_line_node_def same_table_def)
  ultimately show "\<exists>n. ov_node ex_overlay a = Some n \<and> converged_node list_pq ex_line a n \<and> linked ex_line ex_overlay a n"
    using ex_overlay_node [OF i(1)] i(2) by blast
qed

lemma ex_line_costs: "one_cost ex_line" "multiples_of 149 ex_line"
  using ex_line_conn unfolding one_cost_def multiples_of_def connected_at_def
  by (blast, fastforce simp: f32_one_units intro: exI [of _ 1])

lemma ex_line_link:
  "link source_order ex_line (ex_ip 1) (ex_ip 2) = Some f32_one" "link source_order ex_line (ex_ip 2) (ex_ip 3) = Some f32_one"
proof -
  have c: "Subnet_Contains (NewHostOnlySubnet (ex_ip i)) (ex_ip i)" for i
    using host_only_contains_iff [of "ex_ip i" "ex_ip i"] by (simp add: ex_ip_def IP_Equal_def net_Equal_def)
  have "connected_at ex_line (ex_ip 1) (ex_ip 2) f32_one" "connected_at ex_line (ex_ip 2) (ex_ip 3) f32_one"
    unfolding connected_at_def
    by (auto simp: ex_line_def conns_of_def go_get_or_def NewHostOnlySubnet_inject intro!: exI [of _ "NewHostOnlySubnet (ex_ip 2)"] exI [of _ "NewHostOnlySubnet (ex_ip 3)"] c)
  then show "link source_order ex_line (ex_ip 1) (ex_ip 2) = Some f32_one" "link source_order ex_line (ex_ip 2) (ex_ip 3) = Some f32_one"
    by (simp_all add: link_connected [OF source_order_ok ex_line_costs(1)])
qed

lemma ex_line_walk: "walk f32_add f32_zero (link source_order ex_line) (ex_ip 1) (ex_ip 3) (units 149 2)"
proof -
  have z: "f32_zero = units 149 0" by (simp add: units_def f32_zero_def)
  have a: "f32_add (units 149 0) (units 149 1) = units 149 1" "f32_add (units 149 1) (units 149 1) = units 149 2"
    using units_add [of 149 0 1] units_add [of 149 1 1] by (simp_all del: One_nat_def)
  show ?thesis
    using walk_step [where edge = "link source_order ex_line", OF walk_step [where edge = "link source_order ex_line", OF walk_start ex_line_link(1)] ex_line_link(2), of f32_add f32_zero]
    by (simp add: f32_one_units z a del: One_nat_def)
qed

theorem packet_delivered_witness:
  "\<exists>q. carried ex_json rfc_ipv6 (\<lambda>_. ex_env) (\<lambda>_. 0) ex_overlay (ex_ip 1) None (ex_packet (ex_ip 1) (ex_ip 3) 64) (ex_ip 3) q
     \<and> same_packet (ex_packet (ex_ip 1) (ex_ip 3) 64) q"
proof (rule packet_delivered [OF lpq.prio_queue_axioms rfc.ipv6_header_axioms ex_converged source_order_ok ex_line_costs _ _ _ _ ex_line_walk])
  show "external_route n (ex_ip 3) = None" if "ov_node ex_overlay b = Some n" for b n
    using that by (auto simp: ex_overlay_def external_route_def ex_line_node_def ex_node_def split: if_splits)
qed (simp_all add: ex_line_def rfc_ipv6_def ex_packet_def ex_ip_def Msg_Type_def byte_slice_def card_insert_if)

end
