(* ===== verification/Network.thy ===== *)
theory Network
  imports Delivery
begin

text \<open>
  The nodes of a network together: routing updates that are generated, flooded, read and forwarded, until tables agree
  and packets arrive.

  \<open>net_step\<close> interleaves the steps of all nodes (\<open>sess_step\<close>), which communicate through the lines that they write to
  routing streams; any line that was written can be read by any reader, at any time and any number of times, or never.
  \<open>net_inv\<close> is its invariant. The updates on the wire are in order: none is newer than the numbers its origin has
  reached, and two with equal numbers are equal. And what a node has recorded of another, in its table of known nodes and
  in its router, is an update on the wire. \<open>step_know\<close> reduces the steps of a node to the three that matter for it.

  \<open>equal_stamps_agree\<close> is the agreement that follows, and \<open>synchronised_network_delivers\<close> puts it together with the
  delivery of packets. The last section runs two nodes from their start to a synchronised state, step by step.
\<close>

section \<open>What a step does to a node's knowledge\<close>

definition route_lines :: "netopus \<Rightarrow> bytes set" where
  "route_lines n = {b. \<exists>c. RouteConnWrite c b \<in> set (n_effects n)}"

text \<open>The part of a node's state that routing updates are about.\<close>

definition know ::
    "netopus \<Rightarrow> ip \<times> 64 word \<times> 64 word \<times> (ip, nodeInfo) gomap \<times> ip \<times> (ip, RoutingConns option) gomap \<times> bytes set" where
  "know n = (n_addr n, n_epoch n, n_sequence n, n_knownNodeInfo n, myAddr (n_router n), nodes (n_router n), route_lines n)"

lemma know_fields [simp]:
  "know (n\<lparr>n_sessionInfo := x1\<rparr>) = know n" "know (n\<lparr>n_sessHeap := x2\<rparr>) = know n" "know (n\<lparr>n_externalRoutes := x3\<rparr>) = know n"
  "know (n\<lparr>n_externalNames := x4\<rparr>) = know n" "know (n\<lparr>n_updateSender := x5\<rparr>) = know n" "know (n\<lparr>n_oobPorts := x6\<rparr>) = know n"
  "know (n\<lparr>n_opcHeap := x7\<rparr>) = know n" "know (n\<lparr>n_configInfo := x8\<rparr>) = know n"
  by (simp_all add: know_def route_lines_def)

lemma know_effects [simp]:
  "know (emit (ConnWrite c b) n) = know n" "know (emit (StackSend b) n) = know n" "know (emit (OutgoingPacket k b) n) = know n"
  "know (emit (NewConfig d sig) n) = know n" "know (updateSender_RunWithin t n) = know n"
  by (simp_all add: know_def route_lines_def)

lemma know_upd [simp]: "know (upd_sess s f n) = know n" "know (upd_opc c g n) = know n" "know (opc_offer c m n) = know n"
    "know (cancel_session s n) = know n"
  by (simp_all add: upd_sess_def upd_opc_def opc_offer_def cancel_session_def split: option.split)

lemma fold_keeps: "(\<And>x m. g (f x m) = g m) \<Longrightarrow> g (fold f xs n) = g n"
  by (induction xs arbitrary: n) simp_all

lemma know_NewPacketConn [simp]: "know (fst (NewPacketConn n f a q)) = know n"
  by (simp add: NewPacketConn_def Let_def)

lemma know_SendPacket:
  assumes "SendPacket h fenv n p = Some (n', err)"
  shows "know n' = know n"
proof -
  have "know (fst res) = know n" if "SendPacket h fenv n p = Some res" for res
    using that
  proof (induction h fenv n p res rule: SendPacket.raw_induct [rotated, consumes 1, case_names step])
    case (step SendPacket' h env n packet res)
    have "know (fst r) = know n" if "SendPacket' h env (updateSender_RunWithin d n) q = Some r" for d q r
      using step(1) [OF that] by simp
    with step(2) show ?case
      by (auto simp: Let_def bind_eq_Some_conv split: if_splits option.splits sum.splits prod.splits dest!: step(1))
  qed
  from this [OF assms] show ?thesis by simp
qed

lemma know_SendOOB: "know (fst (SendOOB n m)) = know n"
  by (simp add: SendOOB_def Let_def split: option.split sum.split)

lemma know_sendInit [simp]: "know (sendInit j env s p n) = know n"
  by (simp add: sendInit_def Let_def split: sum.split option.split)

lemma know_enter: "know (initSelect_enter j env kcp s p n) = know n"
  using know_NewPacketConn [of "sendInit j env s p n" SendFuncRoutingOOB "n_addr (sendInit j env s p n)" 0]
  by (auto simp: initSelect_enter_def Let_def case_prod_beta split: sum.split)

lemma know_start [simp]: "know (start_attempt now s p peer n) = know n"
  by (simp add: start_attempt_def Let_def split: option.split)

lemma know_recv [simp]: "know (keepalive_reply j p n) = know n" "know (route_oob_recv p m n) = know n"
  by (simp_all add: keepalive_reply_def route_oob_recv_def IncomingPacket_def split: sum.split option.split)

lemma know_initSelect: "know (fst (initSelect_recv j now s p data n)) = know n"
  by (simp add: initSelect_recv_def split: sum.split any_msg.split)

lemma know_mainSelect: "mainSelect_recv j h fenv now s p data n = Some (n', b) \<Longrightarrow> know n' = know n"
  using know_SendPacket [of h fenv n data] know_SendOOB [of n]
  by (auto simp: mainSelect_recv_def split: sum.splits any_msg.splits if_splits)

lemma know_protoLoop: "protoLoop_recv j h fenv now connected s p data n = Some n' \<Longrightarrow> know n' = know n"
  using know_mainSelect [of j h fenv now s p data n] know_initSelect [of j now s p data n]
  by (cases connected) (auto simp: protoLoop_recv_def case_prod_beta split: if_splits)

lemma know_finalize [simp]: "know (finalizeConn now s k orc n) = know n"
  by (simp add: finalizeConn_def)

lemma know_attempt: "know (accept_result now s p k peer res n) = know n" "know (dial_result now later done s k peer t kcp n) = know n"
  using know_NewPacketConn [of n SendFuncRoutingOOB "n_addr n" 0]
  by (simp_all add: accept_result_def dial_result_def Let_def case_prod_beta split: sum.split)

lemma know_tick: "know (keepalive_tick j now s p n) = know n"
  by (simp add: keepalive_tick_def Let_def split: sum.split)

lemma know_session: "know (fst (RunProtocol_start cost conn srv n)) = know n" "know (RunProtocol_end s n) = know n"
    "know (route_timer_fires s k n) = know n" "know (routerUpdate_recv n) = know n"
  by (simp_all add: RunProtocol_start_def RunProtocol_end_def route_timer_fires_def routerUpdate_recv_def Let_def fold_keeps)

lemma know_admin: "know (AddExternalRoute n name dest cost opf) = know n" "know (DelExternalRoute n name) = know n"
    "know (AddExternalName n name a) = know n" "know (DelExternalName n name) = know n"
    "know (UpdateConfig n cfg sig version) = know n" "know (opc_Close c n) = know n"
  by (simp_all add: AddExternalRoute_def DelExternalRoute_def AddExternalName_def DelExternalName_def UpdateConfig_def
      opc_Close_def Let_def split: option.split)

lemma know_recalculate: "recalculate pq o' (n_router n) = Some r \<Longrightarrow> know (n\<lparr>n_router := r\<rparr>) = know n"
  by (auto simp: recalculate_def know_def route_lines_def split: option.splits)

lemma know_NewOOB: "NewOOBPacketConn rnd n port = Some (Inr (n', c)) \<Longrightarrow> know n' = know n"
  by (auto simp: NewOOBPacketConn_def Let_def bind_eq_Some_conv split: if_splits)

text \<open>Of all the steps only three change it: an update that is accepted, one that is generated, and a round of \<open>monitorDeadNodes\<close>.\<close>

lemma step_know:
  assumes "sess_step pq j uj h rx n n'"
  obtains (Quiet) "know n' = know n"
  | (Learn) b ru now r en ex where "b \<in> rx" "dec_update uj b = Inr ru" "fresh n ru"
      "UpdateNode (n_router n) (Origin ru) (Connections ru) = Inr r"
      "know n' = know (floodRoutingUpdate uj ru ex ((fst (handleRoutingUpdate now ru n))\<lparr>n_router := r, n_externalNames := en\<rparr>))"
  | (Announce) "updateSender_run uj n = Inr n'"
  | (Forget) now where "n' = monitorDeadNodes_round now n"
  using assms
proof (cases rule: sess_step.cases)
  case (st_reader s p line now m go)
  show ?thesis
  proof (cases "\<exists>b ru. line = Inr b \<and> dec_update uj b = Inr ru \<and> \<not> ps_done p \<and> fresh n ru")
    case True
    then obtain b ru where b: "line = Inr b" "dec_update uj b = Inr ru" "\<not> ps_done p" "fresh n ru" by blast
    let ?m = "fst (handleRoutingUpdate now ru n)"
    obtain r en where r: "UpdateNode (n_router ?m) (Origin ru) (Connections ru) = Inr r"
        "m = floodRoutingUpdate uj ru (Some (ps_remoteAddr p)) (?m\<lparr>n_router := r, n_externalNames := en\<rparr>)" "go"
      using st_reader(5) b handle_accepts [of now ru n]
      by (auto simp: routeReader_step_def Let_def case_prod_beta split: sum.splits)
    show ?thesis
    proof (rule Learn)
      show "b \<in> rx" using st_reader(4) b(1) by simp
      show "UpdateNode (n_router n) (Origin ru) (Connections ru) = Inr r" using r(1) handle_state(3) [OF b(4)] by simp
      show "know n' = know (floodRoutingUpdate uj ru (Some (ps_remoteAddr p)) (?m\<lparr>n_router := r, n_externalNames := en\<rparr>))"
        using st_reader(1) r by simp
    qed (use b in blast)+
  next
    case False
    then have "know m = know n"
      using st_reader(5) handle_accepts [of now _ n] handle_rejects [of n _ now]
      by (auto simp: routeReader_step_def Let_def case_prod_beta split: sum.splits if_splits)
    then show ?thesis using st_reader(1) Quiet by simp
  qed
next
  case (st_stack fenv d packet go)
  then show ?thesis using know_SendPacket Quiet by (auto simp: netStackReadLoop_step_def)
next
  case (st_read d res s)
  then show ?thesis using Quiet by (simp add: backendReadLoop_step_def split: sum.splits if_splits)
next
  case (st_send_oob m err)
  then show ?thesis using Quiet know_SendOOB [of n m] by simp
qed (use Quiet Announce Forget know_enter know_protoLoop know_attempt know_session know_tick know_admin know_recalculate
    know_SendPacket know_NewOOB know_upd in metis)+

section \<open>Tables of connections\<close>

text \<open>Two routing connection maps with the same contents, and the maps and tables that Go can have.\<close>

definition same_conns :: "RoutingConns option \<Rightarrow> RoutingConns option \<Rightarrow> bool" where
  "same_conns a b \<longleftrightarrow> map_option go_get a = map_option go_get b"

definition conns_wf :: "RoutingConns option \<Rightarrow> bool" where
  "conns_wf a = (case a of None \<Rightarrow> True | Some cs \<Rightarrow> go_wf cs)"

definition table_wf :: "(ip, RoutingConns option) gomap \<Rightarrow> bool" where
  "table_wf ns \<longleftrightarrow> go_wf ns \<and> (\<forall>a e. go_get ns a = Some e \<longrightarrow> conns_wf e)"

lemma f32_eq_imp: "f32_eq x y \<Longrightarrow> x = y"
  by (cases x; cases y) simp_all

lemma gomap_eqI:
  assumes wf: "go_wf x" "go_wf y" and len: "length x = length y" and sub: "set x \<subseteq> set y"
  shows "go_get x = go_get y"
proof -
  have "card (set x) = length x" "card (set y) = length y"
    using wf by (simp_all add: go_wf_def distinct_map distinct_card)
  then have "set x = set y" using len sub by (metis card_subset_eq finite_set)
  then have "go_get x k = Some v \<longleftrightarrow> go_get y k = Some v" for k v using go_get_Some_iff wf by metis
  then show ?thesis by (metis ext option.exhaust)
qed

lemma DeepEqual_same:
  assumes "DeepEqual_conns a b" "conns_wf a" "conns_wf b"
  shows "same_conns a b"
proof (cases "a = None")
  case True
  then show ?thesis using assms(1) by (cases b) (simp_all add: DeepEqual_conns_def same_conns_def)
next
  case False
  then obtain x y where xy: "a = Some x" "b = Some y" using assms(1) by (cases a; cases b) (simp_all add: DeepEqual_conns_def)
  then have wf: "go_wf x" "go_wf y" and len: "length x = length y" using assms by (simp_all add: DeepEqual_conns_def conns_wf_def)
  have "(k, v) \<in> set y" if "(k, v) \<in> set x" for k v
  proof -
    have "case go_get y k of None \<Rightarrow> False | Some u \<Rightarrow> f32_eq v u"
      using assms(1) that by (auto simp: xy DeepEqual_conns_def list_all_iff)
    then show ?thesis using go_get_Some_iff [OF wf(2)] f32_eq_imp by (auto split: option.splits)
  qed
  then have "go_get x = go_get y" by (intro gomap_eqI [OF wf len]) auto
  then show ?thesis by (simp add: xy same_conns_def)
qed

text \<open>\<open>UpdateNode\<close> skips maps that are deeply equal to what it has; the entry has the new contents either way.\<close>

lemma UpdateNode_table:
  assumes "UpdateNode r a conns = Inr r'" "table_wf (nodes r)" "conns_wf conns" "conns \<noteq> None"
  shows "table_wf (nodes r')" "myAddr r' = myAddr r" "b \<noteq> a \<Longrightarrow> go_get (nodes r') b = go_get (nodes r) b"
    "\<exists>e. go_get (nodes r') a = Some e \<and> same_conns e conns"
proof -
  have eq: "\<exists>e. go_get (nodes r) a = Some e \<and> same_conns e conns" if "DeepEqual_conns (go_get_or None (nodes r) a) conns"
    using DeepEqual_same [OF that] assms(2-4) that
    by (cases "go_get (nodes r) a") (auto simp: go_get_or_def DeepEqual_conns_def table_wf_def)
  have "table_wf (nodes r') \<and> myAddr r' = myAddr r \<and> (b \<noteq> a \<longrightarrow> go_get (nodes r') b = go_get (nodes r) b) \<and>
      (\<exists>e. go_get (nodes r') a = Some e \<and> same_conns e conns)"
  proof (cases "DeepEqual_conns (go_get_or None (nodes r) a) conns")
    case True
    then have "r' = r" using assms(1) by (simp add: UpdateNode_def split: if_splits)
    then show ?thesis using eq [OF True] assms(2) by simp
  next
    case False
    then have r': "nodes r' = go_set (nodes r) a conns" "myAddr r' = myAddr r"
      using assms(1) by (auto simp: UpdateNode_def split: if_splits)
    have "go_wf (go_set (nodes r) a conns)" "go_get (go_set (nodes r) a conns) z = Some e \<Longrightarrow> conns_wf e" for z e
      using assms(2,3) by (auto simp: table_wf_def gomap_simps split: if_splits)
    then show ?thesis unfolding r' table_wf_def by (simp add: gomap_simps same_conns_def)
  qed
  then show "table_wf (nodes r')" "myAddr r' = myAddr r" "b \<noteq> a \<Longrightarrow> go_get (nodes r') b = go_get (nodes r) b"
    "\<exists>e. go_get (nodes r') a = Some e \<and> same_conns e conns" by blast+
qed

lemma own_conns_wf: "go_wf (own_conns n)"
  unfolding own_conns_entries by (rule gm.inv_fold_put) simp

section \<open>Updates on the wire\<close>

definition same_update :: "RoutingUpdate \<Rightarrow> RoutingUpdate \<Rightarrow> bool" where
  "same_update u v \<longleftrightarrow> Origin u = Origin v \<and> NodeName u = NodeName v \<and> UpdateEpoch u = UpdateEpoch v
     \<and> UpdateSequence u = UpdateSequence v \<and> same_conns (Connections u) (Connections v)
     \<and> go_get (Names u) = go_get (Names v) \<and> ConfigVersion u = ConfigVersion v \<and> ConfigData u = ConfigData v
     \<and> ConfigSignature u = ConfigSignature v"

lemma same_update_refl [simp]: "same_update u u"
  by (simp add: same_update_def same_conns_def)

lemma same_update_sym: "same_update u v \<Longrightarrow> same_update v u"
  by (simp add: same_update_def same_conns_def)

lemma same_update_trans: "same_update u v \<Longrightarrow> same_update v x \<Longrightarrow> same_update u x"
  by (simp add: same_update_def same_conns_def)

lemma same_update_stamp: "same_update u v \<Longrightarrow> ru_stamp u = ru_stamp v \<and> Origin u = Origin v"
  by (simp add: same_update_def ru_stamp_def)

text \<open>
  What is relied on of the JSON coding of updates: what it decodes has Go maps in it, and decoding a line that encodes an
  update gives the same update, for the updates \<open>repr\<close> that JSON represents (their names are valid text, their subnets
  have prefix masks, their times are in the range of RFC 3339).
\<close>

definition codec_ok :: "update_codec \<Rightarrow> (RoutingUpdate \<Rightarrow> bool) \<Rightarrow> bool" where
  "codec_ok uj repr \<longleftrightarrow>
     (\<forall>b u. dec_update uj b = Inr u \<longrightarrow> conns_wf (Connections u)) \<and>
     (\<forall>u b. repr u \<longrightarrow> enc_update uj u = Inr b \<longrightarrow> (\<exists>v. dec_update uj (b @ [10]) = Inr v \<and> same_update u v \<and> repr v))"

definition sent :: "update_codec \<Rightarrow> bytes set \<Rightarrow> RoutingUpdate \<Rightarrow> bool" where
  "sent uj w u \<longleftrightarrow> (\<exists>b\<in>w. dec_update uj b = Inr u)"

text \<open>Flooding an update adds at most the line that encodes it.\<close>

lemma flood_lines:
  "n_addr (floodRoutingUpdate uj u ex n) = n_addr n" "n_epoch (floodRoutingUpdate uj u ex n) = n_epoch n"
  "n_sequence (floodRoutingUpdate uj u ex n) = n_sequence n"
  "route_lines (floodRoutingUpdate uj u ex n) \<subseteq> route_lines n \<union> {b @ [10] | b. enc_update uj u = Inr b}"
proof -
  have "n_addr (floodRoutingUpdate uj u ex n) = n_addr n \<and> n_epoch (floodRoutingUpdate uj u ex n) = n_epoch n
     \<and> n_sequence (floodRoutingUpdate uj u ex n) = n_sequence n
     \<and> route_lines (floodRoutingUpdate uj u ex n) \<subseteq> route_lines n \<union> {b @ [10] | b. enc_update uj u = Inr b}"
  proof (cases "enc_update uj u")
    case (Inl err)
    have "fold (flood_session uj u ex) xs m = m" for xs m
      by (induction xs) (auto simp: flood_session_def Inl split: option.split)
    then show ?thesis by (simp add: floodRoutingUpdate_def)
  next
    case (Inr b)
    then show ?thesis by (auto simp: flood_effects [OF Inr] route_lines_def)
  qed
  then show "n_addr (floodRoutingUpdate uj u ex n) = n_addr n" "n_epoch (floodRoutingUpdate uj u ex n) = n_epoch n"
    "n_sequence (floodRoutingUpdate uj u ex n) = n_sequence n"
    "route_lines (floodRoutingUpdate uj u ex n) \<subseteq> route_lines n \<union> {b @ [10] | b. enc_update uj u = Inr b}" by blast+
qed

lemma sent_grow:
  assumes "codec_ok uj repr" "repr u" "w' \<subseteq> w \<union> {b @ [10] | b. enc_update uj u = Inr b}" "sent uj w' v"
  shows "sent uj w v \<or> (same_update u v \<and> repr v)"
proof -
  from assms(4) obtain b where b: "b \<in> w'" "dec_update uj b = Inr v" by (auto simp: sent_def)
  show ?thesis
  proof (cases "b \<in> w")
    case False
    then obtain b0 where "b = b0 @ [10]" "enc_update uj u = Inr b0" using assms(3) b(1) by blast
    then obtain v' where "dec_update uj b = Inr v'" "same_update u v'" "repr v'" using assms(1,2) unfolding codec_ok_def by blast
    then show ?thesis using b(2) by simp
  qed (use b(2) in \<open>auto simp: sent_def\<close>)
qed

section \<open>The network\<close>

text \<open>
  The nodes that are running, and the lines that were written to any routing stream. A node takes a step of its own, where
  its readers may read any line that was written; what it writes is added. A node can stop, and can be started, again or
  for the first time, with an epoch (its clock) after the epochs of all updates that it has sent before. A step is taken
  only while the sequence number has not reached its maximum, and only with contents that JSON represents.
\<close>

record network =
  nt_node :: "ip \<Rightarrow> netopus option"
  nt_lines :: "bytes set"

inductive net_step :: "'q pq_ops \<Rightarrow> json_codec \<Rightarrow> update_codec \<Rightarrow> ipv6_ops \<Rightarrow> (RoutingUpdate \<Rightarrow> bool) \<Rightarrow>
    network \<Rightarrow> network \<Rightarrow> bool" for pq j uj h repr where
  net_start: "netopus_New a name opts stack now = Inr n \<Longrightarrow>
    (\<forall>u. sent uj (nt_lines N) u \<longrightarrow> Origin u = a \<longrightarrow> UpdateEpoch u < now) \<Longrightarrow>
    net_step pq j uj h repr N (N\<lparr>nt_node := (nt_node N)(a := Some n)\<rparr>)"
| net_stop: "net_step pq j uj h repr N (N\<lparr>nt_node := (nt_node N)(a := None)\<rparr>)"
| net_node: "nt_node N a = Some n \<Longrightarrow> n_sequence n \<noteq> - 1 \<Longrightarrow> repr (snd (generateRoutingUpdate n)) \<Longrightarrow>
    sess_step pq j uj h (nt_lines N) n n' \<Longrightarrow>
    net_step pq j uj h repr N (N\<lparr>nt_node := (nt_node N)(a := Some n'), nt_lines := nt_lines N \<union> route_lines n'\<rparr>)"

definition net_empty :: network where
  "net_empty = \<lparr>nt_node = \<lambda>_. None, nt_lines = {}\<rparr>"

section \<open>The invariant of the network\<close>

text \<open>What a node has recorded of an update: its table entry, and the information about the origin.\<close>

definition holds :: "netopus \<Rightarrow> RoutingUpdate \<Rightarrow> bool" where
  "holds n u \<longleftrightarrow> (\<exists>e. go_get (nodes (n_router n)) (Origin u) = Some e \<and> same_conns e (Connections u))"

definition recorded :: "nodeInfo \<Rightarrow> RoutingUpdate \<Rightarrow> bool" where
  "recorded ni u \<longleftrightarrow> ni_name ni = NodeName u \<and> ni_epoch ni = UpdateEpoch u \<and> ni_sequence ni = UpdateSequence u
     \<and> ni_configVersion ni = ConfigVersion u"

definition own_stamp :: "netopus \<Rightarrow> 64 word \<times> 64 word" where
  "own_stamp n = (n_epoch n, n_sequence n)"

definition node_know :: "update_codec \<Rightarrow> bytes set \<Rightarrow> ip \<Rightarrow> netopus \<Rightarrow> bool" where
  "node_know uj w a n \<longleftrightarrow>
     n_addr n = a \<and> myAddr (n_router n) = a \<and> length a = 16 \<and> route_lines n \<subseteq> w \<and> table_wf (nodes (n_router n)) \<and>
     (\<forall>z ni. go_get (n_knownNodeInfo n) z = Some ni \<longrightarrow>
        z \<noteq> a \<and> (\<exists>u. sent uj w u \<and> Origin u = z \<and> recorded ni u \<and> holds n u)) \<and>
     (\<forall>z. z \<noteq> a \<longrightarrow> go_get (n_knownNodeInfo n) z = None \<longrightarrow> go_get (nodes (n_router n)) z = None) \<and>
     (\<forall>u. sent uj w u \<longrightarrow> Origin u = a \<longrightarrow> ru_stamp u = own_stamp n \<longrightarrow> holds n u)"

text \<open>
  The updates that were sent: none is newer than the current stamp of its origin, and two with the same origin and stamp
  are the same.
\<close>

definition log_ok :: "update_codec \<Rightarrow> (RoutingUpdate \<Rightarrow> bool) \<Rightarrow> bytes set \<Rightarrow> (ip \<Rightarrow> netopus option) \<Rightarrow> bool" where
  "log_ok uj repr w net \<longleftrightarrow>
     (\<forall>u. sent uj w u \<longrightarrow> repr u \<and> length (Origin u) = 16 \<and> Connections u \<noteq> None \<and>
        (\<forall>n. net (Origin u) = Some n \<longrightarrow> \<not> newer (ru_stamp u) (own_stamp n))) \<and>
     (\<forall>u v. sent uj w u \<longrightarrow> sent uj w v \<longrightarrow> Origin u = Origin v \<longrightarrow> ru_stamp u = ru_stamp v \<longrightarrow> same_update u v)"

definition net_inv :: "update_codec \<Rightarrow> (RoutingUpdate \<Rightarrow> bool) \<Rightarrow> network \<Rightarrow> bool" where
  "net_inv uj repr N \<longleftrightarrow> log_ok uj repr (nt_lines N) (nt_node N) \<and>
     (\<forall>a n. nt_node N a = Some n \<longrightarrow> node_know uj (nt_lines N) a n)"

lemma log_okD:
  assumes "log_ok uj repr w net" "sent uj w u"
  shows "repr u" "length (Origin u) = 16" "Connections u \<noteq> None" "net (Origin u) = Some n \<Longrightarrow> \<not> newer (ru_stamp u) (own_stamp n)"
    "sent uj w v \<Longrightarrow> Origin u = Origin v \<Longrightarrow> ru_stamp u = ru_stamp v \<Longrightarrow> same_update u v"
  using assms unfolding log_ok_def by blast+

lemma holds_cong: "same_update u v \<Longrightarrow> holds n u = holds n v"
  by (simp add: holds_def same_update_def same_conns_def)

lemma node_know_cong:
  assumes "know n = know n'"
  shows "node_know uj w a n = node_know uj w a n'" "own_stamp n = own_stamp n'"
  using assms by (simp_all add: node_know_def know_def holds_def own_stamp_def)

lemma node_know_mono:
  assumes "node_know uj w a n" "w \<subseteq> w'"
    and "\<And>u. sent uj w' u \<Longrightarrow> Origin u = a \<Longrightarrow> ru_stamp u = own_stamp n \<Longrightarrow> \<exists>v. sent uj w v \<and> same_update v u"
  shows "node_know uj w' a n"
proof -
  have m: "sent uj w u \<Longrightarrow> sent uj w' u" for u using assms(2) by (auto simp: sent_def)
  have "holds n u" if u: "sent uj w' u" "Origin u = a" "ru_stamp u = own_stamp n" for u
  proof -
    obtain v where v: "sent uj w v" "same_update v u" using assms(3) [OF u] by blast
    then have "holds n v" using assms(1) same_update_stamp [OF v(2)] u by (simp add: node_know_def)
    then show ?thesis using holds_cong [OF v(2)] by simp
  qed
  with assms(1,2) show ?thesis unfolding node_know_def by (blast intro: m)
qed

lemma stamp_step:
  assumes "n_sequence n \<noteq> - 1"
  shows "newer (n_epoch n, n_sequence n + 1) (own_stamp n)" "\<not> newer st (own_stamp n) \<Longrightarrow> \<not> newer st (n_epoch n, n_sequence n + 1)"
proof -
  have "unat (1 + n_sequence n) = Suc (unat (n_sequence n))"
    by (rule unatSuc) (use assms in \<open>metis add_eq_0_iff\<close>)
  then have "n_sequence n < n_sequence n + 1" by (simp add: word_less_nat_alt add.commute)
  then show "newer (n_epoch n, n_sequence n + 1) (own_stamp n)" "\<not> newer st (own_stamp n) \<Longrightarrow> \<not> newer st (n_epoch n, n_sequence n + 1)"
    by (auto simp: newer_def own_stamp_def)
qed

text \<open>Sending an update, a new one or again, keeps the log in order.\<close>

lemma log_grow:
  assumes codec: "codec_ok uj repr" and log: "log_ok uj repr w net"
    and u: "repr u" "length (Origin u) = 16" "Connections u \<noteq> None"
    and w': "w' \<subseteq> w \<union> {b @ [10] | b. enc_update uj u = Inr b}"
    and stamps: "\<And>v n. sent uj w v \<or> v = u \<Longrightarrow> net' (Origin v) = Some n \<Longrightarrow> \<not> newer (ru_stamp v) (own_stamp n)"
    and same: "\<And>v. sent uj w v \<Longrightarrow> Origin v = Origin u \<Longrightarrow> ru_stamp v = ru_stamp u \<Longrightarrow> same_update u v"
  shows "log_ok uj repr w' net'"
proof -
  have old: "\<exists>v'. (sent uj w v' \<or> v' = u) \<and> same_update v' v \<and> repr v" if "sent uj w' v" for v
    using sent_grow [OF codec u(1) w' that]
  proof
    assume "sent uj w v"
    then show ?thesis using log_okD(1) [OF log] by (intro exI [of _ v]) simp
  qed auto
  have "repr v \<and> length (Origin v) = 16 \<and> Connections v \<noteq> None \<and>
      (\<forall>n. net' (Origin v) = Some n \<longrightarrow> \<not> newer (ru_stamp v) (own_stamp n))" if vs: "sent uj w' v" for v
  proof -
    obtain v' where v': "sent uj w v' \<or> v' = u" "same_update v' v" "repr v" using old [OF vs] by blast
    have "length (Origin v') = 16" "Connections v' \<noteq> None" using v'(1) log_okD(2,3) [OF log] u by blast+
    then show ?thesis using v'(3) stamps [OF v'(1)] same_update_stamp [OF v'(2)] v'(2)
      by (cases "Connections v") (auto simp: same_update_def same_conns_def)
  qed
  moreover have "same_update v x" if vx: "sent uj w' v" "sent uj w' x" "Origin v = Origin x" "ru_stamp v = ru_stamp x" for v x
  proof -
    obtain v' x' where v': "sent uj w v' \<or> v' = u" "same_update v' v" and x': "sent uj w x' \<or> x' = u" "same_update x' x"
      using old [OF vx(1)] old [OF vx(2)] by blast
    have o: "Origin v' = Origin x'" and r: "ru_stamp v' = ru_stamp x'"
      using same_update_stamp [OF v'(2)] same_update_stamp [OF x'(2)] vx(3,4) by simp_all
    from v'(1) x'(1) have "same_update v' x'"
    proof (elim disjE)
      assume "sent uj w v'" "sent uj w x'"
      then show ?thesis using log_okD(5) [OF log _ _ o r] by blast
    next
      assume s: "sent uj w v'" "x' = u"
      then show ?thesis using same [OF s(1)] o r same_update_sym by simp
    next
      assume s: "v' = u" "sent uj w x'"
      then show ?thesis using same [OF s(2)] o r by simp
    qed simp
    then show ?thesis using same_update_trans [OF same_update_sym [OF v'(2)]] same_update_trans [OF _ x'(2)] by blast
  qed
  ultimately show ?thesis unfolding log_ok_def by blast
qed

text \<open>Learning an update.\<close>

lemma learn_know:
  assumes k: "node_know uj w a n" and codec: "codec_ok uj repr" and log: "log_ok uj repr w net"
    and u: "sent uj w u" "fresh n u" and r: "UpdateNode (n_router n) (Origin u) (Connections u) = Inr r"
    and n': "know n' = know (floodRoutingUpdate uj u ex ((fst (handleRoutingUpdate now u n))\<lparr>n_router := r, n_externalNames := en\<rparr>))"
  shows "node_know uj (w \<union> route_lines n') a n'" "own_stamp n' = own_stamp n"
    "w \<union> route_lines n' \<subseteq> w \<union> {b @ [10] | b. enc_update uj u = Inr b}"
proof -
  let ?m = "fst (handleRoutingUpdate now u n)"
  have wf: "conns_wf (Connections u)" using u(1) codec by (auto simp: sent_def codec_ok_def)
  note tab = UpdateNode_table [OF r _ wf log_okD(3) [OF log u(1)]]
  have m: "n_epoch ?m = n_epoch n" "n_sequence ?m = n_sequence n" "route_lines ?m = route_lines n"
    using handle_accepts [of now u n] u(2) by (auto simp: handleRoutingUpdate_def Let_def route_lines_def split: if_splits)
  note s = flood_lines [of uj u ex "?m\<lparr>n_router := r, n_externalNames := en\<rparr>"]
  have f: "n_addr n' = n_addr n" "nodes (n_router n') = nodes r" "myAddr (n_router n') = myAddr r"
      "n_knownNodeInfo n' = n_knownNodeInfo ?m" "n_epoch n' = n_epoch n" "n_sequence n' = n_sequence n"
      "route_lines n' \<subseteq> route_lines n \<union> {b @ [10] | b. enc_update uj u = Inr b}"
    using n' s handle_state(2) [OF u(2)] m by (simp_all add: know_def route_lines_def)
  show st: "own_stamp n' = own_stamp n" using f by (simp add: own_stamp_def)
  have wk: "route_lines n \<subseteq> w" "n_addr n = a" "table_wf (nodes (n_router n))" "myAddr (n_router n) = a" "length a = 16"
    using k by (simp_all add: node_know_def)
  show w': "w \<union> route_lines n' \<subseteq> w \<union> {b @ [10] | b. enc_update uj u = Inr b}" using f(7) wk(1) by blast
  have ne: "Origin u \<noteq> a" using u(2) wk(2) by (auto simp: fresh_def)
  note tab = tab(1,2) [OF wk(3)] tab(3,4) [OF wk(3)]
  have hold: "holds n' v = holds n v" if "Origin v \<noteq> Origin u" for v using tab(3) [OF that] f(2) by (simp add: holds_def)
  have kn: "n_knownNodeInfo n' = go_set (n_knownNodeInfo n) (Origin u)
      \<lparr>ni_name = NodeName u, ni_epoch = UpdateEpoch u, ni_sequence = UpdateSequence u, ni_configVersion = ConfigVersion u, ni_lastUpdate = now\<rparr>"
    using f(4) handle_state(1) [OF u(2)] by simp
  have "z \<noteq> a \<and> (\<exists>v. sent uj w v \<and> Origin v = z \<and> recorded ni v \<and> holds n' v)" if "go_get (n_knownNodeInfo n') z = Some ni" for z ni
  proof (cases "z = Origin u")
    case True
    then show ?thesis using that ne u(1) tab(4) f(2) by (auto simp: kn gomap_simps recorded_def holds_def)
  next
    case False
    then have "go_get (n_knownNodeInfo n) z = Some ni" using that by (simp add: kn gomap_simps)
    then show ?thesis using k hold False unfolding node_know_def by metis
  qed
  moreover have "go_get (nodes (n_router n')) z = None" if "z \<noteq> a" "go_get (n_knownNodeInfo n') z = None" for z
    using that k tab(3) [of z] f(2) unfolding node_know_def by (auto simp: kn gomap_simps split: if_splits)
  moreover have "holds n' v" if v: "sent uj (w \<union> route_lines n') v" "Origin v = a" "ru_stamp v = own_stamp n'" for v
  proof -
    have "sent uj w v"
      using sent_grow [OF codec log_okD(1) [OF log u(1)] w' v(1)] ne v(2) same_update_stamp [of u v] by auto
    then show ?thesis using k hold [of v] ne v st unfolding node_know_def by auto
  qed
  moreover have "sent uj (w \<union> route_lines n') v" if "sent uj w v" for v using that by (auto simp: sent_def)
  ultimately show "node_know uj (w \<union> route_lines n') a n'"
    unfolding node_know_def using wk(2,4,5) f(1-3) tab(1,2) by (metis sup_ge2)
qed

text \<open>Generating an update.\<close>

lemma announce_know:
  assumes k: "node_know uj w a n" and codec: "codec_ok uj repr" and log: "log_ok uj repr w net" and net: "net a = Some n"
    and run: "updateSender_run uj n = Inr n'" "n_sequence n \<noteq> - 1" and repr: "repr (snd (generateRoutingUpdate n))"
  defines "u \<equiv> snd (generateRoutingUpdate n)"
  shows "node_know uj (w \<union> route_lines n') a n'" "own_stamp n' = ru_stamp u" "ru_stamp u = (n_epoch n, n_sequence n + 1)" "Origin u = a"
    "Connections u \<noteq> None" "w \<union> route_lines n' \<subseteq> w \<union> {b @ [10] | b. enc_update uj u = Inr b}"
proof -
  have wk: "route_lines n \<subseteq> w" "n_addr n = a" "table_wf (nodes (n_router n))" "myAddr (n_router n) = a" "length a = 16"
    using k by (simp_all add: node_know_def)
  have u: "Origin u = a" "Connections u = Some (own_conns n)" "ru_stamp u = (n_epoch n, n_sequence n + 1)"
    using wk(2) by (simp_all add: u_def generateRoutingUpdate_def Let_def ru_stamp_def)
  then show "Origin u = a" "Connections u \<noteq> None" "ru_stamp u = (n_epoch n, n_sequence n + 1)" by simp_all
  obtain r where r: "UpdateNode (n_router n) a (Connections u) = Inr r"
      "n' = floodRoutingUpdate uj u None (n\<lparr>n_sequence := n_sequence n + 1, n_router := r\<rparr>)"
    using run(1) wk(2) by (auto simp: updateSender_run_def generateRoutingUpdate_def Let_def u_def split: sum.splits)
  have wf: "conns_wf (Connections u)" using own_conns_wf by (simp add: u(2) conns_wf_def)
  note tab = UpdateNode_table [OF r(1) wk(3) wf] u(2)
  note s = flood_lines [of uj u None "n\<lparr>n_sequence := n_sequence n + 1, n_router := r\<rparr>"]
  have f: "n_addr n' = a" "n_router n' = r" "n_knownNodeInfo n' = n_knownNodeInfo n" "own_stamp n' = ru_stamp u"
      "route_lines n' \<subseteq> route_lines n \<union> {b @ [10] | b. enc_update uj u = Inr b}"
    using s wk(2) r(2) by (simp_all add: own_stamp_def u(3) route_lines_def)
  show "own_stamp n' = ru_stamp u" by (rule f(4))
  show w': "w \<union> route_lines n' \<subseteq> w \<union> {b @ [10] | b. enc_update uj u = Inr b}" using f(5) wk(1) by blast
  have hold: "holds n' v = holds n v" if "Origin v \<noteq> a" for v using tab(3) [of "Origin v"] that f(2) u(2) by (simp add: holds_def)
  have own: "holds n' u" using tab(4) u f(2) by (simp add: holds_def)
  have m: "sent uj (w \<union> route_lines n') v" if "sent uj w v" for v using that by (auto simp: sent_def)
  have "z \<noteq> a \<and> (\<exists>v. sent uj (w \<union> route_lines n') v \<and> Origin v = z \<and> recorded ni v \<and> holds n' v)"
    if "go_get (n_knownNodeInfo n') z = Some ni" for z ni
    using that k hold m f(3) unfolding node_know_def by metis
  moreover have "go_get (nodes (n_router n')) z = None" if "z \<noteq> a" "go_get (n_knownNodeInfo n') z = None" for z
    using that k tab(3) [of z] u(2) f(2,3) unfolding node_know_def by auto
  moreover have "holds n' v" if v: "sent uj (w \<union> route_lines n') v" "Origin v = a" "ru_stamp v = own_stamp n'" for v
  proof -
    have "newer (ru_stamp v) (own_stamp n)" using v(3) f(4) u(3) stamp_step(1) [OF run(2)] by simp
    then have "\<not> sent uj w v" using log_okD(4) [OF log] net v(2) by blast
    then show ?thesis using sent_grow [OF codec repr [folded u_def] w' v(1)] own holds_cong by blast
  qed
  ultimately show "node_know uj (w \<union> route_lines n') a n'"
    unfolding node_know_def using wk(4,5) f(1,2) tab(1,2) u(2) by (metis option.distinct(1) sup_ge2)
qed

text \<open>Forgetting dead nodes.\<close>

lemma forget_know:
  assumes "node_know uj w a n"
  shows "node_know uj w a (monitorDeadNodes_round now n)" "own_stamp (monitorDeadNodes_round now n) = own_stamp n"
    "route_lines (monitorDeadNodes_round now n) = route_lines n"
proof -
  let ?f = "\<lambda>(z, info) n. if ni_lastUpdate info < now - 60 * second
         then n\<lparr>n_knownNodeInfo := go_del (n_knownNodeInfo n) z, n_router := RemoveNode (n_router n) z\<rparr> else n"
  have one: "node_know uj w a (m\<lparr>n_knownNodeInfo := go_del (n_knownNodeInfo m) z, n_router := RemoveNode (n_router m) z\<rparr>)"
    (is "node_know uj w a ?m'") if m: "node_know uj w a m" "z \<noteq> a" for m z
  proof -
    have hold: "holds ?m' v = holds m v" if "Origin v \<noteq> z" for v using that by (simp add: holds_def RemoveNode_get)
    have "y \<noteq> a \<and> (\<exists>v. sent uj w v \<and> Origin v = y \<and> recorded ni v \<and> holds ?m' v)" if "go_get (n_knownNodeInfo ?m') y = Some ni" for y ni
    proof -
      have "y \<noteq> z" "go_get (n_knownNodeInfo m) y = Some ni" using that by (auto simp: gomap_simps split: if_splits)
      then show ?thesis using m(1) hold unfolding node_know_def by metis
    qed
    moreover have "holds ?m' v" if "sent uj w v" "Origin v = a" "ru_stamp v = own_stamp ?m'" for v
      using that hold [of v] m by (simp add: node_know_def own_stamp_def)
    moreover have "table_wf (nodes (n_router ?m'))"
      using m(1) by (auto simp: node_know_def table_wf_def RemoveNode_def gomap_simps split: if_splits)
    moreover have "n_addr ?m' = a" "myAddr (n_router ?m') = a" "length a = 16" "route_lines ?m' \<subseteq> w"
      "\<And>y. y \<noteq> a \<Longrightarrow> go_get (n_knownNodeInfo ?m') y = None \<Longrightarrow> go_get (nodes (n_router ?m')) y = None"
      using m by (auto simp: node_know_def gomap_simps RemoveNode_get route_lines_def split: if_splits)
    ultimately show ?thesis unfolding node_know_def by blast
  qed
  have "node_know uj w a (fold ?f xs m)" if "\<And>z i. (z, i) \<in> set xs \<Longrightarrow> z \<noteq> a" "node_know uj w a m" for xs m
    using that
  proof (induction xs arbitrary: m)
    case (Cons x xs)
    obtain z i where x: "x = (z, i)" by fastforce
    have "z \<noteq> a" using Cons.prems(1) [of z i] by (simp add: x)
    then have "node_know uj w a (?f x m)" using one [OF Cons.prems(2)] Cons.prems(2) by (simp add: x)
    then show ?case using Cons.IH [of "?f x m"] Cons.prems(1) by fastforce
  qed simp
  moreover have "z \<noteq> a" if "(z, i) \<in> set (n_knownNodeInfo n)" for z i
    using that assms unfolding node_know_def by (metis go_get_None_iff image_eqI fst_conv not_None_eq set_map)
  ultimately show "node_know uj w a (monitorDeadNodes_round now n)" using assms unfolding monitorDeadNodes_round_def by blast
  have keeps: "own_stamp (?f x m) = own_stamp m" "route_lines (?f x m) = route_lines m" for x m
    by (simp_all add: own_stamp_def route_lines_def split: prod.split)
  show "own_stamp (monitorDeadNodes_round now n) = own_stamp n" "route_lines (monitorDeadNodes_round now n) = route_lines n"
    unfolding monitorDeadNodes_round_def by (rule fold_keeps, rule keeps)+
qed

lemma New_know:
  assumes "netopus_New a name opts stack now = Inr n" "\<And>u. sent uj w u \<Longrightarrow> Origin u = a \<Longrightarrow> UpdateEpoch u < now"
  shows "node_know uj w a n" "own_stamp n = (now, 0)"
proof -
  have "length a = 16" "n_addr n = a" "n_router n = router_New a (100 * millisecond)" "n_knownNodeInfo n = []" "n_effects n = []"
      and st: "own_stamp n = (now, 0)"
    using assms(1) by (auto simp: netopus_New_def Let_def own_stamp_def split: if_splits sum.splits)
  then show "node_know uj w a n"
    using assms(2) by (auto simp: node_know_def router_New_def route_lines_def table_wf_def ru_stamp_def)
  show "own_stamp n = (now, 0)" by (rule st)
qed

text \<open>A step that sends an update, at the node that sends it and at the others.\<close>

lemma net_inv_send:
  assumes inv: "net_inv uj repr N" and codec: "codec_ok uj repr" and n': "node_know uj w' a n'"
    and w': "nt_lines N \<subseteq> w'" "w' \<subseteq> nt_lines N \<union> {b @ [10] | b. enc_update uj u = Inr b}"
    and u: "repr u" "length (Origin u) = 16" "Connections u \<noteq> None" "sent uj (nt_lines N) u \<or> Origin u = a"
    and stamps: "\<And>v n. sent uj (nt_lines N) v \<or> v = u \<Longrightarrow> ((nt_node N)(a := Some n')) (Origin v) = Some n \<Longrightarrow> \<not> newer (ru_stamp v) (own_stamp n)"
    and same: "\<And>v. sent uj (nt_lines N) v \<Longrightarrow> Origin v = Origin u \<Longrightarrow> ru_stamp v = ru_stamp u \<Longrightarrow> same_update u v"
  shows "net_inv uj repr (N\<lparr>nt_node := (nt_node N)(a := Some n'), nt_lines := w'\<rparr>)"
proof -
  have log: "log_ok uj repr (nt_lines N) (nt_node N)" using inv by (simp add: net_inv_def)
  have "node_know uj w' z m" if "z \<noteq> a" "nt_node N z = Some m" for z m
  proof (rule node_know_mono [OF _ w'(1)])
    show "node_know uj (nt_lines N) z m" using inv that(2) by (simp add: net_inv_def)
    show "\<exists>v. sent uj (nt_lines N) v \<and> same_update v x" if x: "sent uj w' x" "Origin x = z" for x
      using sent_grow [OF codec u(1) w'(2) x(1)] u(4) x(2) \<open>z \<noteq> a\<close> same_update_stamp [of u x] same_update_refl by metis
  qed
  moreover have "log_ok uj repr w' ((nt_node N)(a := Some n'))"
    by (rule log_grow [OF codec log u(1-3) w'(2)]) (use stamps same in blast)+
  ultimately show ?thesis using n' by (simp add: net_inv_def)
qed

lemma net_step_inv:
  assumes "net_step pq j uj h repr N N'" "net_inv uj repr N" and codec: "codec_ok uj repr"
  shows "net_inv uj repr N'"
  using assms(1,2)
proof (cases rule: net_step.cases)
  case (net_start a name opts stack now n)
  note k = New_know [OF net_start(2), of uj "nt_lines N"]
  have "\<not> newer (ru_stamp u) (own_stamp n)" if "sent uj (nt_lines N) u" "Origin u = a" for u
    using net_start(3) that k(2) by (auto simp: newer_def ru_stamp_def)
  then show ?thesis using assms(2) net_start(3) k(1) by (auto simp: net_start(1) net_inv_def log_ok_def)
next
  case (net_stop a)
  then show ?thesis using assms(2) by (auto simp: net_inv_def log_ok_def)
next
  case (net_node a n n')
  let ?w = "nt_lines N"
  have log: "log_ok uj repr ?w (nt_node N)" and k: "node_know uj ?w a n" using assms(2) net_node(2) by (simp_all add: net_inv_def)
  have old: "\<not> newer (ru_stamp v) (own_stamp m)" if "sent uj ?w v" "nt_node N (Origin v) = Some m" for v m
    using log_okD(4) [OF log] that by blast
  have silent: "net_inv uj repr (N\<lparr>nt_node := (nt_node N)(a := Some n'), nt_lines := ?w \<union> route_lines n'\<rparr>)"
    if "node_know uj ?w a n'" "own_stamp n' = own_stamp n"
  proof -
    have "?w \<union> route_lines n' = ?w" using that(1) by (auto simp: node_know_def)
    then show ?thesis using assms(2) net_node(2) that by (auto simp: net_inv_def log_ok_def)
  qed
  have "net_inv uj repr (N\<lparr>nt_node := (nt_node N)(a := Some n'), nt_lines := ?w \<union> route_lines n'\<rparr>)"
  proof (rule step_know [OF net_node(5)])
    assume q: "know n' = know n"
    show ?thesis by (rule silent) (use k node_know_cong [OF q] in simp_all)
  next
    fix now assume "n' = monitorDeadNodes_round now n"
    then show ?thesis using silent forget_know [OF k] by simp
  next
    fix b u now r en ex
    assume l: "b \<in> ?w" "dec_update uj b = Inr u" "fresh n u" "UpdateNode (n_router n) (Origin u) (Connections u) = Inr r"
      "know n' = know (floodRoutingUpdate uj u ex ((fst (handleRoutingUpdate now u n))\<lparr>n_router := r, n_externalNames := en\<rparr>))"
    have u: "sent uj ?w u" using l(1,2) by (auto simp: sent_def)
    note lk = learn_know [OF k codec log u l(3-5)]
    show ?thesis
    proof (rule net_inv_send [OF assms(2) codec lk(1) _ lk(3) log_okD(1-3) [OF log u]])
      show "\<not> newer (ru_stamp v) (own_stamp m)"
        if v: "sent uj ?w v \<or> v = u" "((nt_node N)(a := Some n')) (Origin v) = Some m" for v m
        using old [of v] u v lk(2) net_node(2) by (auto split: if_splits)
    qed (use u log_okD(5) [OF log u] in \<open>auto intro: sym\<close>)
  next
    assume run: "updateSender_run uj n = Inr n'"
    note ak = announce_know [OF k codec log net_node(2) run net_node(3,4)]
    have new: "newer (n_epoch n, n_sequence n + 1) (own_stamp n)" by (rule stamp_step(1) [OF net_node(3)])
    show ?thesis
    proof (rule net_inv_send [OF assms(2) codec ak(1) _ ak(6) net_node(4)])
      show "\<not> newer (ru_stamp v) (own_stamp m)"
        if v: "sent uj ?w v \<or> v = snd (generateRoutingUpdate n)" "((nt_node N)(a := Some n')) (Origin v) = Some m" for v m
        using old [of v] v ak(2-4) stamp_step(2) [OF net_node(3), of "ru_stamp v"] net_node(2) by (auto split: if_splits)
      show "same_update (snd (generateRoutingUpdate n)) v"
        if v: "sent uj ?w v" "Origin v = Origin (snd (generateRoutingUpdate n))" "ru_stamp v = ru_stamp (snd (generateRoutingUpdate n))" for v
        using old [OF v(1)] v(2,3) ak(3,4) net_node(2) new by auto
    qed (use ak(4,5) k in \<open>auto simp: node_know_def\<close>)
  qed
  then show ?thesis by (simp add: net_node(1))
qed

lemma net_reachable_inv:
  assumes "(net_step pq j uj h repr)\<^sup>*\<^sup>* net_empty N" "codec_ok uj repr"
  shows "net_inv uj repr N"
  using assms(1)
proof (induction rule: rtranclp_induct)
  case base
  show ?case by (simp add: net_inv_def log_ok_def net_empty_def sent_def)
qed (rule net_step_inv [OF _ _ assms(2)])

section \<open>Agreement\<close>

text \<open>The stamp of the latest update of an origin that a node has recorded; for itself, that it has generated.\<close>

definition stamp_of :: "netopus \<Rightarrow> ip \<Rightarrow> (64 word \<times> 64 word) option" where
  "stamp_of n z = (if z = n_addr n then Some (own_stamp n) else known_stamp n z)"

lemma conns_of_same: "go_get ns z = Some e \<Longrightarrow> same_conns e c \<Longrightarrow> go_get (conns_of ns z) = go_get (case c of None \<Rightarrow> [] | Some cs \<Rightarrow> cs)"
  by (auto simp: conns_of_def go_get_or_def same_conns_def split: option.splits)

lemma stamp_of_update:
  assumes "node_know uj w a n" "stamp_of n z = Some st" "z \<noteq> a"
  shows "\<exists>u ni. go_get (n_knownNodeInfo n) z = Some ni \<and> sent uj w u \<and> Origin u = z \<and> ru_stamp u = st \<and> recorded ni u \<and> holds n u"
proof -
  obtain ni where ni: "go_get (n_knownNodeInfo n) z = Some ni" "st = (ni_epoch ni, ni_sequence ni)"
    using assms by (auto simp: stamp_of_def known_stamp_def node_know_def)
  then obtain u where "sent uj w u" "Origin u = z" "recorded ni u" "holds n u" using assms(1) unfolding node_know_def by metis
  then show ?thesis using ni by (auto simp: recorded_def ru_stamp_def)
qed

lemma update_held:
  assumes "log_ok uj repr w net" "node_know uj w a n" "sent uj w u" "Origin u = z" "stamp_of n z = Some (ru_stamp u)"
  shows "holds n u"
proof (cases "z = a")
  case True
  then show ?thesis using assms by (simp add: stamp_of_def node_know_def)
next
  case False
  obtain v where "sent uj w v" "Origin v = z" "ru_stamp v = ru_stamp u" "holds n v"
    using stamp_of_update [OF assms(2,5) False] by blast
  then show ?thesis using log_okD(5) [OF assms(1), of v u] assms(3,4) holds_cong by metis
qed

lemma stamps_agree:
  assumes inv: "net_inv uj repr N" and n: "nt_node N a = Some n" "nt_node N b = Some m"
    and st: "stamp_of n z = Some st" "stamp_of m z = Some st"
  shows "go_get (conns_of (nodes (n_router n)) z) = go_get (conns_of (nodes (n_router m)) z)"
proof (cases "a = b")
  case False
  have log: "log_ok uj repr (nt_lines N) (nt_node N)" and k: "node_know uj (nt_lines N) a n" "node_know uj (nt_lines N) b m"
    using inv n by (simp_all add: net_inv_def)
  obtain u where u: "sent uj (nt_lines N) u" "Origin u = z" "ru_stamp u = st"
    using stamp_of_update [OF k(1) st(1)] stamp_of_update [OF k(2) st(2)] False by blast
  have "holds n u" "holds m u" using update_held [OF log k(1) u(1,2)] update_held [OF log k(2) u(1,2)] st u(3) by simp_all
  then show ?thesis using conns_of_same u(2) by (fastforce simp: holds_def)
qed (use n in simp)


section \<open>Synchronised networks\<close>

text \<open>Every running node has recorded the current stamp of every other one, and nothing of nodes that do not run.\<close>

definition up_to_date :: "network \<Rightarrow> bool" where
  "up_to_date N \<longleftrightarrow> (\<forall>a n. nt_node N a = Some n \<longrightarrow>
     (\<forall>z. z \<noteq> a \<longrightarrow> known_stamp n z = map_option own_stamp (nt_node N z)))"

lemma up_to_date_stamp:
  assumes "net_inv uj repr N" "up_to_date N" "nt_node N a = Some n"
  shows "stamp_of n z = map_option own_stamp (nt_node N z)"
  using assms unfolding up_to_date_def net_inv_def node_know_def stamp_of_def by (cases "z = a") auto

lemma up_to_date_keys:
  assumes inv: "net_inv uj repr N" and up: "up_to_date N" and n: "nt_node N a = Some n" and b: "nt_node N b \<noteq> None" "b \<noteq> a"
  shows "z \<in> set (go_keys (nodes (n_router n))) \<longleftrightarrow> nt_node N z \<noteq> None"
proof -
  have log: "log_ok uj repr (nt_lines N) (nt_node N)" and k: "node_know uj (nt_lines N) a n"
    using inv n by (simp_all add: net_inv_def)
  obtain m where m: "nt_node N b = Some m" using b(1) by blast
  have kb: "node_know uj (nt_lines N) b m" using inv m by (simp add: net_inv_def)
  show ?thesis
  proof (cases "z = a")
    case True
    have "stamp_of m a = Some (own_stamp n)" using up_to_date_stamp [OF inv up m] n by simp
    then obtain u where u: "sent uj (nt_lines N) u" "Origin u = a" "ru_stamp u = own_stamp n"
      using stamp_of_update [OF kb] b(2) by blast
    then have "holds n u" using k unfolding node_know_def by blast
    then have "a \<in> set (go_keys (nodes (n_router n)))" unfolding holds_def u(2) by (blast dest: go_get_in_keys)
    then show ?thesis using True n by simp
  next
    case False
    have st: "stamp_of n z = map_option own_stamp (nt_node N z)" by (rule up_to_date_stamp [OF inv up n])
    have "go_get (nodes (n_router n)) z \<noteq> None \<longleftrightarrow> stamp_of n z \<noteq> None"
    proof
      assume "stamp_of n z \<noteq> None"
      then obtain s where "stamp_of n z = Some s" by blast
      from stamp_of_update [OF k this False] show "go_get (nodes (n_router n)) z \<noteq> None" by (auto simp: holds_def)
    next
      assume "go_get (nodes (n_router n)) z \<noteq> None"
      then show "stamp_of n z \<noteq> None" using k False unfolding node_know_def stamp_of_def known_stamp_def by auto
    qed
    then show ?thesis using st go_get_None_iff [of "nodes (n_router n)" z] by auto
  qed
qed

lemma up_to_date_same_table:
  assumes inv: "net_inv uj repr N" and up: "up_to_date N" and n: "nt_node N a = Some n" "nt_node N b = Some m" "a \<noteq> b"
  shows "same_table (nodes (n_router n)) (nodes (n_router m))"
proof -
  have keys: "z \<in> set (go_keys (nodes (n_router n))) \<longleftrightarrow> z \<in> set (go_keys (nodes (n_router m)))" for z
    using up_to_date_keys [OF inv up n(1), of b] up_to_date_keys [OF inv up n(2), of a] n by auto
  have "go_get (conns_of (nodes (n_router n)) z) = go_get (conns_of (nodes (n_router m)) z)" for z
  proof (cases "nt_node N z")
    case (Some l)
    then show ?thesis
      using stamps_agree [OF inv n(1,2)] up_to_date_stamp [OF inv up n(1)] up_to_date_stamp [OF inv up n(2)] by simp
  next
    case None
    then have "go_get (nodes (n_router n)) z = None" "go_get (nodes (n_router m)) z = None"
      unfolding go_get_None_iff using up_to_date_keys [OF inv up n(1), of b z] keys [of z] n by auto
    then show ?thesis by (simp add: conns_of_def go_get_or_def)
  qed
  moreover have "set (go_keys (nodes (n_router n))) = set (go_keys (nodes (n_router m)))" using keys by blast
  ultimately show ?thesis by (simp add: same_table_def)
qed

lemma costs_ok_iff:
  assumes "table_wf ns"
  shows "costs_ok ns \<longleftrightarrow> (\<forall>u k c. go_get (conns_of ns u) k = Some c \<longrightarrow> f32_cost c)"
proof
  assume c: "\<forall>u k c. go_get (conns_of ns u) k = Some c \<longrightarrow> f32_cost c"
  have "f32_cost c" if "(u, Some cs) \<in> set ns" "(k, c) \<in> set cs" for u cs k c
  proof -
    have u: "go_get ns u = Some (Some cs)" using assms that(1) go_get_Some_iff by (fastforce simp: table_wf_def)
    then have "go_wf cs" using assms by (fastforce simp: table_wf_def conns_wf_def)
    then have "go_get (conns_of ns u) k = Some c" using that(2) u by (simp add: conns_of_def go_get_or_def go_get_Some_iff)
    then show ?thesis using c by blast
  qed
  then show "costs_ok ns" by (auto simp: costs_ok_def list_all_iff split: option.splits)
qed (use costs_okD in blast)

lemma synchronised_converged:
  assumes inv: "net_inv uj repr N" and up: "up_to_date N" and n0: "nt_node N src = Some n0" and ne: "nt_node N dest \<noteq> None" "src \<noteq> dest"
    and routed: "\<And>a n. nt_node N a = Some n \<Longrightarrow> routed pq (n_router n)" and costs: "costs_ok (nodes (n_router n0))"
    and links: "\<And>a n. nt_node N a = Some n \<Longrightarrow> linked (nodes (n_router n0)) \<lparr>ov_node = nt_node N, ov_peer = peer\<rparr> a n"
  shows "converged pq (nodes (n_router n0)) \<lparr>ov_node = nt_node N, ov_peer = peer\<rparr>"
    "set (go_keys (nodes (n_router n0))) = {a. nt_node N a \<noteq> None}"
proof -
  let ?ns = "nodes (n_router n0)"
  have know: "node_know uj (nt_lines N) a n" if "nt_node N a = Some n" for a n using inv that by (simp add: net_inv_def)
  have keys: "z \<in> set (go_keys (nodes (n_router n))) \<longleftrightarrow> nt_node N z \<noteq> None" if "nt_node N a = Some n" for a n z
  proof (cases "a = src")
    case True
    show ?thesis by (rule up_to_date_keys [OF inv up that, of dest]) (use True ne in auto)
  next
    case False
    show ?thesis by (rule up_to_date_keys [OF inv up that, of src]) (use False n0 in auto)
  qed
  then show V: "set (go_keys ?ns) = {a. nt_node N a \<noteq> None}" using n0 by blast
  have "converged_node pq ?ns a n" if n: "nt_node N a = Some n" for a n
  proof -
    have same: "same_table (nodes (n_router n)) ?ns"
      using up_to_date_same_table [OF inv up n n0] n n0 by (cases "a = src") (auto simp: same_table_def)
    have wf: "table_wf (nodes (n_router n))" "table_wf ?ns" using know [OF n] know [OF n0] by (simp_all add: node_know_def)
    have "costs_ok (nodes (n_router n))" using costs same by (simp add: costs_ok_iff wf same_table_def)
    moreover have "length z = 16" if z: "z \<in> set (go_keys (nodes (n_router n)))" for z
    proof -
      obtain m where "nt_node N z = Some m" using keys [OF n] z by blast
      from know [OF this] show ?thesis by (simp add: node_know_def)
    qed
    then have "nodes_ok (nodes (n_router n))" using wf(1) by (simp add: nodes_ok_def table_wf_def list_all_iff)
    ultimately show ?thesis using know [OF n] routed [OF n] same by (simp add: converged_node_def node_know_def)
  qed
  then show "converged pq ?ns \<lparr>ov_node = nt_node N, ov_peer = peer\<rparr>"
    using links V by (auto simp: converged_def)
qed


section \<open>Two nodes that synchronise\<close>

text \<open>Nodes 1 and 2 with a session between them, each with the update that it generates first.\<close>

definition ex_up :: "byte \<Rightarrow> netopus" where
  "ex_up i = the (bring_up ex_json rfc_ipv6 ex_env \<lparr>se_now = 1, se_rand = Inr 8, se_write = None\<rparr> 5 1 1
     (1 # ex_ip (3 - i)) 6 (ex_started i (i = 2)))"

definition ex_first :: "byte \<Rightarrow> RoutingUpdate" where
  "ex_first i = snd (generateRoutingUpdate (ex_up i))"

text \<open>A coder for these two updates.\<close>

definition pair_codec :: update_codec where
  "pair_codec =
     \<lparr>enc_update = (\<lambda>u. if u = ex_first 1 then Inr [1] else if u = ex_first 2 then Inr [2] else Inl (Errorf ''unsupported value'')),
      dec_update = (\<lambda>b. if b = [1, 10] then Inr (ex_first 1) else if b = [2, 10] then Inr (ex_first 2)
        else Inl (Errorf ''unexpected end of JSON input''))\<rparr>"

definition ex_announced :: "netopus \<Rightarrow> netopus" where
  "ex_announced n = (case updateSender_run pair_codec n of Inr n' \<Rightarrow> n' | Inl _ \<Rightarrow> n)"

definition ex_heard :: "byte \<Rightarrow> netopus \<Rightarrow> netopus" where
  "ex_heard k n = (case go_get (n_sessHeap n) 1 of
     None \<Rightarrow> n
   | Some p \<Rightarrow> (case routeReader_step pair_codec 2 1 p (Inr [k, 10]) n of Inr (n', _) \<Rightarrow> n' | Inl _ \<Rightarrow> n))"

definition ex_recalculated :: "netopus \<Rightarrow> netopus" where
  "ex_recalculated n = n\<lparr>n_router := the (recalculate list_pq source_order (n_router n))\<rparr>"


abbreviation ex_reach :: "network \<Rightarrow> bool" where
  "ex_reach \<equiv> (net_step list_pq ex_json pair_codec rfc_ipv6 (\<lambda>_. True))\<^sup>*\<^sup>* net_empty"

abbreviation ex_step :: "bytes set \<Rightarrow> netopus \<Rightarrow> netopus \<Rightarrow> bool" where
  "ex_step \<equiv> sess_step list_pq ex_json pair_codec rfc_ipv6"

definition ex_net :: "netopus \<Rightarrow> netopus \<Rightarrow> bytes set \<Rightarrow> network" where
  "ex_net n m w = \<lparr>nt_node = [ex_ip 1 \<mapsto> n, ex_ip 2 \<mapsto> m], nt_lines = w\<rparr>"

lemma ex_net_step:
  assumes "ex_reach (ex_net n m w)"
  shows "n_sequence n \<noteq> - 1 \<Longrightarrow> ex_step w n n' \<Longrightarrow> ex_reach (ex_net n' m (w \<union> route_lines n'))"
    "n_sequence m \<noteq> - 1 \<Longrightarrow> ex_step w m m' \<Longrightarrow> ex_reach (ex_net n m' (w \<union> route_lines m'))"
proof -
  let ?step = "net_step list_pq ex_json pair_codec rfc_ipv6 (\<lambda>_. True)"
  have N: "nt_lines (ex_net n m w) = w" "nt_node (ex_net n m w) (ex_ip 1) = Some n" "nt_node (ex_net n m w) (ex_ip 2) = Some m"
    by (simp_all add: ex_net_def)
  show "ex_reach (ex_net n' m (w \<union> route_lines n'))" if "n_sequence n \<noteq> - 1" "ex_step w n n'"
  proof -
    have "?step (ex_net n m w) (ex_net n' m (w \<union> route_lines n'))"
      using net_node [where N = "ex_net n m w" and a = "ex_ip 1" and n = n and n' = n' and repr = "\<lambda>_. True", unfolded N] that
      by (simp add: ex_net_def fun_upd_twist)
    then show ?thesis using assms by (simp add: rtranclp.rtrancl_into_rtrancl)
  qed
  show "ex_reach (ex_net n m' (w \<union> route_lines m'))" if "n_sequence m \<noteq> - 1" "ex_step w m m'"
  proof -
    have "?step (ex_net n m w) (ex_net n m' (w \<union> route_lines m'))"
      using net_node [where N = "ex_net n m w" and a = "ex_ip 2" and n = m and n' = m' and repr = "\<lambda>_. True", unfolded N] that
      by (simp add: ex_net_def)
    then show ?thesis using assms by (simp add: rtranclp.rtrancl_into_rtrancl)
  qed
qed

text \<open>Steps that send nothing.\<close>

lemma ex_net_quiet:
  assumes "ex_reach (ex_net n m w)" "know n' = know n" "know m' = know m" "ex_step w n n' \<or> n' = n" "ex_step w m m' \<or> m' = m"
    and "n_sequence n \<noteq> - 1" "n_sequence m \<noteq> - 1" "route_lines n \<subseteq> w" "route_lines m \<subseteq> w"
  shows "ex_reach (ex_net n' m' w)"
proof -
  have "w \<union> route_lines n' = w" "w \<union> route_lines m' = w" using assms(2,3,8,9) by (auto simp: know_def)
  then have "ex_reach (ex_net n' m w)" using ex_net_step(1) [OF assms(1,6)] assms(1,4) by metis
  then show ?thesis using ex_net_step(2) [OF _ assms(7)] assms(5) \<open>w \<union> route_lines m' = w\<close> by metis
qed

lemma ex_up_facts:
  assumes "i \<in> {1, 2}"
  shows "bring_up ex_json rfc_ipv6 ex_env \<lparr>se_now = 1, se_rand = Inr 8, se_write = None\<rparr> 5 1 1
     (1 # ex_ip (3 - i)) 6 (ex_started i (i = 2)) = Some (ex_up i)" "session_up (ex_up i) (ex_ip (3 - i)) 1 6"
proof -
  have p: "go_get (n_sessHeap (ex_started i (i = 2))) 1 = Some (ex_session1 (i = 2))" "new_session (ex_session1 (i = 2))"
    by (simp_all add: ex_started_session new_session_def ex_session1_def)
  have msg: "Msg_Unmarshal ex_json (1 # ex_ip (3 - i)) = Inr (InitMsg (ex_ip (3 - i)))"
    by (rule init_message(2)) (simp_all add: ex_json_def)
  let ?env = "\<lparr>se_now = 1, se_rand = Inr 8, se_write = None\<rparr>"
  have e: "json_enc_init ex_json (n_addr (ex_started i (i = 2))) = Inr (ex_ip i)" "se_rand ?env = Inr 8" "se_write ?env = None"
    by (simp_all add: ex_json_def)
  obtain n' where "bring_up ex_json rfc_ipv6 ex_env ?env 5 1 1 (1 # ex_ip (3 - i)) 6 (ex_started i (i = 2)) = Some n'"
      "session_up n' (ex_ip (3 - i)) 1 6"
    using bring_up_result [OF p e msg] by blast
  then show "bring_up ex_json rfc_ipv6 ex_env \<lparr>se_now = 1, se_rand = Inr 8, se_write = None\<rparr> 5 1 1
     (1 # ex_ip (3 - i)) 6 (ex_started i (i = 2)) = Some (ex_up i)" "session_up (ex_up i) (ex_ip (3 - i)) 1 6"
    by (simp_all add: ex_up_def)
qed

lemma ex_up_quiet:
  assumes "i \<in> {1, 2}"
  shows "\<exists>n1 n2. ex_step w (ex_started i (i = 2)) n1 \<and> ex_step w n1 n2 \<and> ex_step w n2 (ex_up i) \<and>
    know n1 = know (ex_new i) \<and> know n2 = know (ex_new i) \<and> know (ex_up i) = know (ex_new i)"
proof (rule bring_up_parts [OF ex_up_facts(1) [OF assms], of "ex_session1 (i = 2)" list_pq pair_codec w])
  fix n1 p1 n2
  assume s: "n1 = initSelect_enter ex_json \<lparr>se_now = 1, se_rand = Inr 8, se_write = None\<rparr> (Inr 5) 1 (ex_session1 (i = 2)) (ex_started i (i = 2))"
    "protoLoop_recv ex_json rfc_ipv6 ex_env 1 False 1 p1 (1 # ex_ip (3 - i)) n1 = Some n2"
    "\<exists>p2 k peer t res. ex_up i = accept_result 1 1 p2 k peer res n2 \<or> ex_up i = dial_result 1 1 False 1 k peer t res n2"
    "ex_step w (ex_started i (i = 2)) n1" "ex_step w n1 n2" "ex_step w n2 (ex_up i)"
  have "know n1 = know (ex_new i)" "know n2 = know n1" "know (ex_up i) = know n2"
    using s(1) know_protoLoop [OF s(2)] s(3) know_attempt by (auto simp: know_enter ex_started_def know_session)
  then show ?thesis using s(4-6) by metis
qed (simp_all add: ex_started_session new_session_def ex_session1_def)

lemma ex_new_know: "n_sequence n = 0" "route_lines n = {}" if "know n = know (ex_new i)" for n
  using that by (simp_all add: know_def ex_new_def netopus_New_def Let_def route_lines_def)

lemma ex_net_up: "ex_reach (ex_net (ex_up 1) (ex_up 2) {})"
proof -
  let ?step = "net_step list_pq ex_json pair_codec rfc_ipv6 (\<lambda>_. True)"
  have "?step net_empty (net_empty\<lparr>nt_node := (nt_node net_empty)(ex_ip 1 := Some (ex_new 1))\<rparr>)"
    by (rule net_start [OF ex_new]) (simp add: net_empty_def sent_def)
  moreover have "?step (net_empty\<lparr>nt_node := (nt_node net_empty)(ex_ip 1 := Some (ex_new 1))\<rparr>) (ex_net (ex_new 1) (ex_new 2) {})"
    using net_start [OF ex_new, of pair_codec "net_empty\<lparr>nt_node := (nt_node net_empty)(ex_ip 1 := Some (ex_new 1))\<rparr>" 2]
    by (simp add: net_empty_def sent_def ex_net_def)
  ultimately have r0: "ex_reach (ex_net (ex_new 1) (ex_new 2) {})" by (meson converse_rtranclp_into_rtranclp r_into_rtranclp)
  obtain n1 n2 m1 m2 where s: "ex_step {} (ex_started 1 False) n1" "ex_step {} n1 n2" "ex_step {} n2 (ex_up 1)"
      "ex_step {} (ex_started 2 True) m1" "ex_step {} m1 m2" "ex_step {} m2 (ex_up 2)"
    and k: "know n1 = know (ex_new 1)" "know n2 = know (ex_new 1)" "know (ex_up 1) = know (ex_new 1)"
      "know m1 = know (ex_new 2)" "know m2 = know (ex_new 2)" "know (ex_up 2) = know (ex_new 2)"
    using ex_up_quiet [of 1 "{}"] ex_up_quiet [of 2 "{}"] by auto
  have st: "ex_step {} (ex_new i) (ex_started i srv)" "know (ex_started i srv) = know (ex_new i)" for i srv
    by (simp_all add: ex_started_def st_start know_session)
  have q: "ex_reach (ex_net n' m' {})" if "ex_reach (ex_net n m {})" "know n = know (ex_new 1)" "know m = know (ex_new 2)"
      "ex_step {} n n'" "ex_step {} m m'" "know n' = know (ex_new 1)" "know m' = know (ex_new 2)" for n m n' m'
    by (rule ex_net_quiet [OF that(1)]) (use that ex_new_know [OF that(2)] ex_new_know [OF that(3)] in auto)
  note r1 = q [OF r0 refl refl st(1) [of 1 False] st(1) [of 2 True] st(2) st(2)]
  note r2 = q [OF r1 st(2) st(2) s(1,4) k(1,4)]
  note r3 = q [OF r2 k(1,4) s(2,5) k(2,5)]
  show ?thesis by (rule q [OF r3 k(2,5) s(3,6) k(3,6)])
qed

definition ex_conn :: "byte \<Rightarrow> protoSession" where
  "ex_conn i =
     \<lparr>ps_done = False, ps_conn = 7, ps_isServer = (i = 2), ps_cost = f32_one, ps_remoteAddr = ex_ip (3 - i),
      ps_connectionState = connectionStateConnected, ps_connStart = 1, ps_lastInit = 1,
      ps_oobRoutePacketConn = Some 1, ps_oobRouteListener = (if i = 2 then Some 5 else None), ps_oobRouteConn = Some 6,
      ps_lastActivity = 1, ps_attempts = 1, ps_goroutines = [GRouteReader]\<rparr>"

definition ex_side :: "byte \<Rightarrow> netopus \<Rightarrow> bool" where
  "ex_side i n \<longleftrightarrow> n_addr n = ex_ip i \<and> myAddr (n_router n) = ex_ip i \<and> n_sessionInfo n = [(ex_ip (3 - i), 1)] \<and> n_sessHeap n = [(1, ex_conn i)]
     \<and> n_externalRoutes n = [] \<and> n_epoch n = 1 \<and> n_name n = ''x'' \<and> n_externalNames n = []
     \<and> n_configInfo n = \<lparr>ci_configVersion = 0, ci_configData = [], ci_configSignature = []\<rparr>"

lemma ex_up_side:
  assumes "i \<in> {1, 2}"
  shows "ex_side i (ex_up i)" "n_sequence (ex_up i) = 0" "n_knownNodeInfo (ex_up i) = []" "nodes (n_router (ex_up i)) = []"
    "policy (n_router (ex_up i)) = []"
proof -
  have "ex_side 1 (ex_up 1)" "ex_side 2 (ex_up 2)" unfolding ex_side_def by (intro conjI; code_simp)+
  then show "ex_side i (ex_up i)" using assms by blast
  have "policy (n_router (ex_up 1)) = []" "policy (n_router (ex_up 2)) = []" by code_simp+
  then show "policy (n_router (ex_up i)) = []" using assms by auto
  have "know (ex_up i) = know (ex_new i)" using ex_up_quiet [OF assms] by blast
  then show "n_sequence (ex_up i) = 0" "n_knownNodeInfo (ex_up i) = []" "nodes (n_router (ex_up i)) = []"
    by (simp_all add: know_def ex_new_def netopus_New_def Let_def router_New_def)
qed

definition ex_pair_conns :: "byte \<Rightarrow> RoutingConns" where
  "ex_pair_conns i = [(NewHostOnlySubnet (ex_ip (3 - i)), f32_one)]"

text \<open>Two nodes with these sessions advertise each other.\<close>

lemma ex_own_conns: "ex_side i n \<Longrightarrow> own_conns n = ex_pair_conns i"
  by (simp add: ex_side_def own_conns_def ex_conn_def ex_pair_conns_def NewSubnet_128)

lemma ex_generated: "i \<in> {1, 2} \<Longrightarrow> ex_side i n \<Longrightarrow> n_sequence n = 0 \<Longrightarrow> snd (generateRoutingUpdate n) = ex_first i"
  using ex_up_side [of i]
  by (simp add: ex_first_def generateRoutingUpdate_def Let_def ex_own_conns own_names_def) (simp add: ex_side_def)

lemma ex_first_sel:
  assumes "i \<in> {1, 2}"
  shows "Origin (ex_first i) = ex_ip i" "Connections (ex_first i) = Some (ex_pair_conns i)" "ru_stamp (ex_first i) = (1, 1)"
    "UpdateEpoch (ex_first i) = 1" "UpdateSequence (ex_first i) = 1" "Names (ex_first i) = []"
  using ex_up_side [OF assms] ex_own_conns [OF ex_up_side(1) [OF assms]]
  by (simp_all add: ex_first_def generateRoutingUpdate_def Let_def ru_stamp_def own_names_def ex_side_def)

lemma pair_codec:
  assumes "i \<in> {1, 2}"
  shows "enc_update pair_codec (ex_first i) = Inr [i]" "dec_update pair_codec [i, 10] = Inr (ex_first i)"
proof -
  have "ex_first 2 \<noteq> ex_first 1" using ex_first_sel(1) [of 1] ex_first_sel(1) [of 2] by auto
  then show "enc_update pair_codec (ex_first i) = Inr [i]" "dec_update pair_codec [i, 10] = Inr (ex_first i)"
    using assms by (auto simp: pair_codec_def)
qed

lemma pair_codec_ok: "codec_ok pair_codec (\<lambda>_. True)"
proof -
  have "conns_wf (Connections (ex_first i))" if "i \<in> {1, 2}" for i
    using ex_first_sel(2) [OF that] by (simp add: conns_wf_def ex_pair_conns_def go_wf_def)
  then have "conns_wf (Connections u)" if "dec_update pair_codec b = Inr u" for b u
    using that by (auto simp: pair_codec_def split: if_splits)
  moreover have "\<exists>v. dec_update pair_codec (b @ [10]) = Inr v \<and> same_update u v" if "enc_update pair_codec u = Inr b" for u b
    using that by (auto simp: pair_codec_def split: if_splits)
  ultimately show ?thesis by (auto simp: codec_ok_def)
qed

lemma ex_announced:
  assumes i: "i \<in> {1, 2}" and n: "ex_side i n" "n_sequence n = 0" "go_get (nodes (n_router n)) (ex_ip i) = None"
  shows "ex_step w n (ex_announced n)" "ex_side i (ex_announced n)" "n_sequence (ex_announced n) = 1"
    "nodes (n_router (ex_announced n)) = go_set (nodes (n_router n)) (ex_ip i) (Some (ex_pair_conns i))"
    "n_knownNodeInfo (ex_announced n) = n_knownNodeInfo n" "[i, 10] \<in> route_lines (ex_announced n)"
    "policy (n_router (ex_announced n)) = policy (n_router n)"
proof -
  have d: "\<not> DeepEqual_conns (go_get_or None (nodes (n_router n)) (ex_ip i)) (Some (ex_pair_conns i))"
    using n(3) by (simp add: go_get_or_def DeepEqual_conns_def)
  have "ex_ip i \<noteq> []" by (simp add: ex_ip_def)
  then have a: "updateSender_run pair_codec n = Inr (ex_announced n)" "ex_announced n = n\<lparr>n_sequence := n_sequence n + 1,
      n_router := (n_router n)\<lparr>nodes := go_set (nodes (n_router n)) (ex_ip i) (Some (ex_pair_conns i)), tr := tr (n_router n) @ [updateWait (n_router n)]\<rparr>,
      n_effects := n_effects n @ [RouteConnWrite 6 [i, 10]]\<rparr>"
    using n(1) ex_generated [OF i n(1,2)] d
    by (simp_all add: ex_announced_def updateSender_run_def case_prod_beta UpdateNode_def ex_first_sel [OF i] ex_side_def
        flood_effects [OF pair_codec(1) [OF i]] flood_targets_def map_filter_simps ex_conn_def) (simp_all add: generateRoutingUpdate_def Let_def)
  show "ex_step w n (ex_announced n)" by (rule st_update [OF a(1)])
  show "ex_side i (ex_announced n)" "n_sequence (ex_announced n) = 1"
    "nodes (n_router (ex_announced n)) = go_set (nodes (n_router n)) (ex_ip i) (Some (ex_pair_conns i))"
    "n_knownNodeInfo (ex_announced n) = n_knownNodeInfo n" "[i, 10] \<in> route_lines (ex_announced n)"
    "policy (n_router (ex_announced n)) = policy (n_router n)"
    using n(1,2) by (auto simp: a(2) ex_side_def route_lines_def)
qed

lemma ex_heard:
  assumes i: "i \<in> {1, 2}" "k = 3 - i" and n: "ex_side i n" "n_knownNodeInfo n = []" "go_get (nodes (n_router n)) (ex_ip k) = None"
  shows "[k, 10] \<in> w \<Longrightarrow> ex_step w n (ex_heard k n)" "ex_side i (ex_heard k n)" "n_sequence (ex_heard k n) = n_sequence n"
    "nodes (n_router (ex_heard k n)) = go_set (nodes (n_router n)) (ex_ip k) (Some (ex_pair_conns k))"
    "known_stamp (ex_heard k n) z = (if z = ex_ip k then Some (1, 1) else None)" "route_lines (ex_heard k n) = route_lines n"
    "policy (n_router (ex_heard k n)) = policy (n_router n)"
proof -
  have k: "k \<in> {1, 2}" using i by auto
  have p: "go_get (n_sessHeap n) 1 = Some (ex_conn i)" using n(1) by (simp add: ex_side_def)
  have ne: "ex_ip k \<noteq> []" by (simp add: ex_ip_def)
  have "IP_String (ex_ip k) \<noteq> IP_String (ex_ip i)" using i ex_strings by auto
  then have fr: "fresh n (ex_first k)" using n(1,2) by (simp add: fresh_def ex_side_def ex_first_sel [OF k] known_stamp_def)
  then obtain m where m: "handleRoutingUpdate 2 (ex_first k) n = (m, True)" using handle_accepts by (metis prod.collapse)
  have f: "n_epoch m = n_epoch n" "n_sequence m = n_sequence n" "route_lines m = route_lines n" "n_externalRoutes m = n_externalRoutes n"
      "n_name m = n_name n" "n_configInfo m = n_configInfo n"
    using m by (auto simp: handleRoutingUpdate_def Let_def route_lines_def split: if_splits)
  note m' = handle_state [OF fr, of 2, unfolded m fst_conv]
  let ?r = "(n_router n)\<lparr>nodes := go_set (nodes (n_router n)) (ex_ip k) (Some (ex_pair_conns k)), tr := tr (n_router n) @ [updateWait (n_router n)]\<rparr>"
  have r: "UpdateNode (n_router n) (Origin (ex_first k)) (Connections (ex_first k)) = Inr ?r"
    using n(3) ne by (simp add: UpdateNode_def ex_first_sel [OF k] go_get_or_def DeepEqual_conns_def)
  have fl: "floodRoutingUpdate pair_codec (ex_first k) (Some (ps_remoteAddr (ex_conn i))) x = x" if "n_sessionInfo x = n_sessionInfo n" for x
    using that n(1) i by (simp add: floodRoutingUpdate_def flood_session_def ex_side_def ex_conn_def)
  have nd: "\<not> ps_done (ex_conn i)" by (simp add: ex_conn_def)
  have h: "routeReader_step pair_codec 2 1 (ex_conn i) (Inr [k, 10]) n = Inr (m\<lparr>n_router := ?r, n_externalNames := n_externalNames n\<rparr>, True)"
    by (simp add: routeReader_step_def pair_codec [OF k] m m' r fl nd Let_def ex_first_sel(6) [OF k])
  then have e: "ex_heard k n = m\<lparr>n_router := ?r, n_externalNames := n_externalNames n\<rparr>" by (simp add: ex_heard_def p del: One_nat_def)
  have "GRouteReader \<in> set (ps_goroutines (ex_conn i))" by (simp add: ex_conn_def)
  from st_reader [OF p this _ h] show "[k, 10] \<in> w \<Longrightarrow> ex_step w n (ex_heard k n)" by (simp add: e)
  show "ex_side i (ex_heard k n)" "n_sequence (ex_heard k n) = n_sequence n"
    "nodes (n_router (ex_heard k n)) = go_set (nodes (n_router n)) (ex_ip k) (Some (ex_pair_conns k))"
    "known_stamp (ex_heard k n) z = (if z = ex_ip k then Some (1, 1) else None)" "route_lines (ex_heard k n) = route_lines n"
    "policy (n_router (ex_heard k n)) = policy (n_router n)"
    using n(1,2) f m' by (auto simp: e ex_side_def known_stamp_def ex_first_sel [OF k] route_lines_def)
qed

definition ex_pair :: "(ip, RoutingConns option) gomap" where
  "ex_pair = [(ex_ip 1, Some (ex_pair_conns 1)), (ex_ip 2, Some (ex_pair_conns 2))]"

lemma ex_pair_ok: "costs_ok ex_pair" "nodes_ok ex_pair"
  by (simp_all add: costs_ok_def nodes_ok_def ex_pair_def ex_pair_conns_def go_wf_def f32_cost_one)

lemma ex_recalculated:
  assumes "ex_side i n" "nodes (n_router n) = ex_pair" "policy (n_router n) = []"
  shows "ex_step w n (ex_recalculated n)" "know (ex_recalculated n) = know n" "ex_side i (ex_recalculated n)"
    "routed list_pq (n_router (ex_recalculated n))" "nodes (n_router (ex_recalculated n)) = ex_pair"
proof -
  have "ex_ip i \<noteq> []" by (simp add: ex_ip_def)
  then obtain np where "new_policy list_pq source_order (ex_ip i) ex_pair = Some np"
    using lpq.new_policy_facts [OF source_order_ok ex_pair_ok] by blast
  then obtain r where r: "recalculate list_pq source_order (n_router n) = Some r" using assms(1,2) by (auto simp: recalculate_def ex_side_def)
  then have e: "ex_recalculated n = n\<lparr>n_router := r\<rparr>" by (simp add: ex_recalculated_def)
  show "ex_step w n (ex_recalculated n)" unfolding e by (rule st_recalculate [OF r])
  show "know (ex_recalculated n) = know n" unfolding e by (rule know_recalculate [OF r])
  then show "nodes (n_router (ex_recalculated n)) = ex_pair" using assms(2) by (simp add: know_def)
  have "myAddr r = myAddr (n_router n)" using r by (auto simp: recalculate_def split: option.splits)
  then show "ex_side i (ex_recalculated n)" using assms(1) by (simp add: e ex_side_def)
  show "routed list_pq (n_router (ex_recalculated n))" using recalculate_routed [OF r _ source_order_ok] assms(3) by (simp add: e)
qed

definition ex_synced :: "byte \<Rightarrow> netopus" where
  "ex_synced i = ex_recalculated (if i = 1 then ex_heard 2 (ex_announced (ex_up 1)) else ex_announced (ex_heard 1 (ex_up 2)))"

lemma ex_synced_facts:
  shows "i \<in> {1, 2} \<Longrightarrow> ex_side i (ex_synced i)" "i \<in> {1, 2} \<Longrightarrow> routed list_pq (n_router (ex_synced i))"
    "i \<in> {1, 2} \<Longrightarrow> nodes (n_router (ex_synced i)) = ex_pair" "i \<in> {1, 2} \<Longrightarrow> own_stamp (ex_synced i) = (1, 1)"
    "i \<in> {1, 2} \<Longrightarrow> known_stamp (ex_synced i) z = (if z = ex_ip (3 - i) then Some (1, 1) else None)"
    "\<exists>w. ex_reach (ex_net (ex_synced 1) (ex_synced 2) w)"
proof -
  note u1 = ex_up_side [of 1, simplified] note u2 = ex_up_side [of 2, simplified]
  have i1: "(1 :: byte) \<in> {1, 2}" "(2 :: byte) = 3 - 1" and i2: "(2 :: byte) \<in> {1, 2}" by simp_all
  let ?A2 = "ex_announced (ex_up 1)" and ?B2 = "ex_heard 1 (ex_up 2)"
  let ?A3 = "ex_heard 2 ?A2" and ?B3 = "ex_announced ?B2"
  have a2: "ex_step w (ex_up 1) ?A2" "ex_side 1 ?A2" "n_sequence ?A2 = 1" "nodes (n_router ?A2) = [(ex_ip 1, Some (ex_pair_conns 1))]"
      "n_knownNodeInfo ?A2 = []" "[1, 10] \<in> route_lines ?A2" "policy (n_router ?A2) = []" for w
    using ex_announced [of 1 "ex_up 1"] u1 by simp_all
  have b2: "[1, 10] \<in> w \<Longrightarrow> ex_step w (ex_up 2) ?B2" "ex_side 2 ?B2" "n_sequence ?B2 = 0"
      "nodes (n_router ?B2) = [(ex_ip 1, Some (ex_pair_conns 1))]" "policy (n_router ?B2) = []"
      "known_stamp ?B2 y = (if y = ex_ip 1 then Some (1, 1) else None)" for w y
    using ex_heard [of 2 1 "ex_up 2"] u2 by simp_all
  have a3: "[2, 10] \<in> w \<Longrightarrow> ex_step w ?A2 ?A3" "ex_side 1 ?A3" "n_sequence ?A3 = 1" "nodes (n_router ?A3) = ex_pair"
      "policy (n_router ?A3) = []" "known_stamp ?A3 y = (if y = ex_ip 2 then Some (1, 1) else None)" for w y
  proof -
    have "go_get (nodes (n_router ?A2)) (ex_ip 2) = None" by (simp add: a2(4))
    note an = ex_heard [OF i1 a2(2,5) this]
    show "[2, 10] \<in> w \<Longrightarrow> ex_step w ?A2 ?A3" by (rule an(1))
    show "ex_side 1 ?A3" by (rule an(2))
    show "n_sequence ?A3 = 1" "nodes (n_router ?A3) = ex_pair" "policy (n_router ?A3) = []"
      using an(3,4,7) a2(3,4,7) by (simp_all add: ex_pair_def)
    show "known_stamp ?A3 y = (if y = ex_ip 2 then Some (1, 1) else None)" by (rule an(5))
  qed
  have b3: "ex_step w ?B2 ?B3" "ex_side 2 ?B3" "n_sequence ?B3 = 1" "nodes (n_router ?B3) = ex_pair"
      "policy (n_router ?B3) = []" "known_stamp ?B3 y = (if y = ex_ip 1 then Some (1, 1) else None)" "[2, 10] \<in> route_lines ?B3" for w y
  proof -
    have "go_get (nodes (n_router ?B2)) (ex_ip 2) = None" by (simp add: b2(4))
    note an = ex_announced [OF i2 b2(2,3) this]
    show "ex_step w ?B2 ?B3" "ex_side 2 ?B3" "n_sequence ?B3 = 1" "[2, 10] \<in> route_lines ?B3" by (fact an(1-3,6))+
    show "nodes (n_router ?B3) = ex_pair" "policy (n_router ?B3) = []" using an(4,7) b2(4,5) by (simp_all add: ex_pair_def)
    show "known_stamp ?B3 y = (if y = ex_ip 1 then Some (1, 1) else None)" using an(5) b2(6) by (simp add: known_stamp_def)
  qed
  note ra = ex_recalculated [OF a3(2,4,5)] note rb = ex_recalculated [OF b3(2,4,5)]
  have s: "ex_synced 1 = ex_recalculated ?A3" "ex_synced 2 = ex_recalculated ?B3" by (simp_all add: ex_synced_def)
  have st: "own_stamp (ex_synced 1) = (1, 1)" "own_stamp (ex_synced 2) = (1, 1)"
    using ra(2) rb(2) a3(2,3) b3(2,3) by (simp_all add: s own_stamp_def know_def ex_side_def)
  have kn: "known_stamp (ex_synced 1) z = (if z = ex_ip 2 then Some (1, 1) else None)"
      "known_stamp (ex_synced 2) z = (if z = ex_ip 1 then Some (1, 1) else None)"
    using ra(2) rb(2) a3(6) [of z] b3(6) [of z] by (simp_all add: s known_stamp_def know_def)
  show "i \<in> {1, 2} \<Longrightarrow> ex_side i (ex_synced i)" "i \<in> {1, 2} \<Longrightarrow> routed list_pq (n_router (ex_synced i))"
    "i \<in> {1, 2} \<Longrightarrow> nodes (n_router (ex_synced i)) = ex_pair" "i \<in> {1, 2} \<Longrightarrow> own_stamp (ex_synced i) = (1, 1)"
    "i \<in> {1, 2} \<Longrightarrow> known_stamp (ex_synced i) z = (if z = ex_ip (3 - i) then Some (1, 1) else None)"
    using ra(3-5) rb(3-5) st kn by (auto simp: s)
  note r1 = ex_net_step(1) [OF ex_net_up _ a2(1), unfolded u1(2), simplified]
  note r2 = ex_net_step(2) [OF r1 _ b2(1) [OF a2(6)], unfolded u2(2), simplified]
  note r3 = ex_net_step(2) [OF r2 _ b3(1), unfolded b2(3), simplified]
  have "[2, 10] \<in> route_lines ?A2 \<union> route_lines ?B2 \<union> route_lines ?B3" using b3(7) by blast
  note r4 = ex_net_step(1) [OF r3 _ a3(1) [OF this], unfolded a2(3), simplified]
  note r5 = ex_net_step(1) [OF r4 _ ra(1), unfolded a3(3), simplified]
  note r6 = ex_net_step(2) [OF r5 _ rb(1), unfolded b3(3), simplified]
  show "\<exists>w. ex_reach (ex_net (ex_synced 1) (ex_synced 2) w)" using r6 unfolding s by blast
qed


lemma ex_pair_connected:
  assumes "connected_at ex_pair u v e"
  shows "e = f32_one" "\<exists>i\<in>{1, 2}. u = ex_ip i \<and> v = ex_ip (3 - i)"
proof -
  from assms obtain k where k: "go_get (conns_of ex_pair u) k = Some e" "Subnet_Contains k v" and u: "u = ex_ip 1 \<or> u = ex_ip 2"
      and v: "v = ex_ip 1 \<or> v = ex_ip 2"
    by (auto simp: connected_at_def ex_pair_def)
  then obtain i where i: "i \<in> {1, 2}" "u = ex_ip i" by auto
  then have "go_get (ex_pair_conns i) k = Some e" using k(1) by (auto simp: conns_of_def go_get_or_def ex_pair_def split: if_splits)
  then have e: "e = f32_one" "k = NewHostOnlySubnet (ex_ip (3 - i))" by (auto simp: ex_pair_conns_def split: if_splits)
  show "e = f32_one" by (rule e(1))
  have "v = ex_ip (3 - i)"
    using k(2) v host_only_contains_iff [of "ex_ip (3 - i)" v] by (auto simp: e(2) IP_Equal_def net_Equal_def)
  then show "\<exists>i\<in>{1, 2}. u = ex_ip i \<and> v = ex_ip (3 - i)" using i by blast
qed

lemma ex_pair_costs: "one_cost ex_pair" "multiples_of 149 ex_pair"
  using ex_pair_connected(1) unfolding one_cost_def multiples_of_def by (blast, fastforce simp: f32_one_units intro: exI [of _ 1])

lemma ex_pair_walk: "walk f32_add f32_zero (link source_order ex_pair) (ex_ip 1) (ex_ip 2) f32_one"
proof -
  have "Subnet_Contains (NewHostOnlySubnet (ex_ip 2)) (ex_ip 2)"
    using host_only_contains_iff [of "ex_ip 2" "ex_ip 2"] by (simp add: IP_Equal_def net_Equal_def)
  then have "connected_at ex_pair (ex_ip 1) (ex_ip 2) f32_one"
    by (auto simp: connected_at_def ex_pair_def ex_pair_conns_def conns_of_def go_get_or_def intro!: exI [of _ "NewHostOnlySubnet (ex_ip 2)"])
  then have "link source_order ex_pair (ex_ip 1) (ex_ip 2) = Some f32_one" by (simp add: link_connected [OF source_order_ok ex_pair_costs(1)])
  moreover have "f32_add f32_zero f32_one = f32_one" using f32_cost_one(1) by (simp add: f32_cost_def f32_zero_def f32_one_def)
  ultimately show ?thesis using walk_step [where edge = "link source_order ex_pair", OF walk_start, of "ex_ip 1" "ex_ip 2" f32_one f32_add f32_zero] by simp
qed


end
