(* ===== verification/Flooding.thy ===== *)
theory Flooding
  imports Network
begin

text \<open>
  Flooding as it goes through a network: which nodes an update reaches, when each node that reads it from a peer writes it
  to the others.

  \<open>Network\<close> shows what holds in every interleaving; here are the runs that make nodes agree. \<open>learns\<close> is the way of one
  update over the streams between the nodes, from a reachable state of the network, and \<open>flooding_reaches_all\<close> shows that it
  gets to every node that sessions connect to the origin.
\<close>

section \<open>Reading what a peer has written\<close>

text \<open>The sessions over which a node floods: the peer and the routing stream of each connected one.\<close>

definition route_peer :: "netopus \<Rightarrow> ip \<Rightarrow> nat \<Rightarrow> bool" where
  "route_peer n z c \<longleftrightarrow> (\<exists>sid p. (z, sid) \<in> set (n_sessionInfo n) \<and> go_get (n_sessHeap n) sid = Some p \<and>
     ps_connectionState p = connectionStateConnected \<and> ps_oobRouteConn p = Some c)"

lemma route_peer_target:
  assumes "route_peer n z c" "ex \<noteq> Some z"
  shows "c \<in> set (flood_targets ex n)"
proof -
  obtain sid p where "(z, sid) \<in> set (n_sessionInfo n)" "go_get (n_sessHeap n) sid = Some p"
      "ps_connectionState p = connectionStateConnected" "ps_oobRouteConn p = Some c"
    using assms(1) by (auto simp: route_peer_def)
  then show ?thesis using assms(2)
    by (auto simp: flood_targets_def List.map_filter_def intro!: image_eqI [of _ _ "(z, sid)"])
qed

text \<open>What a step has written to routing streams.\<close>

definition new_lines :: "netopus \<Rightarrow> netopus \<Rightarrow> (nat \<times> bytes) set" where
  "new_lines n n' = {(c, b). RouteConnWrite c b \<in> set (drop (length (n_effects n)) (n_effects n'))}"

text \<open>
  How an update spreads: the origin announces it, and a node reads what a node that has it before has written to the stream
  between them. \<open>rd a c\<close> is the node, and its session, at the other end of the stream \<open>c\<close> of node \<open>a\<close>.
\<close>

inductive learns :: "update_codec \<Rightarrow> (ip \<Rightarrow> nat \<Rightarrow> (ip \<times> nat) option) \<Rightarrow> (ip \<Rightarrow> time) \<Rightarrow> (ip \<Rightarrow> netopus option) \<Rightarrow>
    ip \<Rightarrow> ip \<Rightarrow> ip option \<Rightarrow> netopus \<Rightarrow> netopus \<Rightarrow> bool" for uj rd now net org where
  announces: "net org = Some n \<Longrightarrow> updateSender_run uj n = Inr n' \<Longrightarrow> learns uj rd now net org org None n n'"
| reads: "learns uj rd now net org a prev n n' \<Longrightarrow> (c, b) \<in> new_lines n n' \<Longrightarrow> rd a c = Some (z, s) \<Longrightarrow> z \<noteq> org \<Longrightarrow>
    net z = Some m \<Longrightarrow> go_get (n_sessHeap m) s = Some p \<Longrightarrow> ps_remoteAddr p = a \<Longrightarrow>
    routeReader_step uj (now z) s p (Inr b) m = Inr (m', True) \<Longrightarrow> learns uj rd now net org z (Some a) m m'"

text \<open>Two running nodes with a session between them, whose reader at the second node runs.\<close>

definition route_link :: "(ip \<Rightarrow> nat \<Rightarrow> (ip \<times> nat) option) \<Rightarrow> (ip \<Rightarrow> netopus option) \<Rightarrow> ip \<Rightarrow> ip \<Rightarrow> bool" where
  "route_link rd net a z \<longleftrightarrow> (\<exists>n c s m p. net a = Some n \<and> route_peer n z c \<and> rd a c = Some (z, s) \<and> net z = Some m \<and>
     go_get (n_sessHeap m) s = Some p \<and> \<not> ps_done p \<and> ps_remoteAddr p = a)"

text \<open>An update that was decoded can be encoded again; the address of a node is written like that of no other running one.\<close>

definition recodes :: "update_codec \<Rightarrow> bool" where
  "recodes uj \<longleftrightarrow> (\<forall>b v. dec_update uj b = Inr v \<longrightarrow> (\<exists>b'. enc_update uj v = Inr b'))"

definition names_differ :: "(ip \<Rightarrow> netopus option) \<Rightarrow> ip \<Rightarrow> bool" where
  "names_differ net org \<longleftrightarrow> (\<forall>z. net z \<noteq> None \<longrightarrow> z \<noteq> org \<longrightarrow> IP_String z \<noteq> IP_String org)"

section \<open>Flooding reaches every node\<close>

text \<open>A node that has the update: it holds it, and has written it to every peer but the one it has it from.\<close>

definition has_spread :: "update_codec \<Rightarrow> (RoutingUpdate \<Rightarrow> bool) \<Rightarrow> RoutingUpdate \<Rightarrow> ip \<Rightarrow> ip option \<Rightarrow> netopus \<Rightarrow> netopus \<Rightarrow> bool" where
  "has_spread uj repr u a prev n n' \<longleftrightarrow>
     (a \<noteq> Origin u \<longrightarrow> known_stamp n' (Origin u) = Some (ru_stamp u) \<and> holds n' u) \<and>
     (\<forall>c b. (c, b) \<in> new_lines n n' \<longrightarrow> (\<exists>v. dec_update uj b = Inr v \<and> same_update u v \<and> repr v)) \<and>
     (\<forall>z c. route_peer n z c \<longrightarrow> prev \<noteq> Some z \<longrightarrow> (\<exists>b. (c, b) \<in> new_lines n n'))"

text \<open>Flooding from a state with the same sessions.\<close>

lemma flood_spreads:
  assumes codec: "codec_ok uj repr" and v: "same_update u v" "repr v" "enc_update uj v = Inr b"
    and m: "n_sessionInfo m = n_sessionInfo n" "n_sessHeap m = n_sessHeap n" "n_effects m = n_effects n @ es" "\<And>c x. RouteConnWrite c x \<notin> set es"
    and n': "n' = floodRoutingUpdate uj v prev m"
  shows "(c, x) \<in> new_lines n n' \<Longrightarrow> \<exists>v. dec_update uj x = Inr v \<and> same_update u v \<and> repr v"
    "route_peer n z c \<Longrightarrow> prev \<noteq> Some z \<Longrightarrow> \<exists>x. (c, x) \<in> new_lines n n'"
proof -
  have l: "new_lines n n' = {(c, b @ [10]) | c. c \<in> set (flood_targets prev n)}"
    using m by (auto simp: new_lines_def n' flood_effects [OF v(3)] flood_targets_def)
  show "\<exists>v. dec_update uj x = Inr v \<and> same_update u v \<and> repr v" if "(c, x) \<in> new_lines n n'"
  proof -
    have "x = b @ [10]" using that l by blast
    then obtain v' where "dec_update uj x = Inr v'" "same_update v v'" "repr v'" using codec v(2,3) unfolding codec_ok_def by blast
    then show ?thesis using same_update_trans [OF v(1)] by blast
  qed
  show "\<exists>x. (c, x) \<in> new_lines n n'" if "route_peer n z c" "prev \<noteq> Some z" using route_peer_target [OF that] l by blast
qed

lemma announced_spreads:
  assumes codec: "codec_ok uj repr" and run: "updateSender_run uj n = Inr n'"
  defines "u \<equiv> snd (generateRoutingUpdate n)"
  assumes u: "repr u" "enc_update uj u = Inr b"
  shows "has_spread uj repr u (n_addr n) None n n'"
proof -
  have org: "Origin u = n_addr n" by (simp add: u_def generateRoutingUpdate_def Let_def)
  obtain r where n': "n' = floodRoutingUpdate uj u None (n\<lparr>n_sequence := n_sequence n + 1, n_router := r\<rparr>)"
    using run by (auto simp: updateSender_run_def generateRoutingUpdate_def Let_def u_def split: sum.splits)
  note f = flood_spreads [OF codec same_update_refl u, of "n\<lparr>n_sequence := n_sequence n + 1, n_router := r\<rparr>" n "[]" n' None, OF _ _ _ _ n']
  show ?thesis unfolding has_spread_def using org f by auto
qed

lemma read_spreads:
  assumes codec: "codec_ok uj repr" and enc: "recodes uj"
    and read: "routeReader_step uj now s p (Inr b) m = Inr (m', True)" "dec_update uj b = Inr v" "same_update u v" "repr v"
    and fresh: "fresh m v" and tab: "table_wf (nodes (n_router m))" "Connections u \<noteq> None"
  shows "has_spread uj repr u z (Some (ps_remoteAddr p)) m m'"
proof -
  obtain k where k: "handleRoutingUpdate now v m = (k, True)" using fresh handle_accepts by (metis prod.collapse)
  note ks = handle_state [OF fresh, of now, unfolded k fst_conv]
  have "\<not> ps_done p" using read(1) by (auto simp: routeReader_step_def)
  then obtain r en where r: "UpdateNode (n_router m) (Origin v) (Connections v) = Inr r"
      "m' = floodRoutingUpdate uj v (Some (ps_remoteAddr p)) (k\<lparr>n_router := r, n_externalNames := en\<rparr>)"
    using read(1,2) ks(3) by (auto simp: routeReader_step_def k Let_def split: sum.splits)
  obtain es where es: "n_effects k = n_effects m @ es" "\<And>c x. RouteConnWrite c x \<notin> set es"
    using k by (auto simp: handleRoutingUpdate_def Let_def split: if_splits)
  obtain b' where b': "enc_update uj v = Inr b'" using enc read(2) unfolding recodes_def by blast
  note f = flood_spreads [OF codec read(3,4) b', of "k\<lparr>n_router := r, n_externalNames := en\<rparr>" m es m' "Some (ps_remoteAddr p)", OF _ _ _ es(2) r(2)]
  have wf: "conns_wf (Connections v)" using codec read(2) by (simp add: codec_ok_def)
  have some: "Connections v \<noteq> None" using read(3) tab(2) by (cases "Connections v") (auto simp: same_update_def same_conns_def)
  have "holds m' v" using UpdateNode_table(4) [OF r(1) tab(1) wf some] by (simp add: holds_def r(2))
  then have "holds m' u" using holds_cong [OF read(3)] by simp
  moreover have "known_stamp m' (Origin u) = Some (ru_stamp u)"
    using ks(1) read(3) by (simp add: r(2) known_stamp_def gomap_simps same_update_def ru_stamp_def)
  ultimately show ?thesis unfolding has_spread_def using f ks(5,6) es(1) by auto
qed

text \<open>
  In a reachable network an update is fresh for every node but its origin, so whoever reads it takes it and passes it on.
\<close>

lemma learns_spreads:
  assumes codec: "codec_ok uj repr" and enc: "recodes uj"
    and inv: "net_inv uj repr N" and org: "nt_node N org = Some n0" "n_sequence n0 \<noteq> - 1"
    and names: "names_differ (nt_node N) org"
  defines "u \<equiv> snd (generateRoutingUpdate n0)"
  assumes u: "repr u" "enc_update uj u = Inr b0"
    and "learns uj rd now (nt_node N) org a prev n n'"
  shows "nt_node N a = Some n \<and> has_spread uj repr u a prev n n'"
  using assms(10)
proof (induction rule: learns.induct)
  have know: "node_know uj (nt_lines N) z m" if "nt_node N z = Some m" for z m using inv that by (simp add: net_inv_def)
  have o: "Origin u = org" "ru_stamp u = (n_epoch n0, n_sequence n0 + 1)" "Connections u \<noteq> None"
    using know [OF org(1)] by (simp_all add: u_def generateRoutingUpdate_def Let_def node_know_def ru_stamp_def)
  {
    case (announces n n')
    then have "n = n0" "n_addr n = org" using org(1) know by (auto simp: node_know_def)
    then show ?case using announces announced_spreads [OF codec announces(2)] u by (simp add: u_def)
  next
    case (reads a prev n n' c b z s m p m')
    then obtain v where v: "dec_update uj b = Inr v" "same_update u v" "repr v" unfolding has_spread_def by blast
    have vo: "Origin v = org" "ru_stamp v = ru_stamp u" using same_update_stamp [OF v(2)] o(1) by simp_all
    have kz: "node_know uj (nt_lines N) z m" by (rule know [OF reads(5)])
    have "newer (ru_stamp u) st" if ks: "known_stamp m org = Some st" for st
    proof -
      have "stamp_of m org = Some st" using ks reads(4) kz by (simp add: stamp_of_def node_know_def)
      then obtain y where y: "sent uj (nt_lines N) y" "Origin y = org" "ru_stamp y = st"
        using stamp_of_update [OF kz] reads(4) by blast
      have log: "log_ok uj repr (nt_lines N) (nt_node N)" using inv by (simp add: net_inv_def)
      have "\<not> newer st (own_stamp n0)" using log_okD(4) [OF log y(1)] org(1) y(2,3) by simp
      then show ?thesis using stamp_step [OF org(2)] by (auto simp: o(2) newer_def own_stamp_def)
    qed
    moreover have "n_sequence n0 + 1 \<noteq> 0" using stamp_step(1) [OF org(2)] by (auto simp: newer_def own_stamp_def)
    ultimately have fr: "fresh m v"
      using names reads(4,5) kz by (auto simp: names_differ_def fresh_def vo o(2) node_know_def split: option.split)
    show ?case
      using reads(5) read_spreads [OF codec enc reads(8) v fr _ o(3), of z] kz reads(7) by (auto simp: node_know_def)
  }
qed

lemma origin_addr:
  assumes "net_inv uj repr N" "nt_node N a = Some n"
  shows "n_addr n = a \<and> length a = 16"
proof -
  have "node_know uj (nt_lines N) a n" using assms by (simp add: net_inv_def)
  then show ?thesis by (simp add: node_know_def)
qed

lemma updateSender_total:
  assumes "n_addr n \<noteq> []"
  shows "\<exists>n'. updateSender_run uj n = Inr n'"
proof -
  obtain r where "UpdateNode (n_router n) (n_addr n) (Some (own_conns n)) = Inr r" using UpdateNode_total [OF assms] by blast
  then show ?thesis by (simp add: updateSender_run_def generateRoutingUpdate_def Let_def)
qed

lemma learns_prev: "learns uj rd now net org a (Some z) n n' \<Longrightarrow> \<exists>q k k'. learns uj rd now net org z q k k'"
  by (erule learns.cases) auto

lemma linked_learns:
  assumes codec: "codec_ok uj repr" and enc: "recodes uj"
    and inv: "net_inv uj repr N" and org: "nt_node N org = Some n0" "n_sequence n0 \<noteq> - 1"
    and names: "names_differ (nt_node N) org"
    and u: "repr (snd (generateRoutingUpdate n0))" "enc_update uj (snd (generateRoutingUpdate n0)) = Inr b0"
    and path: "(route_link rd (nt_node N))\<^sup>*\<^sup>* org z"
  shows "\<exists>prev n n'. learns uj rd now (nt_node N) org z prev n n'"
proof -
  have "n_addr n0 \<noteq> []" using origin_addr [OF inv org(1)] by auto
  then have first: "\<exists>prev n n'. learns uj rd now (nt_node N) org org prev n n'"
    using announces [where net = "nt_node N", OF org(1)] updateSender_total by blast
  show ?thesis
    using path
  proof (induction rule: rtranclp_induct)
    case base
    show ?case by (rule first)
  next
    case (step a z)
    then obtain prev n n' where l: "learns uj rd now (nt_node N) org a prev n n'" by blast
    note s = learns_spreads [OF codec enc inv org names u l]
    obtain c s m p where k: "route_peer n z c" "rd a c = Some (z, s)" "nt_node N z = Some m" "go_get (n_sessHeap m) s = Some p"
        "\<not> ps_done p" "ps_remoteAddr p = a"
      using step(2) s by (auto simp: route_link_def)
    consider "z = org" | "prev = Some z" | "z \<noteq> org" "prev \<noteq> Some z" by blast
    then show ?case
    proof cases
      case 1
      then show ?thesis using first by simp
    next
      case 2
      then show ?thesis using learns_prev l by blast
    next
      case 3
      obtain b where b: "(c, b) \<in> new_lines n n'" using s k(1) 3(2) unfolding has_spread_def by blast
      then obtain v where v: "dec_update uj b = Inr v" "same_update (snd (generateRoutingUpdate n0)) v"
        using s unfolding has_spread_def by blast
      have "length (n_addr n0) = 16" using origin_addr [OF inv org(1)] by simp
      then have "Origin v \<noteq> []" using v(2) by (auto simp: same_update_def generateRoutingUpdate_def Let_def)
      then obtain m' go where "routeReader_step uj (now z) s p (Inr b) m = Inr (m', go)" using routeReader_returns [OF v(1)] by blast
      moreover from this have "go" using k(5) v(1) by (auto simp: routeReader_step_def Let_def split: sum.splits prod.splits if_splits)
      ultimately show ?thesis using reads [OF l b k(2) 3(1) k(3,4,6)] by auto
    qed
  qed
qed

text \<open>
  C5. Flooding: in every reachable network, the next update that a node generates is read, taken and written on by all nodes
  that sessions connect it to, over any number of hops, whatever updates of it they have recorded before: each of them then
  has the number and the connections of the update. No node sends it back to the one that it has it from.
\<close>

theorem flooding_reaches_all:
  assumes "codec_ok uj repr" "recodes uj"
    and "(net_step pq j uj h repr)\<^sup>*\<^sup>* net_empty N" "nt_node N org = Some n0" "n_sequence n0 \<noteq> - 1"
    and "names_differ (nt_node N) org"
    and "repr (snd (generateRoutingUpdate n0))" "enc_update uj (snd (generateRoutingUpdate n0)) = Inr b0"
    and "(route_link rd (nt_node N))\<^sup>*\<^sup>* org z" "z \<noteq> org"
  shows "\<exists>prev n n'. learns uj rd now (nt_node N) org z prev n n' \<and>
    known_stamp n' org = Some (n_epoch n0, n_sequence n0 + 1) \<and>
    go_get (conns_of (nodes (n_router n')) org) = go_get (own_conns n0) \<and>
    (\<forall>a c. route_peer n a c \<longrightarrow> prev \<noteq> Some a \<longrightarrow> (\<exists>b. (c, b) \<in> new_lines n n'))"
proof -
  note inv = net_reachable_inv [OF assms(3,1)]
  obtain prev n n' where l: "learns uj rd now (nt_node N) org z prev n n'"
    using linked_learns [OF assms(1,2) inv assms(4-9)] by blast
  let ?u = "snd (generateRoutingUpdate n0)"
  have "has_spread uj repr ?u z prev n n'" using learns_spreads [OF assms(1,2) inv assms(4-8) l] by blast
  moreover have u: "Origin ?u = org" "ru_stamp ?u = (n_epoch n0, n_sequence n0 + 1)" "Connections ?u = Some (own_conns n0)"
    using origin_addr [OF inv assms(4)] by (simp_all add: generateRoutingUpdate_def Let_def ru_stamp_def)
  moreover have "go_get (conns_of (nodes (n_router n')) org) = go_get (own_conns n0)" if "holds n' ?u"
    using that conns_of_same unfolding holds_def u by fastforce
  ultimately show ?thesis using l assms(10) unfolding has_spread_def by auto
qed

text \<open>The two nodes with a session, before either has announced itself.\<close>

theorem flooding_reaches_all_witness:
  "\<exists>prev n n'. learns pair_codec (\<lambda>a c. Some (if a = ex_ip 1 then ex_ip 2 else ex_ip 1, 1)) (\<lambda>_. 2)
     [ex_ip 1 \<mapsto> ex_up 1, ex_ip 2 \<mapsto> ex_up 2] (ex_ip 1) (ex_ip 2) prev n n' \<and> known_stamp n' (ex_ip 1) = Some (1, 1)"
proof -
  let ?rd = "\<lambda>a c. Some (if a = ex_ip 1 then ex_ip 2 else ex_ip 1, 1 :: nat)"
  let ?node = "[ex_ip 1 \<mapsto> ex_up 1, ex_ip 2 \<mapsto> ex_up 2]"
  note u1 = ex_up_side [of 1, simplified] note u2 = ex_up_side [of 2, simplified]
  have N: "nt_node (ex_net (ex_up 1) (ex_up 2) {}) = ?node" by (simp add: ex_net_def)
  have g: "snd (generateRoutingUpdate (ex_up 1)) = ex_first 1" by (simp add: ex_first_def)
  have link: "route_link ?rd ?node (ex_ip 1) (ex_ip 2)"
    using u1(1) u2(1) by (auto simp: route_link_def route_peer_def ex_side_def ex_conn_def)
  have enc: "recodes pair_codec"
    unfolding recodes_def by (auto simp: pair_codec_def split: if_splits)
  have names: "names_differ ?node (ex_ip 1)"
    using ex_strings by (auto simp: names_differ_def)
  have "(route_link ?rd ?node)\<^sup>*\<^sup>* (ex_ip 1) (ex_ip 2)" using link by blast
  note f = flooding_reaches_all [OF pair_codec_ok enc ex_net_up, unfolded N, of "ex_ip 1" "ex_up 1" "[1]", unfolded g,
      OF _ _ names _ _ this]
  have "n_epoch (ex_up 1) = 1" using u1(1) by (simp add: ex_side_def)
  then show ?thesis using f [of "\<lambda>_. 2"] u1(2) pair_codec(1) [of 1] by auto
qed

end
