(* ===== verification/Spec2Isabelle.thy ===== *)
theory Spec2Isabelle
  imports Prelude Float32 Relaxation Tcpip Messages TextFormats Router NodeState Forwarding RoutingUpdates OOBConn Sessions
    Config Backends BackendConfig Dns Services Supervisor Control Links CommandLine WebUI NetStacks Delivery Network Flooding
begin

text \<open>
  Connectopus: a verification library.

  \<^bold>\<open>The program.\<close> Connectopus (a Go program, under \<^verbatim>\<open>src/\<close>) connects nodes to an IPv6 overlay network. A node
  has an address, an IP stack and a number of backend connections to other nodes. Over every connection runs
  a session (\<^verbatim>\<open>pkg/netopus/netopus.go\<close>) that exchanges init messages, opens a reliable stream for routing
  updates and then carries IPv6 packets and out-of-band messages. Routing updates are flooded; from them the
  router (\<^verbatim>\<open>pkg/router/router.go\<close>) calculates the next hop for every address. The supervisor
  (\<^verbatim>\<open>pkg/connectopus/connectopus.go\<close>) starts the node and its backends, services, tunnels, namespaces, name
  server and control socket from a signed configuration, and replaces it when a newer one arrives with
  a routing update. The commands (\<^verbatim>\<open>cmd/connectopus/connectopus.go\<close>) initialise and run a node, and change and
  show a running one through its control socket, which also serves a web page (\<^verbatim>\<open>pkg/cpctl\<close>, \<^verbatim>\<open>pkg/localui\<close>).

  \<^bold>\<open>The theories\<close>, in the order of their dependencies:
  \<^item> \<open>Prelude\<close>: bytes, errors and results, Go maps as association lists behind the locale \<open>kv_store\<close>,
    iteration orders, big-endian numbers, timers.
  \<^item> \<open>Float32\<close>: IEEE 754 single precision as multiples of the smallest subnormal, with rounding, infinities
    and NaN. Link costs are of this type and the theorems on routes hold for its arithmetic.
  \<^item> \<open>Relaxation\<close>: label correction over costs that are added with rounding; locale \<open>prio_queue\<close> for the
    queue of the third-party package the router uses.
  \<^item> \<open>Tcpip\<close>, \<open>TextFormats\<close>: \<^verbatim>\<open>pkg/proto/tcpip.go\<close>. Addresses, masks and subnets; containment is a prefix match. Their
    text, JSON and YAML forms with the parsers of Go's \<open>net\<close> and \<open>netip\<close> they rely on (locale \<open>hex_printer\<close>
    for the groups of an IPv6 address, used for two ways of printing them).
  \<^item> \<open>Messages\<close>: \<^verbatim>\<open>pkg/proto/proto.go\<close>. Classification, decoding and encoding of datagrams.
  \<^item> \<open>Router\<close>: \<^verbatim>\<open>pkg/router/router.go\<close>. The tables, the recalculation and \<open>NextHop\<close>.
  \<^item> \<open>NodeState\<close>: the record \<open>netopus\<close> of \<^verbatim>\<open>pkg/netopus/netopus.go\<close> with its sessions and packet
    connections, and \<open>New\<close>. Sessions and packet connections live in heaps indexed by numbers, since the
    program shares pointers to them; what the node does to the outside is a log of effects.
  \<^item> \<open>Forwarding\<close>: \<open>SendPacket\<close>, ICMPv6 errors and out-of-band messages, over the locale \<open>ipv6_header\<close> of
    gVisor's header accessors, interpreted on the layout of RFC 8200.
  \<^item> \<open>RoutingUpdates\<close>: generating, flooding, accepting and forgetting updates; names, external routes, status.
  \<^item> \<open>OOBConn\<close>: \<^verbatim>\<open>pkg/netopus/oob_conn.go\<close>.
  \<^item> \<open>Sessions\<close>: the session protocol as the step relation \<open>sess_step\<close>. A step is what a goroutine does between
    two points at which it waits, so that the relation has every interleaving of the program.
  \<^item> \<open>Config\<close>: \<^verbatim>\<open>pkg/config\<close> and \<^verbatim>\<open>pkg/proto/ssh_keys.go\<close>.
  \<^item> \<open>Backends\<close>, \<open>BackendConfig\<close>: \<^verbatim>\<open>pkg/backends\<close>. The locale \<open>message_transport\<close> is the promise of
    \<open>BackendConnection\<close>; the framing of TCP and the pair are interpretations. Dialers and listeners as
    they are set up from parameters, the registry, \<open>LeastMTU\<close>.
  \<^item> \<open>Dns\<close>: \<^verbatim>\<open>pkg/dns/dns.go\<close>. \<open>Services\<close>: \<^verbatim>\<open>pkg/services/services.go\<close>.
  \<^item> \<open>Supervisor\<close>: \<^verbatim>\<open>pkg/connectopus/connectopus.go\<close> and \<^verbatim>\<open>pkg/links/netns/registry.go\<close>.
  \<^item> \<open>Control\<close>: \<^verbatim>\<open>pkg/cpctl\<close> less the generated code: queries and mutations of the control API, its
    sockets, and the client's choice of socket, key and token.
  \<^item> \<open>Links\<close>: \<^verbatim>\<open>pkg/links\<close>. Tunnel devices (\<^verbatim>\<open>tun_linux.go\<close>) over the calls of the operating system as a record of
    functions, with the premise \<open>kernel_ok\<close> for what they do to a device; namespaces and the shim
    (\<^verbatim>\<open>netns_linux.go\<close>) as the list of system calls it makes.
  \<^item> \<open>CommandLine\<close>: \<^verbatim>\<open>cmd/connectopus/connectopus.go\<close>. One function per command (\<open>initCmd\<close>, \<open>nodeCmd\<close>,
    \<open>setConfigCmd\<close>, \<open>setupTunnelCmd\<close> and so on) of its flags and of what the agent, the files and the node answer.
  \<^item> \<open>WebUI\<close>: \<^verbatim>\<open>internal/ui_embed\<close>, the routes of \<^verbatim>\<open>cpctl_server.go\<close>, and \<^verbatim>\<open>pkg/localui\<close>. A handler is a function from
    a request to what it does with the response; the local server also has a state.
  \<^item> \<open>NetStacks\<close>: \<^verbatim>\<open>pkg/netstack\<close>. How the gVisor stacks are set up, their endpoints (locale \<open>udp_dialer\<close> for the
    documented contract of \<open>DialUDP\<close>) and the loops that publish packets.
  \<^item> \<open>Delivery\<close>: routers and forwarding of several nodes. From tables that agree to packets that arrive, hop by hop,
    with what float32 costs need for the choices of different routers to fit together.
  \<^item> \<open>Network\<close>: any number of nodes that start, stop, restart and flood updates, as the step relation \<open>net_step\<close> over
    \<open>sess_step\<close>, with its invariant.
  \<^item> \<open>Flooding\<close>: the way of an update through a network. These three theories define no operations of the program, only
    how nodes are put together.
  \<^item> This theory: how a configuration travels from one node to another, which involves the routing updates,
    the supervisor and the node.

  \<^bold>\<open>How the code is represented.\<close> A struct is a record, an operation a function on it that returns the new
  state, an error a value of a sum type, and a panic \<open>Inl\<close> or \<open>None\<close> where the caller cannot go on.
  A loop that reads from a channel or a socket is a function of the list of what it reads, so that its
  theorems hold for every such list. The branch a \<open>select\<close> takes, the order a map is iterated in, the
  clock, and the results of library calls are arguments. Fixed-width integers are words.

  \<^bold>\<open>What is shown.\<close>
  \<^item> Routing: the calculation ends for all costs; host routes are first hops of cheapest walks in float32
    arithmetic; \<open>NextHop\<close> is a longest-prefix match; where the code loses or misdirects subnet routes.
  \<^item> Forwarding: \<open>SendPacket\<close> returns, packets and out-of-band messages are forwarded a bounded number of times.
  \<^item> Networks: nodes that have recorded the same numbers for an origin agree on its connections, in every interleaving;
    an update is taken and passed on by every node that sessions connect to its origin; once all nodes have the current updates and have recalculated, packets are carried to every node that the links lead to.
  \<^item> Updates: acceptance is freshness, accepted updates of an origin increase strictly, silent nodes are
    forgotten, local names are protected, what a node advertises.
  \<^item> Sessions: an invariant of all interleavings (one live session per peer, at most one attempt, legal
    states), the handshake, the keepalive timer; out-of-band datagrams are delivered to their port.
  \<^item> Formats: round trips of datagrams, addresses, subnets, peer parameters; what is decoded is well-formed; framing of TCP refines
    message transport, also when the stream breaks.
  \<^item> Configuration: only an authorised key changes a node, signed configurations load, what is loaded after
    an update, how backends are protected, how the MTU is chosen, and that tunnels come and go with
    their routes and names, and how a new configuration spreads; bounds on the pauses of dialers and services; reverse name queries.
  \<^item> Commands and links: what \<open>init\<close> leaves can be run, the default address of a node, \<open>config set\<close> keeps the authorised
    keys, tunnels that were set up pass the check, the shim reports a namespace ready only when it is.
  \<^item> Web pages: a request puts only names on a page, the local server does nothing without its token, logging in ends,
    and queries for another node reach it.

  \<^bold>\<open>Parameters and bounds.\<close> The third-party packages (gVisor, kcp-go, pion/dtls, miekg/dns, golib's reconciler,
  timers and signatures, the priority queue, yaml.v3) and the parts of the operating system the program
  calls are arguments; hypotheses about them are the assumptions of the locales named above or
  premises of the theorem. \<open>SendPacket\<close> and the walk over predecessors are partial functions whose
  value \<open>None\<close> is an endless run, and termination is proved; no definition has fuel. The theorems on networks take the
  JSON coding of updates as an argument with the premise \<open>codec_ok\<close>, and stop before a 64-bit sequence number wraps; the
  one on delivery is for link costs that are multiples of a power of two (whole numbers, for example) and ways that cost less than
  \<open>2 ^ 24\<close> of them, where float32 sums are exact.

  \<^bold>\<open>Not modelled.\<close> The code that gqlgen generates from the GraphQL schema (the resolvers behind it are modelled), the declaration of the flags in
  \<open>main\<close>, the stubs for operating systems other than Linux, and the insides of gVisor, netlink, \<^verbatim>\<open>net/http\<close> and the
  JWT library; methods that only delegate (deadlines and \<open>Close\<close> of a backend connection, subscriptions); logging.
  Goroutines that copy bytes between a command and its connection are input and output.
\<close>

section \<open>Distributing a configuration\<close>

text \<open>
  The way of a configuration from node to node: the routing updates of a node carry it as long as a known
  node has an older one (\<open>RoutingUpdates\<close>), the node that accepts such an update calls the function that
  the supervisor has installed (\<open>Supervisor\<close>), and the next update of that node says which version it has.
\<close>

lemma generate_fields:
  assumes "generateRoutingUpdate n = (n', ru)"
  shows "Origin ru = n_addr n" "ConfigVersion ru = ci_configVersion (n_configInfo n)"
    "\<not> checkConfigsConverged n (ci_configVersion (n_configInfo n)) \<Longrightarrow>
       ConfigData ru = ci_configData (n_configInfo n) \<and> ConfigSignature ru = ci_configSignature (n_configInfo n)"
  using assms by (auto simp: generateRoutingUpdate_def Let_def)

lemma accepted_config_emitted:
  assumes "handleRoutingUpdate now ru n = (n', True)" "n_hasNewConfigFunc n"
    and "ConfigData ru \<noteq> []" "ConfigSignature ru \<noteq> []" "ci_configVersion (n_configInfo n) < ConfigVersion ru"
  shows "n_effects n' = n_effects n @ [NewConfig (ConfigData ru) (ConfigSignature ru)]"
  using assms by (auto simp: handleRoutingUpdate_def Let_def split: if_splits)

lemma accepted_version_recorded:
  assumes "handleRoutingUpdate now ru n = (n', True)"
  shows "map_option ni_configVersion (go_get (n_knownNodeInfo n') (Origin ru)) = Some (ConfigVersion ru)"
proof -
  have "fresh n ru" using handle_accepts [of now ru n] assms by simp
  then show ?thesis using handle_state(1) [of n ru now] assms by (simp add: gomap_simps)
qed

text \<open>
  C6. A configuration travels: when a node has a newer configuration than another one knows, signed by a key
  that the other node accepts, then its routing update makes the other node install the configuration with
  the same version, data and signature, reconcile it, and announce the version, so that the first node
  counts it as converged as soon as it accepts that announcement.
\<close>

theorem config_travels:
  assumes gen: "generateRoutingUpdate a = (a', ru)"
    and ahead: "\<not> checkConfigsConverged a (ci_configVersion (n_configInfo a))"
    and data: "ci_configData (n_configInfo a) \<noteq> []" "ci_configSignature (n_configInfo a) \<noteq> []"
    and accepted: "handleRoutingUpdate now ru (ni_n b) = (nb, True)"
    and older: "n_hasNewConfigFunc (ni_n b)"
      "ci_configVersion (n_configInfo (ni_n b)) < ci_configVersion (n_configInfo a)"
    and signed: "ParseAndCheckConfig ops (ci_configData (n_configInfo a)) (ci_configSignature (n_configInfo a))
        (gl_AuthorizedKeys (cfg_Global (ni_cfg b))) = Inr cfg"
      "gl_LastUpdated (cfg_Global cfg) = ci_configVersion (n_configInfo a)"
    and written: "\<And>f. fail f = None"
  shows "n_effects nb = n_effects (ni_n b)
        @ [NewConfig (ci_configData (n_configInfo a)) (ci_configSignature (n_configInfo a))]
    \<and> (\<exists>b' fs'. nodeInstance_NewConfig ops fail (ci_configData (n_configInfo a)) (ci_configSignature (n_configInfo a))
            (b\<lparr>ni_n := nb\<rparr>) fs = (b', fs', None, Some cfg)
        \<and> n_configInfo (ni_n b') = n_configInfo a
        \<and> (\<forall>b'' ru' now' a1 a2. generateRoutingUpdate (ni_n b') = (b'', ru') \<and> handleRoutingUpdate now' ru' a1 = (a2, True) \<longrightarrow>
             map_option ni_configVersion (go_get (n_knownNodeInfo a2) (n_addr (ni_n b))) = Some (ci_configVersion (n_configInfo a))))"
proof -
  note ru = generate_fields [OF gen]
  have eff: "n_effects nb = n_effects (ni_n b) @ [NewConfig (ci_configData (n_configInfo a)) (ci_configSignature (n_configInfo a))]"
    using accepted_config_emitted [OF accepted older(1)] ru ahead data older(2) by simp
  have addr: "n_addr nb = n_addr (ni_n b)"
    using accepted by (auto simp: handleRoutingUpdate_def Let_def split: if_splits)
  let ?n = "UpdateConfig nb (ci_configData (n_configInfo a)) (ci_configSignature (n_configInfo a)) (ci_configVersion (n_configInfo a))"
  let ?b = "b\<lparr>ni_n := ?n\<rparr>"
  have "\<exists>fs'. nodeInstance_NewConfig ops fail (ci_configData (n_configInfo a)) (ci_configSignature (n_configInfo a))
      (b\<lparr>ni_n := nb\<rparr>) fs = (?b, fs', None, Some cfg)"
    using signed written by (simp add: nodeInstance_NewConfig_def os_WriteFile_def)
  moreover have "n_configInfo (ni_n ?b) = n_configInfo a" by (simp add: UpdateConfig_def)
  moreover have "map_option ni_configVersion (go_get (n_knownNodeInfo a2) (n_addr (ni_n b))) = Some (ci_configVersion (n_configInfo a))"
    if "generateRoutingUpdate (ni_n ?b) = (b'', ru')" "handleRoutingUpdate now' ru' a1 = (a2, True)" for b'' ru' now' a1 a2
    using accepted_version_recorded [OF that(2)] generate_fields(1,2) [OF that(1)] addr by (simp add: UpdateConfig_def)
  ultimately show ?thesis using eff by blast
qed

definition ex_ahead :: netopus where
  "ex_ahead = ex_peer\<lparr>n_knownNodeInfo := [(ex_ip 1, zero_nodeInfo)],
     n_configInfo := \<lparr>ci_configVersion = 5, ci_configData = [2], ci_configSignature = [65]\<rparr>\<rparr>"

definition ex_behind :: "string nodeInstance" where
  "ex_behind = (ex_instance (Some [''A'']))\<lparr>ni_n := ex_node\<lparr>n_hasNewConfigFunc := True\<rparr>\<rparr>"

theorem config_travels_witness:
  "\<exists>nb b' fs'. handleRoutingUpdate 7 (snd (generateRoutingUpdate ex_ahead)) (ni_n ex_behind) = (nb, True)
     \<and> nodeInstance_NewConfig ex_ops (\<lambda>_. None) [2] [65] (ex_behind\<lparr>ni_n := nb\<rparr>) [] = (b', fs', None, Some (ex_config (Some [''B''])))
     \<and> n_configInfo (ni_n b') = \<lparr>ci_configVersion = 5, ci_configData = [2], ci_configSignature = [65]\<rparr>"
proof -
  have ci: "n_configInfo ex_ahead = \<lparr>ci_configVersion = 5, ci_configData = [2], ci_configSignature = [65]\<rparr>"
    by (simp add: ex_ahead_def)
  obtain a' ru where gen: "generateRoutingUpdate ex_ahead = (a', ru)" by fastforce
  have "fresh (ni_n ex_behind) ru" using gen
    by (auto simp: fresh_def known_stamp_def ru_stamp_def generateRoutingUpdate_def Let_def ex_ahead_def ex_peer_def
        ex_behind_def ex_node_def ex_strings)
  then obtain nb where acc: "handleRoutingUpdate 7 ru (ni_n ex_behind) = (nb, True)"
    using handle_accepts [of 7 ru "ni_n ex_behind"] by (metis prod.collapse)
  have "\<not> checkConfigsConverged ex_ahead (ci_configVersion (n_configInfo ex_ahead))"
    by (simp add: checkConfigsConverged_def ex_ahead_def zero_nodeInfo_def)
  moreover have "n_hasNewConfigFunc (ni_n ex_behind)"
      "ci_configVersion (n_configInfo (ni_n ex_behind)) < ci_configVersion (n_configInfo ex_ahead)"
    by (simp_all add: ex_behind_def ex_node_def ci)
  moreover have "ParseAndCheckConfig ex_ops (ci_configData (n_configInfo ex_ahead)) (ci_configSignature (n_configInfo ex_ahead))
      (gl_AuthorizedKeys (cfg_Global (ni_cfg ex_behind))) = Inr (ex_config (Some [''B'']))"
    using ex_accepts by (simp add: ci ex_behind_def ex_instance_def)
  ultimately show ?thesis
    using config_travels [OF gen, of 7 ex_behind nb ex_ops "ex_config (Some [''B''])" "\<lambda>_. None" "[]"] acc gen
    by (auto simp: ci ex_config_def)
qed

end
